(* ===== verification/Prelude.thy ===== *)
theory Prelude
  imports Main "HOL-Library.Word" "HOL-Library.AList" "HOL-Library.Multiset"
begin

text \<open>
  Shared vocabulary of the development: the result of running Go code
  (\<open>outcome\<close>), Go's 64-bit signed integers written on \<^typ>\<open>int\<close>
  (\<open>wrap64\<close>), decimal printing (\<open>%d\<close>), association lists as Go maps, and the
  generic lemmas the components use. The collection \<open>mono_defs\<close> gathers the
  unfolding rules of small projections, \<open>frame\<close> the facts that an operation leaves a
  field alone.
\<close>

named_theorems mono_defs \<open>unfolding rules of the small helpers of the model\<close>
named_theorems frame \<open>fields an operation does not change\<close>

subsection \<open>Outcomes of Go code\<close>

text \<open>
  A call returns a value, panics (nil dereference, nil-map write, explicit \<open>panic\<close>,
  \<open>rand.Intn\<close> on a non-positive bound), or blocks on a channel.
\<close>

datatype 'a outcome = Ret 'a | Panic string | Block

fun obind :: "'a outcome \<Rightarrow> ('a \<Rightarrow> 'b outcome) \<Rightarrow> 'b outcome" where
  "obind (Ret x) f = f x"
| "obind (Panic m) f = Panic m"
| "obind Block f = Block"

lemma obind_eq_Ret_iff [simp]:
  "obind m f = Ret y \<longleftrightarrow> (\<exists>x. m = Ret x \<and> f x = Ret y)"
  by (cases m) auto

lemma obind_eq_Panic_iff:
  "obind m f = Panic e \<longleftrightarrow> m = Panic e \<or> (\<exists>x. m = Ret x \<and> f x = Panic e)"
  by (cases m) auto

lemma obind_assoc: "obind (obind m f) h = obind m (\<lambda>x. obind (f x) h)"
  by (cases m) auto

lemma obind_cong [fundef_cong]:
  "m = m' \<Longrightarrow> (\<And>x. m' = Ret x \<Longrightarrow> f x = f' x) \<Longrightarrow> obind m f = obind m' f'"
  by (cases m') auto

text \<open>Dereferencing a map entry: a missing entry is a nil pointer or nil interface.\<close>

definition deref :: "'a option \<Rightarrow> 'a outcome" where
  "deref x = (case x of None \<Rightarrow> Panic ''nil pointer dereference'' | Some a \<Rightarrow> Ret a)"

lemma deref_simps [simp]:
  "deref None = Panic ''nil pointer dereference''"
  "deref (Some a) = Ret a"
  by (simp_all add: deref_def)

lemma deref_eq_Ret [simp]: "deref x = Ret a \<longleftrightarrow> x = Some a"
  by (cases x) auto

subsection \<open>Signed 64-bit integers\<close>

text \<open>
  Go's \<open>int\<close> and \<open>time.Duration\<close> are 64-bit two's complement on the supported
  platforms: an operation computes on \<^typ>\<open>int\<close> and wraps its result.
\<close>

definition wrap64 :: "int \<Rightarrow> int" where
  "wrap64 x = (x + 2 ^ 63) mod 2 ^ 64 - 2 ^ 63"

definition in64 :: "int \<Rightarrow> bool" where
  "in64 x \<longleftrightarrow> - (2 ^ 63) \<le> x \<and> x < 2 ^ 63"

definition MaxInt :: int where
  "MaxInt = 2 ^ 63 - 1"

lemma wrap64_in64: "in64 (wrap64 x)"
  using pos_mod_bound [of "2 ^ 64 :: int" "x + 2 ^ 63"] pos_mod_sign [of "2 ^ 64 :: int" "x + 2 ^ 63"]
  by (simp add: wrap64_def in64_def)

lemma wrap64_id: "in64 x \<Longrightarrow> wrap64 x = x"
  by (simp add: wrap64_def in64_def)

lemma wrap64_le_MaxInt [simp]: "wrap64 x \<le> MaxInt"
  using wrap64_in64 [of x] by (simp add: in64_def MaxInt_def)

lemma wrap64_sint: "wrap64 x = sint (word_of_int x :: 64 word)"
proof -
  have "signed_take_bit 63 x = (x + 2 ^ 63) mod 2 ^ 64 - 2 ^ 63"
    by (simp add: signed_take_bit_eq_take_bit_shift take_bit_eq_mod)
  then show ?thesis by (simp add: wrap64_def sint_sbintrunc')
qed

subsection \<open>Decimal printing\<close>

definition digit :: "nat \<Rightarrow> char" where
  "digit n = ''0123456789'' ! n"

definition digit_val :: "char \<Rightarrow> nat" where
  "digit_val c = of_char c - 48"

fun showNat :: "nat \<Rightarrow> string" where
  "showNat n = (if n < 10 then [digit n] else showNat (n div 10) @ [digit (n mod 10)])"

declare showNat.simps [simp del]

definition readNat :: "string \<Rightarrow> nat" where
  "readNat s = foldl (\<lambda>a c. 10 * a + digit_val c) 0 s"

definition showInt :: "int \<Rightarrow> string" where
  "showInt i = (if i < 0 then CHR ''-'' # showNat (nat (- i)) else showNat (nat i))"

lemma less_10_cases:
  "(n::nat) < 10 \<Longrightarrow> n = 0 \<or> n = 1 \<or> n = 2 \<or> n = 3 \<or> n = 4 \<or> n = 5 \<or> n = 6 \<or> n = 7 \<or> n = 8 \<or> n = 9"
  by arith

lemma digit_val_digit [simp]: "n < 10 \<Longrightarrow> digit_val (digit n) = n"
  by (drule less_10_cases) (auto simp: digit_def digit_val_def)

lemma digit_in_digits: "n < 10 \<Longrightarrow> digit n \<in> set ''0123456789''"
  unfolding digit_def by (rule nth_mem) simp

lemma readNat_snoc [simp]: "readNat (s @ [c]) = 10 * readNat s + digit_val c"
  by (simp add: readNat_def)

lemma readNat_showNat [simp]: "readNat (showNat n) = n"
proof (induction n rule: showNat.induct)
  case (1 n)
  then show ?case
    by (cases "n < 10") (simp_all add: showNat.simps [of n] readNat_def [of "[_]"])
qed

lemma showNat_inject [simp]: "showNat m = showNat n \<longleftrightarrow> m = n"
  by (metis readNat_showNat)

lemma showNat_nonempty [simp]: "showNat n \<noteq> []"
  by (subst showNat.simps) simp

lemma set_showNat: "set (showNat n) \<subseteq> set ''0123456789''"
proof (induction n rule: showNat.induct)
  case (1 n)
  show ?case
  proof (cases "n < 10")
    case True
    then show ?thesis using digit_in_digits [of n] by (subst showNat.simps) simp
  next
    case False
    with "1" show ?thesis using digit_in_digits [of "n mod 10"] by (subst showNat.simps) simp
  qed
qed

lemma last_showNat: "last (showNat n) \<in> set ''0123456789''"
  using set_showNat [of n] last_in_set [OF showNat_nonempty, of n] by blast

lemma append_Cons_cut:
  "x \<notin> set xs \<Longrightarrow> x \<notin> set ys \<Longrightarrow> xs @ x # us = ys @ x # vs \<longleftrightarrow> xs = ys \<and> us = vs"
proof (induction xs arbitrary: ys)
  case Nil
  then show ?case by (cases ys) auto
next
  case (Cons a xs)
  then show ?case by (cases ys) auto
qed

subsection \<open>Go maps as association lists\<close>

text \<open>
  A Go map with string keys is an association list with distinct keys; \<open>m[k] = v\<close> is
  \<^const>\<open>AList.update\<close>, reading is \<^const>\<open>map_of\<close>. A \<open>range\<close> loop visits the keys
  in an order the runtime picks: loops with an effect take that order as an argument, a
  list \<open>ks\<close> with \<open>range_order m ks\<close>.
\<close>

definition keys :: "('k \<times> 'v) list \<Rightarrow> 'k list" where
  "keys m = map fst m"

definition range_order :: "('k \<times> 'v) list \<Rightarrow> 'k list \<Rightarrow> bool" where
  "range_order m ks \<longleftrightarrow> mset ks = mset (keys m)"

lemma range_order_refl [simp]: "range_order m (keys m)"
  by (simp add: range_order_def)

text \<open>An order for a \<open>range\<close>: \<open>ks\<close> if it visits every key once, else insertion order.\<close>

definition arrange :: "'k list \<Rightarrow> ('k \<times> 'v) list \<Rightarrow> 'k list" where
  "arrange ks m = (if mset ks = mset (keys m) then ks else keys m)"

lemma range_order_arrange [simp]: "range_order m (arrange ks m)"
  by (simp add: range_order_def arrange_def)

lemma arrange_range_order: "range_order m ks \<Longrightarrow> arrange ks m = ks"
  by (simp add: range_order_def arrange_def)

lemma range_order_set: "range_order m ks \<Longrightarrow> set ks = set (keys m)"
  unfolding range_order_def by (rule mset_eq_setD)

lemma range_order_distinct: "range_order m ks \<Longrightarrow> distinct (keys m) \<Longrightarrow> distinct ks"
  unfolding range_order_def by (metis mset_eq_imp_distinct_iff)

lemma keys_simps [simp]: "keys [] = []" "keys (kv # m) = fst kv # keys m"
  "keys (m @ m') = keys m @ keys m'"
  by (simp_all add: keys_def)

lemma length_keys [simp]: "length (keys m) = length m"
  by (simp add: keys_def)

lemma map_of_update [simp]: "map_of (AList.update k v m) = (map_of m)(k \<mapsto> v)"
  by (rule update_conv')

lemma set_keys_update [simp]: "set (keys (AList.update k v m)) = insert k (set (keys m))"
  by (simp add: keys_def dom_update)

lemma distinct_keys_update [simp]: "distinct (keys m) \<Longrightarrow> distinct (keys (AList.update k v m))"
  by (simp add: keys_def distinct_update)

lemma keys_update_in: "k \<in> set (keys m) \<Longrightarrow> keys (AList.update k v m) = keys m"
  by (simp add: keys_def update_keys)

lemma keys_update_notin: "k \<notin> set (keys m) \<Longrightarrow> keys (AList.update k v m) = keys m @ [k]"
  by (simp add: keys_def update_keys)

lemma update_notin: "k \<notin> set (keys m) \<Longrightarrow> AList.update k v m = m @ [(k, v)]"
  by (induction m) (auto simp: keys_def)

lemma map_of_None_iff [simp]: "map_of m k = None \<longleftrightarrow> k \<notin> set (keys m)"
  by (simp add: keys_def map_of_eq_None_iff)

lemma in_keys_map_of: "k \<in> set (keys m) \<longleftrightarrow> (\<exists>v. map_of m k = Some v)"
  by (metis map_of_None_iff option.exhaust option.distinct(1))

lemma map_of_in_keys: "map_of m k = Some v \<Longrightarrow> k \<in> set (keys m)"
  by (auto simp: in_keys_map_of)

end
