(* ===== verification/Go_Errors.thy ===== *)
theory Go_Errors
  imports Prelude
begin

text \<open>
  Error values. The sentinels of \<open>internal/common/defaults.go\<close>,
  \<open>internal/worker/defaults.go\<close> and \<open>internal/supervisor/defaults.go\<close>, errors built
  with \<open>fmt.Errorf\<close> (with and without \<open>%w\<close>), and errors that come out of a library
  call. \<open>errors_Is\<close> is Go's \<open>errors.Is\<close>: it follows the \<open>%w\<close> chain.
\<close>

datatype common_error =
    ErrInvalidState
  | ErrRequirementParameterMissing
  | ErrRequirementParameterInvalid
  | ErrDuplicateMapEntry

datatype worker_error = ErrTooManyRestarts | errExecutableNotFound

datatype supervisor_error = errDuplicateWorkerName

datatype error =
    CommonErr common_error
  | WorkerErr worker_error
  | SupervisorErr supervisor_error
  | Errorf string
  | Errorw error string
  | LibErr string

fun errors_Is :: "error \<Rightarrow> error \<Rightarrow> bool" where
  "errors_Is (Errorw e m) t \<longleftrightarrow> Errorw e m = t \<or> errors_Is e t"
| "errors_Is e t \<longleftrightarrow> e = t"

text \<open>\<open>errors.Is(err, t)\<close> on an optional error: \<open>nil\<close> is none of the sentinels.\<close>

definition err_is :: "error option \<Rightarrow> error \<Rightarrow> bool" where
  "err_is err t = (case err of None \<Rightarrow> False | Some e \<Rightarrow> errors_Is e t)"

abbreviation TooManyRestarts :: error where
  "TooManyRestarts \<equiv> WorkerErr ErrTooManyRestarts"

text \<open>The log labels of \<open>internal/common/defaults.go\<close>.\<close>

definition WorkerIdLogLabel :: string where
  "WorkerIdLogLabel = ''worker_id''"

definition WorkerPoolLogLabel :: string where
  "WorkerPoolLogLabel = ''pool''"

lemma err_is_simps [simp]:
  "\<not> err_is None t"
  "err_is (Some e) t = errors_Is e t"
  by (simp_all add: err_is_def)

lemma errors_Is_refl [simp]: "errors_Is e e"
  by (cases e) auto

end
