(* ===== verification/Go_Float.thy ===== *)
theory Go_Float
  imports Complex_Main Prelude
begin

text \<open>
  The floating-point arithmetic the code uses: \<open>float32\<close> in
  \<open>WorkerPool.IsHealthy\<close>, \<open>float64\<close> in \<open>newTimeLimiter\<close> and in
  \<open>Duration.Seconds\<close>. A finite float is the rational it denotes; an operation computes
  exactly and rounds to nearest, ties to even, with \<open>p\<close> significand bits
  (\<open>fl 24\<close>, \<open>fl 53\<close>). Overflow to infinity, subnormals and NaN are outside the
  ranges the code reaches and are not represented; where a division by zero is possible the
  model of the caller has a branch for it.
\<close>

subsection \<open>Definitions\<close>

definition p2 :: "int \<Rightarrow> rat" where
  "p2 e = (if 0 \<le> e then 2 ^ nat e else 1 / 2 ^ nat (- e))"

function bits :: "int \<Rightarrow> nat" where
  "bits n = (if n \<le> 0 then 0 else Suc (bits (n div 2)))"
  by pat_completeness auto
termination
  by (relation "measure nat") auto

declare bits.simps [simp del]

definition ilog2 :: "rat \<Rightarrow> int" where
  "ilog2 x = (let ab = quotient_of x; k = int (bits (fst ab)) - int (bits (snd ab))
              in if p2 k \<le> x then k else k - 1)"

definition round_even :: "rat \<Rightarrow> int" where
  "round_even m =
     (let n = \<lfloor>m\<rfloor>; f = m - of_int n
      in if f < 1 / 2 then n else if 1 / 2 < f then n + 1 else if even n then n else n + 1)"

definition fl :: "nat \<Rightarrow> rat \<Rightarrow> rat" where
  "fl p x = (if x = 0 then 0
             else let e = ilog2 \<bar>x\<bar> - int (p - 1) in of_int (round_even (x / p2 e)) * p2 e)"

text \<open>
  Go's conversion of a float to \<open>int\<close> truncates; out of range it gives the smallest
  integer on amd64.
\<close>

definition int_of_float :: "rat \<Rightarrow> int" where
  "int_of_float x =
     (if \<bar>x\<bar> < 2 ^ 63 then (if 0 \<le> x then \<lfloor>x\<rfloor> else \<lceil>x\<rceil>) else - (2 ^ 63))"

subsection \<open>Powers of two\<close>

lemma p2_pos [simp]: "0 < p2 e"
  by (simp add: p2_def)

lemma p2_nonzero [simp]: "p2 e \<noteq> 0"
  using p2_pos [of e] by linarith

lemma p2_nonneg [simp]: "0 \<le> p2 e"
  using p2_pos [of e] by linarith

lemma p2_powi: "p2 e = 2 powi e"
  by (simp add: p2_def power_int_def inverse_eq_divide power_one_over)

lemma p2_add: "p2 (a + b) = p2 a * p2 b"
  by (simp add: p2_powi power_int_add)

lemma p2_Suc: "p2 (e + 1) = 2 * p2 e"
  by (simp add: p2_add p2_def [of 1])

lemma p2_of_nat [simp]: "p2 (int n) = 2 ^ n"
  by (simp add: p2_def)

lemma p2_mono: "a \<le> b \<Longrightarrow> p2 a \<le> p2 b"
  by (simp add: p2_powi power_int_increasing)

lemma p2_minus: "p2 (a - b) = p2 a / p2 b"
  by (simp add: p2_powi power_int_diff)

lemma p2_less_cancel: "p2 a < p2 b \<Longrightarrow> a < b"
  using p2_mono [of b a] by linarith

subsection \<open>The exponent\<close>

lemma bits_bounds: "0 < n \<Longrightarrow> 2 ^ (bits n - 1) \<le> n \<and> n < 2 ^ bits n \<and> 0 < bits n"
proof (induction n rule: bits.induct)
  case (1 n)
  show ?case
  proof (cases "n = 1")
    case True
    then show ?thesis by (simp add: bits.simps)
  next
    case False
    with "1.prems" have h: "0 < n div 2" "\<not> n \<le> 0" by auto
    with "1.IH" have IH: "2 ^ (bits (n div 2) - 1) \<le> n div 2" "n div 2 < 2 ^ bits (n div 2)"
      "0 < bits (n div 2)" by auto
    define k where "k = bits (n div 2) - 1"
    have k: "bits (n div 2) = Suc k" using IH(3) by (simp add: k_def)
    have "bits n = Suc (Suc k)" using h k by (simp add: bits.simps [of n])
    moreover have "2 * 2 ^ k \<le> n" "n < 4 * 2 ^ k" using IH(1,2) k by simp_all
    ultimately show ?thesis by simp
  qed
qed

lemma ilog2_bounds:
  assumes "0 < x"
  shows "p2 (ilog2 x) \<le> x" and "x < p2 (ilog2 x + 1)"
proof -
  obtain a b where q: "quotient_of x = (a, b)" by fastforce
  have x: "x = of_int a / of_int b" by (rule quotient_of_div [OF q])
  have b: "0 < b" by (rule quotient_of_denom_pos [OF q])
  with x assms have a: "0 < a" by (simp add: zero_less_divide_iff)
  define k where "k = int (bits a) - int (bits b)"
  have Bm: "2 ^ (bits a - 1) \<le> a" "a < 2 ^ bits a" "0 < bits a"
    using bits_bounds [OF a] by auto
  have Bn: "2 ^ (bits b - 1) \<le> b" "b < 2 ^ bits b" "0 < bits b"
    using bits_bounds [OF b] by auto
  have up: "(of_int a :: rat) < 2 ^ bits a" "(of_int b :: rat) < 2 ^ bits b"
    using Bm(2) Bn(2) by (metis of_int_less_iff of_int_numeral of_int_power)+
  have lo: "(2 :: rat) ^ (bits a - 1) \<le> of_int a" "(2 :: rat) ^ (bits b - 1) \<le> of_int b"
    using Bm(1) Bn(1) by (metis of_int_le_iff of_int_numeral of_int_power)+
  have pm: "p2 (int (bits a) - 1) = 2 ^ (bits a - 1)" "p2 (int (bits b) - 1) = 2 ^ (bits b - 1)"
    using Bm(3) Bn(3) p2_of_nat [of "bits a - 1"] p2_of_nat [of "bits b - 1"]
    by (simp_all add: of_nat_diff)
  have "k - 1 = (int (bits a) - 1) - int (bits b)" by (simp add: k_def)
  then have "p2 (k - 1) = 2 ^ (bits a - 1) / 2 ^ bits b"
    by (simp only: p2_minus [of "int (bits a) - 1"] pm p2_of_nat)
  also have "\<dots> < x" unfolding x
    using lo(1) up(2) a b by (intro frac_less2) auto
  finally have lower: "p2 (k - 1) \<le> x" by simp
  have "x < 2 ^ bits a / 2 ^ (bits b - 1)" unfolding x
    using up(1) lo(2) a by (intro frac_less) auto
  also have "\<dots> = p2 (int (bits a) - (int (bits b) - 1))"
    by (simp only: p2_minus [of "int (bits a)"] pm p2_of_nat)
  also have "int (bits a) - (int (bits b) - 1) = k + 1" by (simp add: k_def)
  finally have upper: "x < p2 (k + 1)" .
  have il: "ilog2 x = (if p2 k \<le> x then k else k - 1)"
    by (simp add: ilog2_def q Let_def k_def)
  show "p2 (ilog2 x) \<le> x" "x < p2 (ilog2 x + 1)"
    using lower upper by (auto simp: il)
qed

subsection \<open>Rounding\<close>

lemma round_even_error: "\<bar>of_int (round_even m) - m\<bar> \<le> 1 / 2"
proof -
  have "of_int \<lfloor>m\<rfloor> \<le> m" "m < of_int \<lfloor>m\<rfloor> + 1" by linarith+
  then show ?thesis by (simp add: round_even_def Let_def abs_if) linarith
qed

lemma round_even_of_int [simp]: "round_even (of_int n) = n"
  by (simp add: round_even_def)

lemma round_even_le: "m \<le> of_int n \<Longrightarrow> round_even m \<le> n"
proof -
  assume "m \<le> of_int n"
  then have "of_int (round_even m) \<le> of_int n + (1 / 2 :: rat)"
    using round_even_error [of m] by linarith
  then show ?thesis by linarith
qed

lemma round_even_ge: "of_int n \<le> m \<Longrightarrow> n \<le> round_even m"
proof -
  assume "of_int n \<le> m"
  then have "of_int n - (1 / 2 :: rat) \<le> of_int (round_even m)"
    using round_even_error [of m] by linarith
  then show ?thesis by linarith
qed

lemma fl_0 [simp]: "fl p 0 = 0"
  by (simp add: fl_def)

lemma fl_error:
  assumes "0 < p"
  shows "\<bar>fl p x - x\<bar> \<le> \<bar>x\<bar> / 2 ^ p"
proof (cases "x = 0")
  case False
  define e where "e = ilog2 \<bar>x\<bar> - int (p - 1)"
  have flx: "fl p x = of_int (round_even (x / p2 e)) * p2 e"
    using False by (simp add: fl_def e_def Let_def)
  have "fl p x - x = (of_int (round_even (x / p2 e)) - x / p2 e) * p2 e"
    by (simp add: flx algebra_simps)
  then have "\<bar>fl p x - x\<bar> = \<bar>of_int (round_even (x / p2 e)) - x / p2 e\<bar> * p2 e"
    by (simp add: abs_mult)
  also have "\<dots> \<le> 1 / 2 * p2 e"
    by (rule mult_right_mono [OF round_even_error]) simp
  also have "\<dots> = p2 (ilog2 \<bar>x\<bar>) / 2 ^ p"
    using assms by (cases p) (simp_all add: e_def p2_minus)
  also have "\<dots> \<le> \<bar>x\<bar> / 2 ^ p"
    using ilog2_bounds(1) [of "\<bar>x\<bar>"] False by (simp add: divide_right_mono)
  finally show ?thesis .
qed simp

lemma p2_nonpos_grid: "e \<le> 0 \<Longrightarrow> of_int n / p2 e = (of_int (n * 2 ^ nat (- e)) :: rat)"
  by (simp add: p2_def)

lemma p2_grid_scale: "e \<le> 0 \<Longrightarrow> of_int (n * 2 ^ nat (- e)) * p2 e = (of_int n :: rat)"
  by (simp only: p2_nonpos_grid [symmetric]) simp

lemma fl_le_int:
  assumes "x \<le> of_int n" and "0 < x" and "n < 2 ^ p" and "0 < p"
  shows "fl p x \<le> of_int n"
proof -
  define e where "e = ilog2 x - int (p - 1)"
  have flx: "fl p x = of_int (round_even (x / p2 e)) * p2 e"
    using assms by (simp add: fl_def e_def Let_def)
  have "p2 (ilog2 x) \<le> of_int n" using ilog2_bounds(1) [OF assms(2)] assms(1) by simp
  also have "(of_int n :: rat) < of_int (2 ^ p)" using assms(3) by (simp only: of_int_less_iff)
  finally have "p2 (ilog2 x) < p2 (int p)" by simp
  from p2_less_cancel [OF this] have "e \<le> 0" using assms(4) by (simp add: e_def)
  then have "x / p2 e \<le> of_int (n * 2 ^ nat (- e))"
    unfolding p2_nonpos_grid [OF \<open>e \<le> 0\<close>, symmetric]
    by (intro divide_right_mono assms(1)) simp
  then have "of_int (round_even (x / p2 e)) \<le> (of_int (n * 2 ^ nat (- e)) :: rat)"
    using round_even_le of_int_le_iff by blast
  then have "fl p x \<le> of_int (n * 2 ^ nat (- e)) * p2 e"
    unfolding flx by (rule mult_right_mono) simp
  also have "\<dots> = of_int n" by (rule p2_grid_scale [OF \<open>e \<le> 0\<close>])
  finally show ?thesis .
qed

lemma fl_ge_int:
  assumes "of_int n \<le> x" and "0 < x" and "n < 2 ^ p" and "0 < p"
  shows "of_int n \<le> fl p x"
proof -
  define e where "e = ilog2 x - int (p - 1)"
  have flx: "fl p x = of_int (round_even (x / p2 e)) * p2 e"
    using assms by (simp add: fl_def e_def Let_def)
  have key: "of_int m * p2 e \<le> fl p x" if "of_int m \<le> x / p2 e" for m
    unfolding flx using round_even_ge [OF that] by (intro mult_right_mono) simp_all
  show ?thesis
  proof (cases "e \<le> 0")
    case True
    then have "of_int (n * 2 ^ nat (- e)) \<le> x / p2 e"
      unfolding p2_nonpos_grid [OF True, symmetric]
      by (intro divide_right_mono assms(1)) simp
    from key [OF this] show ?thesis by (simp only: p2_grid_scale [OF True])
  next
    case False
    have "of_int (2 ^ (p - 1)) \<le> x / p2 e"
      using ilog2_bounds(1) [OF assms(2)]
      by (simp add: e_def p2_minus pos_le_divide_eq)
    from key [OF this] have "2 ^ (p - 1) * p2 e \<le> fl p x" by simp
    moreover have "2 * 2 ^ (p - 1) \<le> 2 ^ (p - 1) * p2 e"
      using False p2_mono [of 1 e] by (simp add: p2_def [of 1])
    moreover have "(2 :: rat) * 2 ^ (p - 1) = of_int (2 ^ p)"
      using assms(4) by (cases p) simp_all
    moreover have "(of_int n :: rat) \<le> of_int (2 ^ p)" using assms(3) by (simp only: of_int_le_iff)
    ultimately show ?thesis by linarith
  qed
qed

lemma fl_of_int:
  assumes "0 \<le> n" and "n < 2 ^ p" and "0 < p"
  shows "fl p (of_int n) = of_int n"
proof (cases "n = 0")
  case False
  with assms show ?thesis by (intro antisym fl_le_int fl_ge_int) auto
qed simp

lemma fl_nonneg: "0 \<le> x \<Longrightarrow> 0 < p \<Longrightarrow> 0 \<le> fl p x"
  using fl_ge_int [of 0 x p] by (cases "x = 0") auto

end
