(* ===== verification/Server_Config.thy ===== *)
theory Server_Config
  imports Go_Errors
begin

text \<open>
  \<open>internal/server/config.go\<close>: the proxy-mode section of a pool's configuration, its
  defaults and its validation. \<open>time.Duration\<close> is an \<^typ>\<open>int\<close> (nanoseconds),
  \<open>uint64\<close> a \<^typ>\<open>64 word\<close>; a nil pointer is \<^const>\<open>None\<close>. The parser of
  \<open>text/template\<close> is the argument \<open>parse\<close>: the error it returns on a template text.
\<close>

type_synonym duration = int
type_synonym uint64 = "64 word"

definition Second :: duration where "Second = 10 ^ 9"

definition Millisecond :: duration where "Millisecond = 10 ^ 6"

definition proxyDefaultSignalTimeoutSec :: int where "proxyDefaultSignalTimeoutSec = 10"

definition lbAlgorithmRoundRobin :: string where "lbAlgorithmRoundRobin = ''ROUND_ROBIN''"

definition lbAlgorithmLeastRequest :: string where "lbAlgorithmLeastRequest = ''LEAST_REQUEST''"

definition lbAlgorithmRandom :: string where "lbAlgorithmRandom = ''RANDOM''"

definition defaultLoadBalanceAlgorithm :: string where
  "defaultLoadBalanceAlgorithm = lbAlgorithmRoundRobin"

record PortArgConfig =
  pa_Name :: string
  pa_StartPort :: uint64
  pa_ValueTemplate :: string

record ServerConfig =
  PortArg :: PortArgConfig
  sc_SignalTimeout :: duration
  HealthCheckPath :: string
  LoadBalanceAlgorithm :: "string option"
  ProxyConfigPath :: string
  ProxyAdminPort :: int
  ProxyListenerPort :: int

text \<open>
  \<open>strings.ToUpper\<close> on UTF-8 bytes. Besides the ASCII letters, two runes have an ASCII
  upper case: dotless i (bytes C4 B1) and long s (bytes C5 BF). Other non-ASCII bytes are
  left as they are, which is exact for every comparison with an ASCII constant.
\<close>

definition upper_char :: "char \<Rightarrow> char" where
  "upper_char c = (if 97 \<le> (of_char c :: nat) \<and> (of_char c :: nat) \<le> 122
                   then char_of ((of_char c :: nat) - 32) else c)"

fun ToUpper :: "string \<Rightarrow> string" where
  "ToUpper [] = []"
| "ToUpper (c # cs) =
     (case cs of
        [] \<Rightarrow> [upper_char c]
      | d # ds \<Rightarrow>
          if c = CHR 0xC4 \<and> d = CHR 0xB1 then CHR ''I'' # ToUpper ds
          else if c = CHR 0xC5 \<and> d = CHR 0xBF then CHR ''S'' # ToUpper ds
          else upper_char c # ToUpper cs)"

definition SignalTimeoutOrDefault_s :: "ServerConfig option \<Rightarrow> duration" where
  "SignalTimeoutOrDefault_s s =
     (case s of
        None \<Rightarrow> proxyDefaultSignalTimeoutSec * Second
      | Some c \<Rightarrow> if sc_SignalTimeout c = 0 then proxyDefaultSignalTimeoutSec * Second
                  else sc_SignalTimeout c)"

definition LoadBalancerAlgorithmOrDefault :: "ServerConfig \<Rightarrow> string" where
  "LoadBalancerAlgorithmOrDefault s =
     (case LoadBalanceAlgorithm s of
        None \<Rightarrow> defaultLoadBalanceAlgorithm
      | Some a \<Rightarrow> if a = '''' then defaultLoadBalanceAlgorithm else a)"

definition ProxyPathPrefixOrDefault :: "ServerConfig \<Rightarrow> string" where
  "ProxyPathPrefixOrDefault s =
     (if ProxyConfigPath s = '''' then ''./envoy'' else ProxyConfigPath s)"

definition ProxyListenerPortOrDefault :: "ServerConfig \<Rightarrow> uint64" where
  "ProxyListenerPortOrDefault s =
     (if ProxyListenerPort s \<le> 0 then 10000 else word_of_int (ProxyListenerPort s))"

definition supportedLbAlgorithms :: "string set" where
  "supportedLbAlgorithms = {lbAlgorithmRoundRobin, lbAlgorithmLeastRequest, lbAlgorithmRandom}"

definition IsValid_s :: "(string \<Rightarrow> error option) \<Rightarrow> ServerConfig option \<Rightarrow> error option" where
  "IsValid_s parse so =
     (case so of
        None \<Rightarrow> None
      | Some s \<Rightarrow>
          if pa_Name (PortArg s) = '''' then
            Some (Errorw (CommonErr ErrRequirementParameterMissing) '': server config name'')
          else if pa_StartPort (PortArg s) \<le> 0 then
            Some (Errorw (CommonErr ErrRequirementParameterInvalid) '': server config start_port'')
          else if pa_ValueTemplate (PortArg s) = '''' then
            Some (Errorw (CommonErr ErrRequirementParameterMissing) '': server config value_template'')
          else
            let lb_err =
              (case LoadBalanceAlgorithm s of
                 None \<Rightarrow> None
               | Some a \<Rightarrow>
                   let lb = ToUpper a
                   in if lb \<notin> supportedLbAlgorithms
                      then Some (Errorw (CommonErr ErrRequirementParameterInvalid)
                             ('': load_balancer_algorithm value is not supported '' @ lb))
                      else None)
            in case lb_err of
                 Some e \<Rightarrow> Some e
               | None \<Rightarrow>
                   (case parse (pa_ValueTemplate (PortArg s)) of
                      Some e \<Rightarrow> Some e
                    | None \<Rightarrow>
                        if HealthCheckPath s = '''' then
                          Some (Errorw (CommonErr ErrRequirementParameterMissing)
                            '': server config health_check_path'')
                        else if ProxyAdminPort s < 0 then Some (Errorf ''invalid proxy admin port'')
                        else None))"

subsection \<open>What a valid server section gives\<close>

lemma IsValid_s_None_iff:
  "IsValid_s parse (Some s) = None \<longleftrightarrow>
     pa_Name (PortArg s) \<noteq> '''' \<and> pa_StartPort (PortArg s) \<noteq> 0 \<and>
     pa_ValueTemplate (PortArg s) \<noteq> '''' \<and>
     (\<forall>a. LoadBalanceAlgorithm s = Some a \<longrightarrow> ToUpper a \<in> supportedLbAlgorithms) \<and>
     parse (pa_ValueTemplate (PortArg s)) = None \<and> HealthCheckPath s \<noteq> '''' \<and> 0 \<le> ProxyAdminPort s"
  by (auto simp: IsValid_s_def Let_def not_less split: option.splits)

lemma ToUpper_Nil_iff: "ToUpper a = [] \<longleftrightarrow> a = []"
  by (cases a) (auto split: list.splits)

end
