(* ===== verification/Go_Lib.thy ===== *)
theory Go_Lib
  imports Go_Errors Go_Float Server_Config
begin

text \<open>
  What the code uses of the standard library: \<open>path.Join\<close>, \<open>Duration.Seconds\<close> with
  \<open>math.Ceil\<close> and \<open>fmt.Sprint\<close>, and, as the record \<open>golib\<close>, the calls whose
  answer comes from outside the program: the file system, \<open>exec.LookPath\<close>, the HTTP
  client, the random source, and the \<open>html/template\<close> engine on a template text the user
  writes. Definitions that make such a call take the record as an argument.
\<close>

record golib =
  LookPath :: "string \<Rightarrow> bool"
  TmplParse :: "string \<Rightarrow> error option"
  TmplExec :: "string \<Rightarrow> int \<Rightarrow> error + string"
  Intn :: "int \<Rightarrow> int"
  FsMissing :: "string \<Rightarrow> bool"
  FsMkdir :: "string \<Rightarrow> error option"
  FsOpen :: "string \<Rightarrow> error option"
  FsWrite :: "string \<Rightarrow> error option"
  HttpPost :: "string \<Rightarrow> error option"

subsection \<open>Paths\<close>

text \<open>\<open>path.Clean\<close>: the elements between slashes, with \<open>.\<close> and \<open>..\<close> resolved.\<close>

fun split_on :: "char \<Rightarrow> string \<Rightarrow> string list" where
  "split_on c [] = [[]]"
| "split_on c (x # xs) =
     (if x = c then [] # split_on c xs
      else case split_on c xs of [] \<Rightarrow> [[x]] | w # ws \<Rightarrow> (x # w) # ws)"

fun join_with :: "string \<Rightarrow> string list \<Rightarrow> string" where
  "join_with s [] = []"
| "join_with s [x] = x"
| "join_with s (x # y # xs) = x @ s @ join_with s (y # xs)"

fun clean_elems :: "bool \<Rightarrow> string list \<Rightarrow> string list \<Rightarrow> string list" where
  "clean_elems rooted st [] = rev st"
| "clean_elems rooted st (x # xs) =
     (if x = '''' \<or> x = ''.'' then clean_elems rooted st xs
      else if x = ''..'' then
        (if st \<noteq> [] \<and> hd st \<noteq> ''..'' then clean_elems rooted (tl st) xs
         else if rooted then clean_elems rooted st xs
         else clean_elems rooted (x # st) xs)
      else clean_elems rooted (x # st) xs)"

definition path_Clean :: "string \<Rightarrow> string" where
  "path_Clean p =
     (let rooted = (p \<noteq> [] \<and> hd p = CHR ''/'');
          s = join_with ''/'' (clean_elems rooted [] (split_on (CHR ''/'') p))
      in if rooted then CHR ''/'' # s else if s = [] then ''.'' else s)"

definition path_Join :: "string list \<Rightarrow> string" where
  "path_Join es =
     (let ne = filter (\<lambda>e. e \<noteq> []) es
      in if ne = [] then [] else path_Clean (join_with ''/'' ne))"

subsection \<open>Seconds, rounded up and printed\<close>

text \<open>\<open>Duration.Seconds\<close>: whole seconds plus the remaining nanoseconds over \<open>1e9\<close>, in float64.\<close>

definition Seconds :: "duration \<Rightarrow> rat" where
  "Seconds d =
     (let sec = sgn d * (\<bar>d\<bar> div Second); nsec = d - sec * Second
      in fl 53 (fl 53 (of_int sec) + fl 53 (of_int nsec / of_int Second)))"

text \<open>
  \<open>fmt.Sprint(math.Ceil(x))\<close> for a float below \<open>1e21\<close> in magnitude: the integer in
  decimal; a value in \<open>(-1, 0)\<close> rounds up to negative zero, which prints with its sign.
\<close>

definition sprint_ceil :: "rat \<Rightarrow> string" where
  "sprint_ceil x = (if - 1 < x \<and> x < 0 then ''-0'' else showInt \<lceil>x\<rceil>)"

lemma join_clean_default: "path_Join [''./envoy'', ''clusters.yaml''] = ''envoy/clusters.yaml''"
  by code_simp

end
