(* ===== verification/Worker_Types.thy ===== *)
theory Worker_Types
  imports Server_Config
begin

text \<open>
  \<open>internal/worker/types.go\<close> and \<open>internal/worker/defaults.go\<close>: the statuses and
  events workers and supervisor exchange, and the static start-up information of a process.
  Of the \<open>Status\<close> and \<open>Options\<close> structs of go-cmd the fields the code reads are
  kept.
\<close>

datatype ProcessStatus = PrepareWorkers | Running | Terminating | Terminated

text \<open>The value \<open>%d\<close> prints for a status.\<close>

fun ProcessStatus_int :: "ProcessStatus \<Rightarrow> int" where
  "ProcessStatus_int PrepareWorkers = 0"
| "ProcessStatus_int Running = 1"
| "ProcessStatus_int Terminating = 2"
| "ProcessStatus_int Terminated = 3"

datatype EventType = ProcessEnd | ProcessNeedsTermination | ProcessExceededLimit | ProcessNeedsInterrupt

datatype EventReason =
    ProcessExited
  | ProcessInterruptedBySupervisor
  | TimeLimitExceeded
  | ProcessIgnoresInterruptSignal
  | ProcessHasNotStartedYet

record cmdStatus =
  cs_Cmd :: string
  PID :: int
  Complete :: bool
  Exit :: int
  StopTs :: int

record cmdOptions =
  Buffered :: bool
  Streaming :: bool

record SupervisorEvent =
  ev_Type :: EventType
  ev_Reason :: EventReason
  ev_Id :: string
  ev_Pool :: string
  ev_Cmd :: "cmdStatus option"

text \<open>A struct literal that leaves \<open>EventReason\<close> out has its zero value, \<open>ProcessExited\<close>.\<close>

definition mk_event :: "EventType \<Rightarrow> EventReason \<Rightarrow> string \<Rightarrow> string \<Rightarrow> cmdStatus option \<Rightarrow> SupervisorEvent" where
  "mk_event t r i p c = \<lparr>ev_Type = t, ev_Reason = r, ev_Id = i, ev_Pool = p, ev_Cmd = c\<rparr>"

lemma mk_event_sel [simp]:
  "ev_Type (mk_event t r i p c) = t" "ev_Reason (mk_event t r i p c) = r"
  "ev_Id (mk_event t r i p c) = i" "ev_Pool (mk_event t r i p c) = p"
  "ev_Cmd (mk_event t r i p c) = c"
  by (simp_all add: mk_event_def)

record processStartupInfo =
  si_name :: string
  si_args :: "string list"
  signalTimeout :: duration
  maxRestarts :: int

definition DefaultSignalTimeoutSec :: int where "DefaultSignalTimeoutSec = 10"

definition DefaultMaxRestarts :: int where "DefaultMaxRestarts = MaxInt"

end
