(* ===== verification/Worker_Config.thy ===== *)
theory Worker_Config
  imports Worker_Types Complex_Main
begin

text \<open>
  \<open>internal/worker/config.go\<close>: the configuration of one worker pool, its defaults and
  its validation. A \<open>float64\<close> field is the rational it denotes.
\<close>

record LimitsConfig =
  lim_Memory :: int
  Lifespan :: duration
  JitterRatio :: rat

record WorkerConfig =
  wc_Name :: string
  wc_Replicas :: int
  wc_Exec :: string
  wc_Args :: "string list"
  wc_SignalTimeout :: duration
  wc_MaxRestarts :: int
  wc_Limits :: "LimitsConfig option"
  wc_Server :: "ServerConfig option"
  wc_StartupWaitTime :: duration
  wc_DesiredHealthyPercentage :: int

definition SignalTimeoutOrDefault :: "WorkerConfig option \<Rightarrow> duration" where
  "SignalTimeoutOrDefault w =
     (case w of
        None \<Rightarrow> DefaultSignalTimeoutSec * Second
      | Some c \<Rightarrow> if wc_SignalTimeout c = 0 then DefaultSignalTimeoutSec * Second
                  else wc_SignalTimeout c)"

definition MaxRestartsOrDefault :: "WorkerConfig option \<Rightarrow> int" where
  "MaxRestartsOrDefault w =
     (case w of
        None \<Rightarrow> DefaultMaxRestarts
      | Some c \<Rightarrow> if wc_MaxRestarts c < 0 then DefaultMaxRestarts else wc_MaxRestarts c)"

definition IsValid_w :: "(string \<Rightarrow> error option) \<Rightarrow> WorkerConfig \<Rightarrow> error option" where
  "IsValid_w parse w =
     (if wc_Name w = '''' then Some (Errorf ''Worker name must be set'')
      else if wc_Replicas w \<le> 0 then Some (Errorf ''Worker replicas can not be less or equal to 0'')
      else if wc_Exec w = '''' then Some (Errorf ''Worker executable name must be set'')
      else case IsValid_s parse (wc_Server w) of Some e \<Rightarrow> Some e | None \<Rightarrow> None)"

lemma MaxRestartsOrDefault_nonneg [simp]: "0 \<le> MaxRestartsOrDefault (Some c)"
  by (simp add: MaxRestartsOrDefault_def DefaultMaxRestarts_def MaxInt_def)

lemma SignalTimeoutOrDefault_nonzero [simp]: "SignalTimeoutOrDefault w \<noteq> 0"
  by (simp add: SignalTimeoutOrDefault_def DefaultSignalTimeoutSec_def Second_def split: option.split)

lemma IsValid_w_None_iff:
  "IsValid_w parse w = None \<longleftrightarrow>
     wc_Name w \<noteq> '''' \<and> 0 < wc_Replicas w \<and> wc_Exec w \<noteq> '''' \<and> IsValid_s parse (wc_Server w) = None"
  by (auto simp: IsValid_w_def split: option.splits)

end
