(* ===== verification/Metrics.thy ===== *)
theory Metrics
  imports Prelude
begin

text \<open>
  The Prometheus state the program keeps: the gauges of \<open>metrics/prometheus.go\<close> and
  the counters of \<open>internal/worker/prometheus.go\<close>. A vector is a Go map from label
  values to the child's value; \<open>With\<close> creates a child at 0 on first use. Values are
  incremented and decremented by whole numbers only, so they are integers here (a float64
  holds them exactly up to \<open>2 ^ 53\<close>). The checks of \<open>metrics/test_utils.go\<close> are
  boolean functions of this state.
\<close>

type_synonym 'l vec = "('l \<times> int) list"

text \<open>Worker state labels.\<close>

definition stateRunning :: string where "stateRunning = ''running''"

definition stateTerminated :: string where "stateTerminated = ''terminated''"

record metrics =
  workersStateGauge :: "(string \<times> string) vec"
  supervisorSigtermGauge :: int
  supervisorProxyMode :: int
  restartsCounter :: "(string \<times> string) vec"
  sigkillCounter :: "string vec"
  limitCounter :: "(string \<times> string) vec"
  failedToParseLogsCounter :: int

definition no_metrics :: metrics where
  "no_metrics = \<lparr>workersStateGauge = [], supervisorSigtermGauge = 0, supervisorProxyMode = 0,
     restartsCounter = [], sigkillCounter = [], limitCounter = [], failedToParseLogsCounter = 0\<rparr>"

definition vec_get :: "'l vec \<Rightarrow> 'l \<Rightarrow> int" where
  "vec_get v l = (case map_of v l of None \<Rightarrow> 0 | Some n \<Rightarrow> n)"

definition vec_with :: "'l \<Rightarrow> 'l vec \<Rightarrow> 'l vec" where
  "vec_with l v = AList.update l (vec_get v l) v"

definition vec_add :: "'l \<Rightarrow> int \<Rightarrow> 'l vec \<Rightarrow> 'l vec" where
  "vec_add l n v = AList.update l (vec_get v l + n) v"

definition statsLabels :: "string \<Rightarrow> string \<Rightarrow> string \<times> string" where
  "statsLabels pool state = (pool, state)"

definition AddRunningStats :: "string \<Rightarrow> int \<Rightarrow> metrics \<Rightarrow> metrics" where
  "AddRunningStats pool number m =
     m\<lparr>workersStateGauge := vec_add (statsLabels pool stateRunning) number (workersStateGauge m)\<rparr>"

definition IncrementRunningDecrementTerminated :: "string \<Rightarrow> metrics \<Rightarrow> metrics" where
  "IncrementRunningDecrementTerminated pool m =
     m\<lparr>workersStateGauge :=
         vec_add (statsLabels pool stateRunning) 1
           (vec_add (statsLabels pool stateTerminated) (- 1) (workersStateGauge m))\<rparr>"

definition DecrementRunningIncrementTerminated :: "string \<Rightarrow> metrics \<Rightarrow> metrics" where
  "DecrementRunningIncrementTerminated pool m =
     m\<lparr>workersStateGauge :=
         vec_add (statsLabels pool stateTerminated) 1
           (vec_add (statsLabels pool stateRunning) (- 1) (workersStateGauge m))\<rparr>"

definition SetSigtermGauge :: "metrics \<Rightarrow> metrics" where
  "SetSigtermGauge m = m\<lparr>supervisorSigtermGauge := 1\<rparr>"

definition SetProxyModeGauge :: "metrics \<Rightarrow> metrics" where
  "SetProxyModeGauge m = m\<lparr>supervisorProxyMode := 1\<rparr>"

definition gauge :: "metrics \<Rightarrow> string \<Rightarrow> string \<Rightarrow> int" where
  "gauge m pool state = vec_get (workersStateGauge m) (statsLabels pool state)"

subsection \<open>The checks of the test suite\<close>

definition ValidateSupervisorEndsStats :: "string \<Rightarrow> int \<Rightarrow> metrics \<Rightarrow> bool" where
  "ValidateSupervisorEndsStats poolName replicas m \<longleftrightarrow>
     length (workersStateGauge m) = 2 \<and>
     gauge m poolName stateTerminated = replicas \<and>
     gauge m poolName stateRunning = 0"

definition ValidateSupervisorStartsStats :: "string \<Rightarrow> int \<Rightarrow> metrics \<Rightarrow> bool" where
  "ValidateSupervisorStartsStats poolName replicas m \<longleftrightarrow>
     length (workersStateGauge m) = 1 \<and> gauge m poolName stateRunning = replicas"

definition ResetWorkerGauge :: "metrics \<Rightarrow> metrics" where
  "ResetWorkerGauge m = m\<lparr>workersStateGauge := []\<rparr>"

subsection \<open>Lemmas\<close>

lemma vec_get_add [simp]: "vec_get (vec_add l n v) l' = (if l' = l then vec_get v l + n else vec_get v l')"
  by (simp add: vec_get_def vec_add_def)

lemma vec_get_with [simp]: "vec_get (vec_with l v) l' = vec_get v l'"
  by (simp add: vec_get_def vec_with_def)

lemma vec_get_Nil [simp]: "vec_get [] l = 0"
  by (simp add: vec_get_def)

lemma state_labels_distinct [simp]: "stateRunning \<noteq> stateTerminated" "stateTerminated \<noteq> stateRunning"
  by (simp_all add: stateRunning_def stateTerminated_def)

lemma gauge_AddRunningStats [simp]:
  "gauge (AddRunningStats p n m) q s =
     (if q = p \<and> s = stateRunning then gauge m p stateRunning + n else gauge m q s)"
  by (auto simp: gauge_def AddRunningStats_def statsLabels_def)

lemma gauge_DecrementRunning [simp]:
  "gauge (DecrementRunningIncrementTerminated p m) q s =
     (if q = p \<and> s = stateRunning then gauge m p s - 1
      else if q = p \<and> s = stateTerminated then gauge m p s + 1 else gauge m q s)"
  by (auto simp: gauge_def DecrementRunningIncrementTerminated_def statsLabels_def)

lemma gauge_IncrementRunning [simp]:
  "gauge (IncrementRunningDecrementTerminated p m) q s =
     (if q = p \<and> s = stateRunning then gauge m p s + 1
      else if q = p \<and> s = stateTerminated then gauge m p s - 1 else gauge m q s)"
  by (auto simp: gauge_def IncrementRunningDecrementTerminated_def statsLabels_def)

lemma gauge_sigterm [simp]: "gauge (SetSigtermGauge m) = gauge m"
  by (simp add: gauge_def SetSigtermGauge_def fun_eq_iff)

lemma gauge_proxyMode [simp]: "gauge (SetProxyModeGauge m) = gauge m"
  by (simp add: gauge_def SetProxyModeGauge_def fun_eq_iff)

lemma gauge_other_updates [simp]:
  "gauge (m\<lparr>restartsCounter := r\<rparr>) = gauge m"
  "gauge (m\<lparr>sigkillCounter := k\<rparr>) = gauge m"
  "gauge (m\<lparr>limitCounter := l\<rparr>) = gauge m"
  "gauge (m\<lparr>failedToParseLogsCounter := f\<rparr>) = gauge m"
  by (simp_all add: gauge_def fun_eq_iff)

lemma gauge_no_metrics [simp]: "gauge no_metrics p s = 0"
  by (simp add: gauge_def no_metrics_def)

end
