(* ===== verification/Time_Limiter.thy ===== *)
theory Time_Limiter
  imports Worker_Config Go_Float Metrics
begin

text \<open>
  \<open>internal/worker/limiter_time.go\<close>: the lifespan limiter. \<open>newTimeLimiter\<close> adds a
  random jitter to the configured lifespan; \<open>Monitor\<close> starts at most one timer
  goroutine, whose two exits are \<open>limiter_fires\<close> (the timer) and \<open>limiter_cancelled\<close>
  (the worker's context). \<open>rand.Intn\<close> is the argument \<open>Intn\<close>, a value in
  \<open>[0, r)\<close> for a positive bound \<open>r\<close>; a non-positive bound panics.
\<close>

text \<open>\<open>internal/worker/limiter_memory.go\<close> is a placeholder that nothing calls.\<close>

definition newMemoryLimiter :: "unit outcome" where
  "newMemoryLimiter = Panic ''Not implemented''"

record TimeLimiter =
  tl_timeout :: duration
  tl_workerName :: string
  tl_workerPool :: string
  tl_isMonitoring :: bool

text \<open>\<open>Duration.Milliseconds\<close> truncates towards zero.\<close>

definition Milliseconds :: "duration \<Rightarrow> int" where
  "Milliseconds t = sgn t * (\<bar>t\<bar> div Millisecond)"

definition jitter_bound :: "duration \<Rightarrow> rat \<Rightarrow> int" where
  "jitter_bound t j = int_of_float (of_int \<lfloor>fl 53 (j * fl 53 (of_int (Milliseconds t)))\<rfloor>)"

definition newTimeLimiter ::
  "(int \<Rightarrow> int) \<Rightarrow> string \<Rightarrow> string \<Rightarrow> duration \<Rightarrow> rat \<Rightarrow> metrics \<Rightarrow> (TimeLimiter \<times> metrics) outcome" where
  "newTimeLimiter Intn wName wPool t j m =
     obind
       (if 0 < j then
          let r = jitter_bound t j
          in if r \<le> 0 then Panic ''invalid argument to Intn''
             else Ret (wrap64 (t + wrap64 (Intn r * Millisecond)))
        else Ret t)
       (\<lambda>timeout.
          Ret (\<lparr>tl_timeout = timeout, tl_workerName = wName, tl_workerPool = wPool,
                tl_isMonitoring = False\<rparr>,
               m\<lparr>limitCounter := vec_with (wPool, ''time'') (limitCounter m)\<rparr>))"

text \<open>
  \<open>Monitor\<close>: the new limiter state and whether the timer goroutine is started.
\<close>

definition Monitor :: "TimeLimiter \<Rightarrow> TimeLimiter \<times> bool" where
  "Monitor t =
     (if tl_timeout t = 0 then (t, False)
      else if tl_isMonitoring t then (t, False)
      else (t\<lparr>tl_isMonitoring := True\<rparr>, True))"

definition IsMonitoring :: "TimeLimiter \<Rightarrow> bool" where
  "IsMonitoring t = tl_isMonitoring t"

text \<open>The timer branch of the goroutine: the state it leaves and the event it sends.\<close>

definition limiter_fires :: "TimeLimiter \<Rightarrow> TimeLimiter \<times> SupervisorEvent" where
  "limiter_fires t =
     (t\<lparr>tl_isMonitoring := False\<rparr>,
      mk_event ProcessExceededLimit TimeLimitExceeded (tl_workerName t) (tl_workerPool t) None)"

definition limiter_cancelled :: "TimeLimiter \<Rightarrow> TimeLimiter" where
  "limiter_cancelled t = t\<lparr>tl_isMonitoring := False\<rparr>"

text \<open>After the event is received the goroutine counts it.\<close>

definition count_limit :: "string \<Rightarrow> metrics \<Rightarrow> metrics" where
  "count_limit pool m = m\<lparr>limitCounter := vec_add (pool, ''time'') 1 (limitCounter m)\<rparr>"

subsection \<open>The jitter\<close>

lemma Milliseconds_nonneg: "0 \<le> t \<Longrightarrow> 0 \<le> Milliseconds t"
  by (cases "t = 0") (simp_all add: Milliseconds_def Millisecond_def)

lemma Milliseconds_le: "0 \<le> t \<Longrightarrow> Milliseconds t * Millisecond \<le> t"
  by (cases "t = 0") (simp_all add: Milliseconds_def Millisecond_def)

lemma floor_fl_less:
  assumes "0 < x" and "x \<le> of_int n" and "n < 2 ^ 53"
  shows "of_int \<lfloor>fl 53 x\<rfloor> < x + 1"
proof -
  have "fl 53 x \<le> of_int \<lceil>x\<rceil>"
    using assms by (intro fl_le_int) (auto simp: ceiling_le_iff intro: order.strict_trans1)
  then have "of_int \<lfloor>fl 53 x\<rfloor> \<le> (of_int \<lceil>x\<rceil> :: rat)" by linarith
  also have "\<dots> < x + 1" by linarith
  finally show ?thesis .
qed

lemma jitter_bound_less:
  assumes "0 \<le> t" and "t < 2 ^ 63" and "0 < j" and "j \<le> 1"
  shows "of_int (jitter_bound t j) < of_int (Milliseconds t) * j + 1"
    and "jitter_bound t j \<le> Milliseconds t"
    and "0 \<le> jitter_bound t j"
proof -
  define ms where "ms = Milliseconds t"
  have "ms * Millisecond < 2 ^ 63" using Milliseconds_le [OF assms(1)] assms(2) by (simp add: ms_def)
  then have ms: "0 \<le> ms" "ms < 2 ^ 53"
    using Milliseconds_nonneg [OF assms(1)] by (simp_all add: ms_def Millisecond_def)
  define y where "y = fl 53 (j * of_int ms)"
  have flms: "fl 53 (of_int ms) = of_int ms" using ms by (simp add: fl_of_int)
  have y0: "0 \<le> y" using ms assms(3) by (simp add: y_def fl_nonneg)
  have yms: "y \<le> of_int ms"
  proof (cases "ms = 0")
    case False
    then show ?thesis unfolding y_def
      using ms assms(3,4) by (intro fl_le_int) (auto simp: mult_left_le_one_le)
  qed (simp add: y_def)
  have fy: "0 \<le> \<lfloor>y\<rfloor>" "\<lfloor>y\<rfloor> \<le> ms" using y0 yms by (simp_all add: floor_le_iff)
  have "ms < 2 ^ 63" using ms(2) by simp
  with fy(2) have "\<lfloor>y\<rfloor> < 2 ^ 63" by linarith
  then have "(of_int \<lfloor>y\<rfloor> :: rat) < of_int (2 ^ 63)" by (simp only: of_int_less_iff)
  then have jb: "jitter_bound t j = \<lfloor>y\<rfloor>"
    using fy flms by (simp add: jitter_bound_def int_of_float_def y_def ms_def)
  show "jitter_bound t j \<le> Milliseconds t" "0 \<le> jitter_bound t j"
    using fy by (simp_all add: jb ms_def)
  show "of_int (jitter_bound t j) < of_int (Milliseconds t) * j + 1"
  proof (cases "ms = 0")
    case True
    then show ?thesis by (simp add: jb y_def flip: ms_def)
  next
    case False
    have "of_int \<lfloor>y\<rfloor> < j * of_int ms + 1" unfolding y_def
      using ms assms(3,4) False
      by (intro floor_fl_less [where n = ms]) (auto simp: mult_left_le_one_le)
    then show ?thesis by (simp add: jb ms_def mult.commute)
  qed
qed

lemma jitter_bound_pos:
  assumes "0 \<le> t" and "t < 2 ^ 63" and "0 < j" and "j \<le> 1" and "1 \<le> j * of_int (Milliseconds t)"
  shows "0 < jitter_bound t j"
proof -
  define ms where "ms = Milliseconds t"
  have ms: "0 \<le> ms" "ms < 2 ^ 53"
    using Milliseconds_nonneg [OF assms(1)] Milliseconds_le [OF assms(1)] assms(2)
    by (simp_all add: ms_def Millisecond_def)
  define y where "y = fl 53 (j * fl 53 (of_int ms))"
  have "y = fl 53 (j * of_int ms)" using ms by (simp add: y_def fl_of_int)
  moreover have "of_int 1 \<le> fl 53 (j * of_int ms)"
    using assms(5) by (intro fl_ge_int) (auto simp: ms_def)
  ultimately have "1 \<le> \<lfloor>y\<rfloor>" by (simp add: le_floor_iff)
  then show ?thesis
    using jitter_bound_less(3) [OF assms(1-4)]
    by (auto simp: jitter_bound_def int_of_float_def y_def ms_def split: if_splits)
qed

lemma jitter_bound_zero:
  assumes "0 \<le> t" and "t < 2 ^ 63" and "0 < j" and "j \<le> 1"
    and "j * of_int (Milliseconds t) \<le> 1 - 1 / 2 ^ 53"
  shows "jitter_bound t j = 0"
proof -
  define ms where "ms = Milliseconds t"
  have ms: "0 \<le> ms" "ms < 2 ^ 53"
    using Milliseconds_nonneg [OF assms(1)] Milliseconds_le [OF assms(1)] assms(2)
    by (simp_all add: ms_def Millisecond_def)
  define x where "x = j * of_int ms"
  have x: "0 \<le> x" "x \<le> 1 - 1 / 2 ^ 53" using ms assms(3,5) by (simp_all add: x_def ms_def)
  have "fl 53 x \<le> x + \<bar>x\<bar> / 2 ^ 53" using fl_error [of 53 x] by linarith
  also have "\<dots> = x * (1 + 1 / 2 ^ 53)" using x(1) by (simp add: algebra_simps)
  also have "\<dots> \<le> (1 - 1 / 2 ^ 53) * (1 + 1 / 2 ^ 53)" using x(2) by (rule mult_right_mono) simp
  also have "\<dots> < (1 :: rat)" by simp
  finally have "\<lfloor>fl 53 x\<rfloor> = 0" using fl_nonneg [OF x(1), of 53] by (simp add: floor_eq_iff)
  moreover have "fl 53 (of_int ms) = of_int ms" using ms by (simp add: fl_of_int)
  ultimately show ?thesis by (simp add: jitter_bound_def int_of_float_def x_def ms_def)
qed

subsection \<open>Properties\<close>

text \<open>C23: Jitter only ever lengthens a lifespan, and by less than the configured fraction of it:
  for a jitter ratio in (0, 1] whose millisecond bound is at least one and a random number in
  range, \<open>newTimeLimiter\<close> returns a limiter whose timeout lies in \<open>[t, t + j * t)\<close>,
  rounding of the float64 product included.\<close>

theorem newTimeLimiter_bounds:
  assumes "0 \<le> t" and "t < 2 ^ 62" and "0 < j" and "j \<le> 1"
    and "1 \<le> j * of_int (Milliseconds t)"
    and "0 \<le> Intn (jitter_bound t j)" and "Intn (jitter_bound t j) < jitter_bound t j"
  shows "\<exists>tl m'. newTimeLimiter Intn name pool t j m = Ret (tl, m') \<and>
           t \<le> tl_timeout tl \<and> of_int (tl_timeout tl) < of_int t + j * of_int t \<and>
           \<not> tl_isMonitoring tl"
proof -
  define r n where "r = jitter_bound t j" and "n = Intn r"
  have t63: "t < 2 ^ 63" using assms(2) by simp
  have r: "0 < r" "r \<le> Milliseconds t" "of_int r < of_int (Milliseconds t) * j + 1"
    using jitter_bound_pos [OF assms(1) t63 assms(3-5)] jitter_bound_less [OF assms(1) t63 assms(3,4)]
    by (simp_all add: r_def)
  have n: "0 \<le> n" "n < r" using assms(6,7) by (simp_all add: n_def r_def)
  have ms: "Milliseconds t * Millisecond \<le> t" by (rule Milliseconds_le [OF assms(1)])
  have "n * Millisecond \<le> Milliseconds t * Millisecond"
    using n r(2) by (intro mult_right_mono) (simp_all add: Millisecond_def)
  then have nt: "0 \<le> n * Millisecond" "n * Millisecond \<le> t"
    using n ms by (simp_all add: Millisecond_def)
  then have wr: "wrap64 (n * Millisecond) = n * Millisecond"
    "wrap64 (t + n * Millisecond) = t + n * Millisecond"
    using assms(1,2) by (simp_all add: wrap64_id in64_def)
  have "(of_int n :: rat) \<le> of_int r - 1" using n(2) by linarith
  then have "(of_int n :: rat) < of_int (Milliseconds t) * j" using r(3) by linarith
  then have "of_int (n * Millisecond) < j * of_int (Milliseconds t * Millisecond)"
    by (simp add: Millisecond_def mult.commute)
  also have "\<dots> \<le> j * of_int t" using ms assms(3) by (intro mult_left_mono) (auto simp only: of_int_le_iff)
  finally show ?thesis
    using assms(3) r(1) wr nt by (simp add: newTimeLimiter_def Let_def flip: r_def n_def)
qed

theorem newTimeLimiter_bounds_witness:
  "\<exists>tl m'. newTimeLimiter (\<lambda>_. 149) ''w'' ''p'' (300 * Millisecond) (1 / 2) no_metrics = Ret (tl, m') \<and>
     300 * Millisecond \<le> tl_timeout tl \<and>
     of_int (tl_timeout tl) < of_int (300 * Millisecond) + 1 / 2 * (of_int (300 * Millisecond) :: rat) \<and>
     \<not> tl_isMonitoring tl"
proof -
  have b: "jitter_bound (300 * Millisecond) (1 / 2) = 150" by code_simp
  have ms: "Milliseconds (300 * Millisecond) = 300" by (simp add: Milliseconds_def Millisecond_def)
  show ?thesis
    by (rule newTimeLimiter_bounds) (simp_all add: b ms, simp_all add: Millisecond_def)
qed

text \<open>C24: A jitter ratio on a short lifespan crashes the program: when the ratio is positive and
  the jitter amounts to less than one millisecond, \<open>newTimeLimiter\<close> panics in
  \<open>rand.Intn\<close>; from one millisecond of jitter on it returns.\<close>

theorem newTimeLimiter_panics:
  assumes "0 \<le> t" and "t < 2 ^ 63" and "0 < j" and "j \<le> 1"
  shows "(j * of_int (Milliseconds t) \<le> 1 - 1 / 2 ^ 53 \<longrightarrow>
            newTimeLimiter Intn name pool t j m = Panic ''invalid argument to Intn'') \<and>
         (1 \<le> j * of_int (Milliseconds t) \<longrightarrow>
            (\<exists>r. newTimeLimiter Intn name pool t j m = Ret r))"
  using jitter_bound_zero [OF assms] jitter_bound_pos [OF assms] assms(3)
  by (auto simp: newTimeLimiter_def Let_def)

theorem newTimeLimiter_panics_witness:
  "newTimeLimiter (\<lambda>_. 0) ''w'' ''p'' (5 * Millisecond) (1 / 10) no_metrics =
     Panic ''invalid argument to Intn''"
  by (rule newTimeLimiter_panics [THEN conjunct1, THEN mp])
    (simp_all add: Milliseconds_def Millisecond_def)

end
