(* ===== verification/Worker_Interface.thy ===== *)
theory Worker_Interface
  imports Time_Limiter
begin

text \<open>
  The \<open>Worker\<close> interface of \<open>internal/worker/types.go\<close> and the world its methods act
  on. A worker is an object on the heap; goroutines started by its methods keep its address,
  not a copy, so a closure of a replaced worker still sees the old object. A method takes
  the receiver's address and state and gives the new state and its effects: goroutines to
  start and \<open>SIGKILL\<close>s to send.

  A goroutine is represented by what it is blocked on: an event it is about to send on the
  supervisor's unbuffered channel, a timer, or the status channel of a command.
\<close>

type_synonym addr = nat

datatype lim_kind = MemoryLim | LifespanLim

datatype goroutine =
    SendEvent SupervisorEvent
  | SendLimitEvent SupervisorEvent
  | WatchExit addr
  | TermTimer addr
  | RunMonitor lim_kind addr
  | LimitTimer lim_kind addr
  | StreamLogsLoop addr
  | ExitTimer addr

datatype effect = Go goroutine | Kill int

text \<open>
  \<open>logger\<close> and the channel \<open>ch\<close> of the Go struct are not data of the model: every
  worker gets the supervisor's channel.
\<close>

record WorkerIntConfig =
  wi_name :: string
  wi_poolName :: string
  wi_opt :: cmdOptions
  wi_execName :: string
  wi_args :: "string list"
  wi_restarts :: int
  wi_memory :: "TimeLimiter option"
  wi_lifespan :: "TimeLimiter option"
  wi_collectProcessMetrics :: bool

text \<open>
  The configurations a pool builds have no memory limiter, and a lifespan limiter that names
  the worker itself.
\<close>

definition conf_ok :: "WorkerIntConfig \<Rightarrow> bool" where
  "conf_ok c \<longleftrightarrow> wi_memory c = None \<and>
     (\<forall>t. wi_lifespan c = Some t \<longrightarrow> tl_workerName t = wi_name c \<and> tl_workerPool t = wi_poolName c)"

record 'w worker_ops =
  factory :: "WorkerIntConfig \<Rightarrow> 'w outcome"
  w_Run :: "addr \<Rightarrow> 'w \<Rightarrow> 'w \<times> effect list"
  w_Terminate :: "duration \<Rightarrow> addr \<Rightarrow> 'w \<Rightarrow> 'w \<times> effect list"
  w_ForceTerminateWorker :: "addr \<Rightarrow> 'w \<Rightarrow> 'w \<times> effect list"
  w_WaitForWorkerToCleanBuffer :: "'w \<Rightarrow> error option outcome"
  w_Status :: "'w \<Rightarrow> ProcessStatus"
  w_Restarts :: "'w \<Rightarrow> int"

record 'w world =
  heap :: "addr \<Rightarrow> 'w option"
  nextAddr :: addr
  gos :: "goroutine list"
  mets :: metrics
  kills :: "int list"
  posts :: "string list"
  files :: "(string \<times> string) list"
  dirs :: "string list"

definition empty_world :: "'w world" where
  "empty_world = \<lparr>heap = Map.empty, nextAddr = 0, gos = [], mets = no_metrics, kills = [],
     posts = [], files = [], dirs = []\<rparr>"

fun apply_effect :: "effect \<Rightarrow> 'w world \<Rightarrow> 'w world" where
  "apply_effect (Go x) g = g\<lparr>gos := gos g @ [x]\<rparr>"
| "apply_effect (Kill pid) g = g\<lparr>kills := kills g @ [pid]\<rparr>"

definition apply_effects :: "effect list \<Rightarrow> 'w world \<Rightarrow> 'w world" where
  "apply_effects es g = fold apply_effect es g"

text \<open>A method call through a pointer: \<open>nil\<close> panics.\<close>

definition on_worker ::
  "(addr \<Rightarrow> 'w \<Rightarrow> 'w \<times> effect list) \<Rightarrow> addr \<Rightarrow> 'w world \<Rightarrow> 'w world outcome" where
  "on_worker f a g =
     obind (deref (heap g a))
       (\<lambda>w. Ret (apply_effects (snd (f a w)) (g\<lparr>heap := (heap g)(a \<mapsto> fst (f a w))\<rparr>)))"

definition alloc :: "'w \<Rightarrow> 'w world \<Rightarrow> addr \<times> 'w world" where
  "alloc w g = (nextAddr g, g\<lparr>heap := (heap g)(nextAddr g \<mapsto> w), nextAddr := Suc (nextAddr g)\<rparr>)"

definition spawn :: "goroutine \<Rightarrow> 'w world \<Rightarrow> 'w world" where
  "spawn x g = g\<lparr>gos := gos g @ [x]\<rparr>"

definition upd_mets :: "(metrics \<Rightarrow> metrics) \<Rightarrow> 'w world \<Rightarrow> 'w world" where
  "upd_mets f g = g\<lparr>mets := f (mets g)\<rparr>"

subsection \<open>Effects touch goroutines and kills only\<close>

fun go_of :: "effect \<Rightarrow> goroutine list" where
  "go_of (Go x) = [x]"
| "go_of (Kill _) = []"

fun kill_of :: "effect \<Rightarrow> int list" where
  "kill_of (Go _) = []"
| "kill_of (Kill pid) = [pid]"

lemma apply_effects_eq:
  "apply_effects es g =
     g\<lparr>gos := gos g @ concat (map go_of es), kills := kills g @ concat (map kill_of es)\<rparr>"
proof (induction es arbitrary: g)
  case Nil
  then show ?case by (simp add: apply_effects_def)
next
  case (Cons e es)
  then show ?case by (cases e) (simp_all add: apply_effects_def)
qed

lemma apply_effects_sel [simp]:
  "heap (apply_effects es g) = heap g" "nextAddr (apply_effects es g) = nextAddr g"
  "mets (apply_effects es g) = mets g" "posts (apply_effects es g) = posts g"
  "files (apply_effects es g) = files g" "dirs (apply_effects es g) = dirs g"
  "gos (apply_effects es g) = gos g @ concat (map go_of es)"
  "kills (apply_effects es g) = kills g @ concat (map kill_of es)"
  by (simp_all add: apply_effects_eq)

lemma spawn_sel [simp]:
  "heap (spawn x g) = heap g" "nextAddr (spawn x g) = nextAddr g" "mets (spawn x g) = mets g"
  "posts (spawn x g) = posts g" "files (spawn x g) = files g" "dirs (spawn x g) = dirs g" "kills (spawn x g) = kills g"
  "gos (spawn x g) = gos g @ [x]"
  by (simp_all add: spawn_def)

lemma upd_mets_sel [simp]:
  "heap (upd_mets f g) = heap g" "nextAddr (upd_mets f g) = nextAddr g"
  "mets (upd_mets f g) = f (mets g)" "posts (upd_mets f g) = posts g"
  "files (upd_mets f g) = files g" "dirs (upd_mets f g) = dirs g" "kills (upd_mets f g) = kills g" "gos (upd_mets f g) = gos g"
  by (simp_all add: upd_mets_def)

lemma on_worker_eq_Ret:
  "on_worker f a g = Ret g' \<longleftrightarrow>
     (\<exists>w. heap g a = Some w \<and>
          g' = apply_effects (snd (f a w)) (g\<lparr>heap := (heap g)(a \<mapsto> fst (f a w))\<rparr>))"
  by (auto simp: on_worker_def)

subsection \<open>The contract of a worker\<close>

text \<open>
  What a pool relies on, for every implementation of the interface: a fresh worker carries
  the restart count, the name and the pool of its configuration; no method changes those;
  and the events a method sends name the worker itself.
\<close>

locale worker_contract =
  fixes W :: "'w worker_ops" and wid :: "'w \<Rightarrow> string" and wpool :: "'w \<Rightarrow> string"
  assumes factory_fresh:
      "factory W c = Ret w \<Longrightarrow>
         w_Restarts W w = wi_restarts c \<and>
         wid w = wi_name c \<and> wpool w = wi_poolName c"
    and run_keeps: "w_Restarts W (fst (w_Run W a w)) = w_Restarts W w \<and>
         wid (fst (w_Run W a w)) = wid w \<and> wpool (fst (w_Run W a w)) = wpool w"
    and terminate_keeps: "w_Restarts W (fst (w_Terminate W d a w)) = w_Restarts W w \<and>
         wid (fst (w_Terminate W d a w)) = wid w \<and> wpool (fst (w_Terminate W d a w)) = wpool w"
    and force_keeps: "w_Restarts W (fst (w_ForceTerminateWorker W a w)) = w_Restarts W w \<and>
         wid (fst (w_ForceTerminateWorker W a w)) = wid w \<and>
         wpool (fst (w_ForceTerminateWorker W a w)) = wpool w"
    and run_events: "Go (SendEvent e) \<notin> set (snd (w_Run W a w))"
    and terminate_events: "Go (SendEvent e) \<in> set (snd (w_Terminate W d a w)) \<Longrightarrow>
         ev_Id e = wid w \<and> ev_Pool e = wpool w"
    and force_events: "Go (SendEvent e) \<in> set (snd (w_ForceTerminateWorker W a w)) \<Longrightarrow>
         ev_Id e = wid w \<and> ev_Pool e = wpool w"

end
