(* ===== verification/Envoy_Config.thy ===== *)
theory Envoy_Config
  imports Go_Lib Worker_Interface
begin

text \<open>
  \<open>internal/worker/envoy_config.go\<close>: the three configuration files the proxy reads. The
  embedded templates of \<open>internal/worker/proxy/\<close> are lists of lines with their
  \<open>{{.Field}}\<close> holes; the \<open>range\<close> of the cluster template, whose \<open>{{-\<close> markers trim
  the surrounding white space, is a block of lines repeated for every port.
\<close>

definition envoyBootstrapConfig :: string where "envoyBootstrapConfig = ''envoy_starting_config.yaml''"

definition envoyClusterConfig :: string where "envoyClusterConfig = ''clusters.yaml''"

definition envoyListenersConfig :: string where "envoyListenersConfig = ''listeners.yaml''"

datatype tline = L string | LF string string string | LRange "string list" string

definition envoyClusterConfigTemplate :: "tline list" where
  "envoyClusterConfigTemplate = [
    L ''resources:'',
    L (''  - '' @ [CHR 0x27] @ ''@type'' @ [CHR 0x27] @ '': type.googleapis.com/envoy.config.cluster.v3.Cluster''),
    L ''    name: workers_cluster'',
    L ''    type: STRICT_DNS'',
    LF ''    lb_policy: '' ''LoadBalanceAlgorithm'' '''',
    L ''    typed_extension_protocol_options:'',
    L ''      envoy.extensions.upstreams.http.v3.HttpProtocolOptions:'',
    L (''        '' @ [CHR 0x27] @ ''@type'' @ [CHR 0x27] @ '': type.googleapis.com/envoy.extensions.upstreams.http.v3.HttpProtocolOptions''),
    L ''        use_downstream_protocol_config: {}'',
    L ''    health_checks:'',
    L ''      - interval: 5s'',
    L ''        timeout: 1s'',
    L ''        unhealthy_threshold: 2'',
    L ''        healthy_threshold: 1'',
    L ''        event_log_path: /dev/stdout'',
    L ''        always_log_health_check_failures: true'',
    L ''        http_health_check:'',
    LF (''          path: '' @ [CHR 0x27]) ''HealthCheckPath'' ('''' @ [CHR 0x27]),
    L ''    load_assignment:'',
    L ''      cluster_name: workers_cluster'',
    L ''      endpoints:'',
    L ''        - lb_endpoints:'',
    LRange [''            - endpoint:'',
      ''                address:'',
      ''                  socket_address:'',
      ''                    address: 0.0.0.0''] ''                    port_value: '']"

definition envoyListenersConfigTemplate :: "tline list" where
  "envoyListenersConfigTemplate = [
    L ''resources:'',
    L (''  - '' @ [CHR 0x27] @ ''@type'' @ [CHR 0x27] @ '': type.googleapis.com/envoy.config.listener.v3.Listener''),
    L ''    name: monoceros_proxy'',
    L ''    address:'',
    L ''      socket_address:'',
    L ''        address: 0.0.0.0'',
    LF ''        port_value: '' ''Port'' '''',
    L ''    filter_chains:'',
    L ''      - filters:'',
    L ''          - name: envoy.http_connection_manager'',
    L ''            typed_config:'',
    L (''              '' @ [CHR 0x27] @ ''@type'' @ [CHR 0x27] @ '': type.googleapis.com/envoy.extensions.filters.network.http_connection_manager.v3.HttpConnectionManager''),
    L ''              stat_prefix: monoceros_proxy_http'',
    L ''              http_filters:'',
    L ''                - name: envoy.router'',
    L ''                  typed_config:'',
    L (''                    '' @ [CHR 0x27] @ ''@type'' @ [CHR 0x27] @ '': type.googleapis.com/envoy.extensions.filters.http.router.v3.Router''),
    L ''              route_config:'',
    L ''                name: local_route'',
    L ''                virtual_hosts:'',
    L ''                  - name: local_service'',
    L ''                    domains:'',
    L (''                      - '' @ [CHR 0x27] @ ''*'' @ [CHR 0x27]),
    L ''                    routes:'',
    L ''                      - match:'',
    L (''                          prefix: '' @ [CHR 0x27] @ ''/'' @ [CHR 0x27]),
    L ''                        route:'',
    L ''                          cluster: workers_cluster'',
    L ''                          retry_policy:'',
    L ''                            retry_on: connect-failure'']"

definition envoyStartingConfigTemplate :: "tline list" where
  "envoyStartingConfigTemplate = [
    L ''node:'',
    L ''  cluster: local_workers'',
    L ''  id: monoceros-envoy'',
    L '''',
    L ''admin:'',
    L ''  address:'',
    L ''    socket_address:'',
    L ''      address: 127.0.0.1'',
    LF ''      port_value: '' ''Port'' '''',
    L '''',
    L ''dynamic_resources:'',
    L ''  cds_config:'',
    LF ''    path: '' ''CdsPath'' '''',
    L ''  lds_config:'',
    LF ''    path: '' ''LdsPath'' '''']"

record EnvoyListenerOpt =
  lo_Port :: uint64

record EnvoyClusterOpt =
  PortRange :: "uint64 list"
  co_LoadBalanceAlgorithm :: string
  co_HealthCheckPath :: string

record EnvoyBootstrapConfiInternalgOpt =
  CdsPath :: string
  LdsPath :: string
  bi_Port :: uint64

record EnvoyBootstrapOpt =
  bo_Port :: uint64

datatype EnvoyConfigType = Bootstrap | Listener | Cluster

record EnvoyConfigGenerator =
  eg_wr :: "string option"
  pathPrefix :: string

definition show_u64 :: "uint64 \<Rightarrow> string" where
  "show_u64 n = showNat (unat n)"

text \<open>Executing a template: the lines of the result, then the text with its line ends.\<close>

fun exec_line :: "(string \<Rightarrow> string) \<Rightarrow> uint64 list \<Rightarrow> tline \<Rightarrow> string list" where
  "exec_line fld ports (L s) = [s]"
| "exec_line fld ports (LF pre f post) = [pre @ fld f @ post]"
| "exec_line fld ports (LRange body pre) =
     concat (map (\<lambda>p. body @ [pre @ show_u64 p]) ports)"

definition exec_lines :: "(string \<Rightarrow> string) \<Rightarrow> uint64 list \<Rightarrow> tline list \<Rightarrow> string list" where
  "exec_lines fld ports t = concat (map (exec_line fld ports) t)"

definition unlines :: "string list \<Rightarrow> string" where
  "unlines ls = concat (map (\<lambda>l. l @ [CHR 0x0A]) ls)"

definition cluster_field :: "EnvoyClusterOpt \<Rightarrow> string \<Rightarrow> string" where
  "cluster_field opt f =
     (if f = ''LoadBalanceAlgorithm'' then co_LoadBalanceAlgorithm opt else co_HealthCheckPath opt)"

definition cluster_text :: "EnvoyClusterOpt \<Rightarrow> string" where
  "cluster_text opt = unlines (exec_lines (cluster_field opt) (PortRange opt) envoyClusterConfigTemplate)"

definition listener_text :: "EnvoyListenerOpt \<Rightarrow> string" where
  "listener_text opt = unlines (exec_lines (\<lambda>_. show_u64 (lo_Port opt)) [] envoyListenersConfigTemplate)"

definition bootstrap_field :: "EnvoyBootstrapConfiInternalgOpt \<Rightarrow> string \<Rightarrow> string" where
  "bootstrap_field opt f =
     (if f = ''Port'' then show_u64 (bi_Port opt)
      else if f = ''CdsPath'' then CdsPath opt else LdsPath opt)"

definition bootstrap_text :: "EnvoyBootstrapConfiInternalgOpt \<Rightarrow> string" where
  "bootstrap_text opt = unlines (exec_lines (bootstrap_field opt) [] envoyStartingConfigTemplate)"

subsection \<open>Writing the files\<close>

text \<open>
  \<open>createEnvoyDir\<close> makes the directory when \<open>os.Stat\<close> reports it missing. A directory
  made before is recorded in the world, as \<open>Stat\<close> then finds it.
\<close>

definition createEnvoyDir :: "golib \<Rightarrow> EnvoyConfigGenerator \<Rightarrow> 'w world \<Rightarrow> error option \<times> 'w world" where
  "createEnvoyDir lib e g =
     (if FsMissing lib (pathPrefix e) \<and> pathPrefix e \<notin> set (dirs g) then
        (case FsMkdir lib (pathPrefix e) of
           Some err \<Rightarrow> (Some err, g)
         | None \<Rightarrow> (None, g\<lparr>dirs := pathPrefix e # dirs g\<rparr>))
      else (None, g))"

definition config_file :: "EnvoyConfigType \<Rightarrow> string" where
  "config_file c = (case c of Bootstrap \<Rightarrow> envoyBootstrapConfig | Listener \<Rightarrow> envoyListenersConfig
     | Cluster \<Rightarrow> envoyClusterConfig)"

text \<open>
  The writer: an injected one (tests) appends; a file is opened with \<open>O_CREATE\<close> and
  \<open>O_TRUNC\<close>, so it starts empty.
\<close>

definition getWriterOrDefault ::
  "golib \<Rightarrow> EnvoyConfigGenerator \<Rightarrow> EnvoyConfigType \<Rightarrow> 'w world \<Rightarrow> (error + string) \<times> 'w world" where
  "getWriterOrDefault lib e c g =
     (case eg_wr e of
        Some wr \<Rightarrow> (Inr wr, g)
      | None \<Rightarrow>
          (case createEnvoyDir lib e g of
             (Some err, g1) \<Rightarrow> (Inl err, g1)
           | (None, g1) \<Rightarrow>
               let f = path_Join [pathPrefix e, config_file c]
               in (case FsOpen lib f of
                     Some err \<Rightarrow> (Inl err, g1)
                   | None \<Rightarrow> (Inr f, g1\<lparr>files := AList.update f [] (files g1)\<rparr>))))"

definition write_text :: "golib \<Rightarrow> string \<Rightarrow> string \<Rightarrow> 'w world \<Rightarrow> error option \<times> 'w world" where
  "write_text lib f txt g =
     (case FsWrite lib f of
        Some err \<Rightarrow> (Some err, g)
      | None \<Rightarrow>
          (None, g\<lparr>files := AList.update f
              ((case map_of (files g) f of None \<Rightarrow> [] | Some old \<Rightarrow> old) @ txt) (files g)\<rparr>))"

definition render ::
  "golib \<Rightarrow> EnvoyConfigGenerator \<Rightarrow> EnvoyConfigType \<Rightarrow> string \<Rightarrow> 'w world \<Rightarrow> error option \<times> 'w world" where
  "render lib e c txt g =
     (case getWriterOrDefault lib e c g of
        (Inl err, g1) \<Rightarrow> (Some err, g1)
      | (Inr wr, g1) \<Rightarrow> write_text lib wr txt g1)"

definition RenderClustersToWriter ::
  "golib \<Rightarrow> EnvoyConfigGenerator \<Rightarrow> EnvoyClusterOpt \<Rightarrow> 'w world \<Rightarrow> error option \<times> 'w world" where
  "RenderClustersToWriter lib e opt g = render lib e Cluster (cluster_text opt) g"

definition RenderListenersToWriter ::
  "golib \<Rightarrow> EnvoyConfigGenerator \<Rightarrow> EnvoyListenerOpt \<Rightarrow> 'w world \<Rightarrow> error option \<times> 'w world" where
  "RenderListenersToWriter lib e opt g = render lib e Listener (listener_text opt) g"

definition RenderBootstrapConfig ::
  "golib \<Rightarrow> EnvoyConfigGenerator \<Rightarrow> EnvoyBootstrapOpt \<Rightarrow> 'w world \<Rightarrow> error option \<times> 'w world" where
  "RenderBootstrapConfig lib e opt g =
     render lib e Bootstrap
       (bootstrap_text \<lparr>CdsPath = path_Join [pathPrefix e, envoyClusterConfig],
                        LdsPath = path_Join [pathPrefix e, envoyListenersConfig],
                        bi_Port = bo_Port opt\<rparr>) g"

subsection \<open>Rendering touches files and directories only\<close>

lemma render_frame [frame]:
  assumes "render lib e c txt g = (r, g')"
  shows "heap g' = heap g \<and> nextAddr g' = nextAddr g \<and> gos g' = gos g \<and> mets g' = mets g \<and>
         kills g' = kills g \<and> posts g' = posts g"
  using assms
  by (auto simp: render_def getWriterOrDefault_def createEnvoyDir_def write_text_def Let_def
      split: option.splits if_splits)

lemmas render_ops = RenderClustersToWriter_def RenderListenersToWriter_def RenderBootstrapConfig_def

end
