(* ===== verification/Worker_Pool.thy ===== *)
theory Worker_Pool
  imports Envoy_Config
begin

text \<open>
  \<open>internal/worker/worker_pool.go\<close>: a pool of replicas of one worker, with an optional
  proxy in front. Operations take the library calls \<open>lib\<close>, the worker implementation
  \<open>W\<close> (Go's \<open>workerFactory\<close> and the interface's methods), the pool and the world. Each
  \<open>range\<close> over the workers that has effects takes the order \<open>ks\<close> in which the runtime
  visits the keys. Waiting times between starts are not modelled.
\<close>

definition ProxyId :: string where "ProxyId = ''monoceros-envoy''"

definition envoyExec :: string where "envoyExec = ''envoy''"

datatype poolState = Init | Prepared | Started | Draining | Stopped

record serverInfo =
  ports :: "(string \<times> uint64) list"
  portArgName :: string
  valueTemplate :: string
  startPort :: uint64
  proxyStartup :: processStartupInfo
  loadBalanceAlgorithm :: string
  healthCheckPath :: string
  envoyGen :: EnvoyConfigGenerator
  proxyAdminPort :: uint64
  proxyListenerPort :: uint64

record WorkerPool =
  poolName :: string
  startup :: processStartupInfo
  startupWaitTime :: duration
  workers :: "(string \<times> addr) list"
  replicas :: int
  pstate :: poolState
  maxLifespan :: duration
  jitterLifespan :: rat
  desiredHealthPcnt :: int
  sInfo :: "serverInfo option"

text \<open>\<open>fmt.Sprintf("%s-%d", sw.poolName, i)\<close>\<close>

definition workerName :: "string \<Rightarrow> nat \<Rightarrow> string" where
  "workerName pool i = pool @ ''-'' @ showNat i"

definition commandExists :: "golib \<Rightarrow> string \<Rightarrow> bool" where
  "commandExists lib cmd = LookPath lib cmd"

text \<open>A worker without an entry in \<open>ports\<close> reads the zero value.\<close>

definition getPortArgs :: "golib \<Rightarrow> serverInfo \<Rightarrow> string \<Rightarrow> error + string list" where
  "getPortArgs lib p name =
     (let port = (case map_of (ports p) name of None \<Rightarrow> 0 | Some n \<Rightarrow> n)
      in case TmplExec lib (valueTemplate p) (sint port) of
           Inl err \<Rightarrow> Inl err
         | Inr s \<Rightarrow> Inr [portArgName p, s])"

definition new_serverInfo :: "WorkerConfig \<Rightarrow> ServerConfig \<Rightarrow> serverInfo" where
  "new_serverInfo c s =
     \<lparr>ports = [], portArgName = pa_Name (PortArg s), valueTemplate = pa_ValueTemplate (PortArg s),
      startPort = pa_StartPort (PortArg s),
      proxyStartup =
        \<lparr>si_name = envoyExec,
         si_args = [''--drain-time-s'', sprint_ceil (Seconds (SignalTimeoutOrDefault (Some c))),
                    ''--drain-strategy'', ''immediate'', ''-c'',
                    path_Join [ProxyPathPrefixOrDefault s, envoyBootstrapConfig]],
         signalTimeout = SignalTimeoutOrDefault_s (Some s), maxRestarts = 0\<rparr>,
      loadBalanceAlgorithm = LoadBalancerAlgorithmOrDefault s,
      healthCheckPath = HealthCheckPath s,
      envoyGen = \<lparr>eg_wr = None, pathPrefix = ProxyPathPrefixOrDefault s\<rparr>,
      proxyAdminPort = word_of_int (ProxyAdminPort s),
      proxyListenerPort = ProxyListenerPortOrDefault s\<rparr>"

definition NewWorkerPool :: "golib \<Rightarrow> bool \<Rightarrow> WorkerConfig \<Rightarrow> error + WorkerPool" where
  "NewWorkerPool lib loggerNil c =
     (if \<not> commandExists lib (wc_Exec c) then
        Inl (Errorw (WorkerErr errExecutableNotFound) ('': name '' @ wc_Exec c))
      else if loggerNil then
        Inl (Errorw (CommonErr ErrRequirementParameterMissing) '': name logger'')
      else if wc_Replicas c \<le> 0 then
        Inl (Errorw (CommonErr ErrRequirementParameterInvalid) '': replicas can not be <= 0'')
      else
        let sw = \<lparr>poolName = wc_Name c,
                  startup = \<lparr>si_name = wc_Exec c, si_args = wc_Args c,
                             signalTimeout = SignalTimeoutOrDefault (Some c),
                             maxRestarts = MaxRestartsOrDefault (Some c)\<rparr>,
                  startupWaitTime = wc_StartupWaitTime c, workers = [], replicas = wc_Replicas c,
                  pstate = Init, maxLifespan = 0, jitterLifespan = 0,
                  desiredHealthPcnt = wc_DesiredHealthyPercentage c, sInfo = None\<rparr>;
            withServer =
              (case wc_Server c of
                 None \<Rightarrow> Inr sw
               | Some s \<Rightarrow>
                   if pa_ValueTemplate (PortArg s) = '''' then
                     Inl (Errorf ''Port value template can not be null'')
                   else (case TmplParse lib (pa_ValueTemplate (PortArg s)) of
                           Some _ \<Rightarrow> Inl (Errorf ''Cannot construct worker due to ill-formatted template'')
                         | None \<Rightarrow> Inr (sw\<lparr>sInfo := Some (new_serverInfo c s)\<rparr>)))
        in case withServer of
             Inl err \<Rightarrow> Inl err
           | Inr sw1 \<Rightarrow>
               (case wc_Limits c of
                  None \<Rightarrow> Inr sw1
                | Some l \<Rightarrow>
                    if Lifespan l \<noteq> 0
                    then Inr (sw1\<lparr>jitterLifespan := JitterRatio l, maxLifespan := Lifespan l\<rparr>)
                    else Inr sw1))"

definition worker_port_args :: "golib \<Rightarrow> string \<Rightarrow> WorkerPool \<Rightarrow> string list outcome" where
  "worker_port_args lib name sw =
     (case sInfo sw of
        None \<Rightarrow> Ret []
      | Some si \<Rightarrow>
          (case getPortArgs lib si name of
             Inl err \<Rightarrow> Panic ''port template''
           | Inr portArgs \<Rightarrow> Ret portArgs))"

definition worker_lifespan ::
  "golib \<Rightarrow> string \<Rightarrow> WorkerPool \<Rightarrow> 'w world \<Rightarrow> (TimeLimiter option \<times> 'w world) outcome" where
  "worker_lifespan lib name sw g =
     (if maxLifespan sw \<noteq> 0 then
        obind (newTimeLimiter (Intn lib) name (poolName sw) (maxLifespan sw) (jitterLifespan sw) (mets g))
          (\<lambda>tm. Ret (Some (fst tm), g\<lparr>mets := snd tm\<rparr>))
      else Ret (None, g))"

definition worker_config ::
  "cmdOptions \<Rightarrow> string \<Rightarrow> int \<Rightarrow> WorkerPool \<Rightarrow> string list \<Rightarrow> TimeLimiter option \<Rightarrow> WorkerIntConfig" where
  "worker_config cmdOpts name restarts sw portArgs life =
     \<lparr>wi_name = name, wi_poolName = poolName sw, wi_opt = cmdOpts,
      wi_execName = si_name (startup sw), wi_args = portArgs @ si_args (startup sw),
      wi_restarts = restarts, wi_memory = None, wi_lifespan = life, wi_collectProcessMetrics = True\<rparr>"

definition prepareWorkerInternal ::
  "golib \<Rightarrow> 'w worker_ops \<Rightarrow> cmdOptions \<Rightarrow> string \<Rightarrow> int \<Rightarrow> WorkerPool \<Rightarrow> 'w world \<Rightarrow>
   (WorkerPool \<times> 'w world) outcome" where
  "prepareWorkerInternal lib W cmdOpts name restarts sw g =
     obind (worker_port_args lib name sw)
       (\<lambda>portArgs. obind (worker_lifespan lib name sw g)
          (\<lambda>lg. obind (factory W (worker_config cmdOpts name restarts sw portArgs (fst lg)))
             (\<lambda>w. Ret (sw\<lparr>workers := AList.update name (nextAddr (snd lg)) (workers sw)\<rparr>,
                       spawn (StreamLogsLoop (nextAddr (snd lg))) (snd (alloc w (snd lg)))))))"

definition portRange :: "WorkerPool \<Rightarrow> serverInfo \<Rightarrow> uint64 list" where
  "portRange sw si = map (\<lambda>i. startPort si + of_nat i) [0..<nat (replicas sw)]"

definition proxy_config :: "cmdOptions \<Rightarrow> WorkerPool \<Rightarrow> serverInfo \<Rightarrow> WorkerIntConfig" where
  "proxy_config cmdOpts sw si =
     \<lparr>wi_name = ProxyId, wi_poolName = poolName sw, wi_opt = cmdOpts,
      wi_execName = si_name (proxyStartup si), wi_args = si_args (proxyStartup si),
      wi_restarts = 0, wi_memory = None, wi_lifespan = None, wi_collectProcessMetrics = False\<rparr>"

definition prepareProxy ::
  "golib \<Rightarrow> 'w worker_ops \<Rightarrow> cmdOptions \<Rightarrow> WorkerPool \<Rightarrow> 'w world \<Rightarrow>
   (error option \<times> WorkerPool \<times> 'w world) outcome" where
  "prepareProxy lib W cmdOpts sw g =
     obind (deref (sInfo sw))
       (\<lambda>si.
          case RenderClustersToWriter lib (envoyGen si)
                 \<lparr>PortRange = portRange sw si, co_LoadBalanceAlgorithm = loadBalanceAlgorithm si,
                  co_HealthCheckPath = healthCheckPath si\<rparr> g of
            (Some err, g1) \<Rightarrow> Ret (Some err, sw, g1)
          | (None, g1) \<Rightarrow>
              (case RenderListenersToWriter lib (envoyGen si) \<lparr>lo_Port = proxyListenerPort si\<rparr> g1 of
                 (Some err, g2) \<Rightarrow> Ret (Some err, sw, g2)
               | (None, g2) \<Rightarrow>
                   (case RenderBootstrapConfig lib (envoyGen si) \<lparr>bo_Port = proxyAdminPort si\<rparr> g2 of
                      (Some err, g3) \<Rightarrow> Ret (Some err, sw, g3)
                    | (None, g3) \<Rightarrow>
                        obind (factory W (proxy_config cmdOpts sw si))
                          (\<lambda>w. let (a, g4) = alloc w g3
                               in Ret (None, sw\<lparr>workers := AList.update ProxyId a (workers sw)\<rparr>,
                                       spawn (StreamLogsLoop a) g4)))))"

definition init_counters :: "string \<Rightarrow> metrics \<Rightarrow> metrics" where
  "init_counters pool m =
     m\<lparr>restartsCounter := vec_with (pool, ''proxy'') (vec_with (pool, ''worker'') (restartsCounter m)),
       sigkillCounter := vec_with pool (sigkillCounter m)\<rparr>"

definition assign_port :: "string \<Rightarrow> nat \<Rightarrow> WorkerPool \<Rightarrow> WorkerPool" where
  "assign_port name i sw =
     (case sInfo sw of
        None \<Rightarrow> sw
      | Some si \<Rightarrow>
          sw\<lparr>sInfo := Some (si\<lparr>ports := AList.update name (startPort si + of_nat i) (ports si)\<rparr>)\<rparr>)"

fun prepare_loop ::
  "golib \<Rightarrow> 'w worker_ops \<Rightarrow> cmdOptions \<Rightarrow> nat list \<Rightarrow> WorkerPool \<Rightarrow> 'w world \<Rightarrow>
   (error option \<times> WorkerPool \<times> 'w world) outcome" where
  "prepare_loop lib W cmdOpts [] sw g = Ret (None, sw, g)"
| "prepare_loop lib W cmdOpts (i # is) sw g =
     (let name = workerName (poolName sw) i
      in if name \<in> set (keys (workers sw)) then
           Ret (Some (Errorw (CommonErr ErrDuplicateMapEntry)
             ('': collision at worker pool '' @ poolName sw @ '' with worker '' @ name)), sw, g)
         else
           obind (prepareWorkerInternal lib W cmdOpts name 0 (assign_port name i sw) g)
             (\<lambda>(sw2, g2). prepare_loop lib W cmdOpts is sw2 (upd_mets (init_counters (poolName sw2)) g2)))"

definition PoolPrepareWorkers ::
  "golib \<Rightarrow> 'w worker_ops \<Rightarrow> cmdOptions \<Rightarrow> WorkerPool \<Rightarrow> 'w world \<Rightarrow>
   (error option \<times> WorkerPool \<times> 'w world) outcome" where
  "PoolPrepareWorkers lib W cmdOpts sw g =
     obind (prepare_loop lib W cmdOpts [0..<nat (replicas sw)] (sw\<lparr>pstate := Prepared\<rparr>) g)
       (\<lambda>(err, sw1, g1).
          if err \<noteq> None then Ret (err, sw1, g1)
          else if sInfo sw1 \<noteq> None
          then prepareProxy lib W \<lparr>Buffered = False, Streaming = False\<rparr> sw1 g1
          else Ret (None, sw1, g1))"

definition HasProxy :: "WorkerPool \<Rightarrow> bool" where
  "HasProxy sw \<longleftrightarrow> sInfo sw \<noteq> None"

definition worker_status :: "'w worker_ops \<Rightarrow> 'w world \<Rightarrow> addr \<Rightarrow> ProcessStatus option" where
  "worker_status W g a = map_option (w_Status W) (heap g a)"

definition RunningCount :: "'w worker_ops \<Rightarrow> WorkerPool \<Rightarrow> 'w world \<Rightarrow> int" where
  "RunningCount W sw g =
     fold (\<lambda>kv t. if worker_status W g (snd kv) = Some Running then t + 1 else t) (workers sw) 0"

definition drain_addr :: "serverInfo \<Rightarrow> string" where
  "drain_addr si = ''http://127.0.0.1:'' @ show_u64 (proxyAdminPort si) @ ''/drain_listeners?graceful''"

text \<open>The request is sent; the caller only logs an error.\<close>

definition proxyDrain :: "golib \<Rightarrow> serverInfo \<Rightarrow> 'w world \<Rightarrow> error option \<times> 'w world" where
  "proxyDrain lib si g = (HttpPost lib (drain_addr si), g\<lparr>posts := posts g @ [drain_addr si]\<rparr>)"

fun terminate_loop ::
  "'w worker_ops \<Rightarrow> WorkerPool \<Rightarrow> string list \<Rightarrow> 'w world \<Rightarrow> 'w world outcome" where
  "terminate_loop W sw [] g = Ret g"
| "terminate_loop W sw (wid # ks) g =
     (if wid \<noteq> ProxyId then
        obind (deref (map_of (workers sw) wid))
          (\<lambda>a. obind (on_worker (w_Terminate W (signalTimeout (startup sw))) a g)
                 (terminate_loop W sw ks))
      else terminate_loop W sw ks g)"

definition InterruptAll ::
  "golib \<Rightarrow> 'w worker_ops \<Rightarrow> string list \<Rightarrow> WorkerPool \<Rightarrow> 'w world \<Rightarrow> (WorkerPool \<times> 'w world) outcome" where
  "InterruptAll lib W ks sw g =
     (let sw1 = sw\<lparr>pstate := Draining\<rparr>;
          g1 = (case sInfo sw1 of None \<Rightarrow> g | Some si \<Rightarrow> snd (proxyDrain lib si g))
      in obind (terminate_loop W sw1 ks g1) (\<lambda>g2. Ret (sw1, g2)))"

fun run_loop ::
  "'w worker_ops \<Rightarrow> WorkerPool \<Rightarrow> string list \<Rightarrow> 'w world \<Rightarrow> 'w world outcome" where
  "run_loop W sw [] g = Ret g"
| "run_loop W sw (wid # ks) g =
     obind (deref (map_of (workers sw) wid))
       (\<lambda>a. obind (on_worker (w_Run W) a g)
              (\<lambda>g1. run_loop W sw ks (upd_mets (AddRunningStats (poolName sw) 1) g1)))"

definition RunAll ::
  "'w worker_ops \<Rightarrow> string list \<Rightarrow> WorkerPool \<Rightarrow> 'w world \<Rightarrow> (WorkerPool \<times> 'w world) outcome" where
  "RunAll W ks sw g = obind (run_loop W sw ks g) (\<lambda>g1. Ret (sw, g1))"

definition count_restart :: "string \<Rightarrow> string \<Rightarrow> metrics \<Rightarrow> metrics" where
  "count_restart pool wType m = m\<lparr>restartsCounter := vec_add (pool, wType) 1 (restartsCounter m)\<rparr>"

definition RestartWorker ::
  "golib \<Rightarrow> 'w worker_ops \<Rightarrow> cmdOptions \<Rightarrow> string \<Rightarrow> WorkerPool \<Rightarrow> 'w world \<Rightarrow>
   (error option \<times> WorkerPool \<times> 'w world) outcome" where
  "RestartWorker lib W cmdOpts wid sw g =
     (if pstate sw = Draining \<or> pstate sw = Stopped then Ret (None, sw, g)
      else
        obind (deref (map_of (workers sw) wid))
          (\<lambda>a0. obind (deref (heap g a0))
            (\<lambda>w0.
               let restarts = wrap64 (w_Restarts W w0 + 1)
               in obind
                    (if wid = ProxyId then prepareProxy lib W cmdOpts sw g
                     else if restarts > maxRestarts (startup sw) then
                       Ret (Some (Errorw TooManyRestarts
                         ('': too many restarts in worker pool '' @ poolName sw)), sw, g)
                     else obind (prepareWorkerInternal lib W cmdOpts wid restarts sw g)
                            (\<lambda>(sw1, g1). Ret (None, sw1, g1)))
                    (\<lambda>(err, sw1, g1).
                       if err \<noteq> None then Ret (err, sw1, g1)
                       else
                         let g2 = upd_mets (count_restart (poolName sw1)
                                    (if wid = ProxyId then ''proxy'' else ''worker'')) g1
                         in obind (deref (map_of (workers sw1) wid))
                              (\<lambda>a. obind (on_worker (w_Run W) a g2)
                                     (\<lambda>g3. Ret (None, sw1, g3)))))))"

definition WaitForWorkerToCleanBuffer ::
  "'w worker_ops \<Rightarrow> string \<Rightarrow> WorkerPool \<Rightarrow> 'w world \<Rightarrow> error option outcome" where
  "WaitForWorkerToCleanBuffer W wid sw g =
     obind (deref (map_of (workers sw) wid))
       (\<lambda>a. obind (deref (heap g a)) (w_WaitForWorkerToCleanBuffer W))"

definition InterruptWorker ::
  "'w worker_ops \<Rightarrow> string \<Rightarrow> WorkerPool \<Rightarrow> 'w world \<Rightarrow> (WorkerPool \<times> 'w world) outcome" where
  "InterruptWorker W wid sw g =
     obind (deref (map_of (workers sw) wid))
       (\<lambda>a. obind (on_worker (w_Terminate W (signalTimeout (startup sw))) a g) (\<lambda>g1. Ret (sw, g1)))"

definition count_sigkill :: "string \<Rightarrow> metrics \<Rightarrow> metrics" where
  "count_sigkill pool m = m\<lparr>sigkillCounter := vec_add pool 1 (sigkillCounter m)\<rparr>"

definition ForceTerminateWorker ::
  "'w worker_ops \<Rightarrow> string \<Rightarrow> WorkerPool \<Rightarrow> 'w world \<Rightarrow> (WorkerPool \<times> 'w world) outcome" where
  "ForceTerminateWorker W wid sw g =
     obind (deref (map_of (workers sw) wid))
       (\<lambda>a. obind (on_worker (w_ForceTerminateWorker W) a (upd_mets (count_sigkill (poolName sw)) g))
              (\<lambda>g1. Ret (sw, g1)))"

definition PoolTerminated :: "'w worker_ops \<Rightarrow> WorkerPool \<Rightarrow> 'w world \<Rightarrow> bool" where
  "PoolTerminated W sw g \<longleftrightarrow>
     list_all (\<lambda>kv. worker_status W g (snd kv) = Some Terminated) (workers sw)"

definition Len :: "WorkerPool \<Rightarrow> int" where
  "Len sw = replicas sw"

definition Name :: "WorkerPool \<Rightarrow> string" where
  "Name sw = poolName sw"

text \<open>
  \<open>int((float32(running) / float32(len)) * 100)\<close> in single precision. With no workers the
  quotient is NaN, which converts to the smallest integer on amd64.
\<close>

definition health_percentage :: "int \<Rightarrow> int \<Rightarrow> int" where
  "health_percentage running n =
     (if n = 0 then - (2 ^ 63)
      else int_of_float (fl 24 (fl 24 (fl 24 (of_int running) / fl 24 (of_int n)) * 100)))"

definition IsHealthy :: "'w worker_ops \<Rightarrow> WorkerPool \<Rightarrow> 'w world \<Rightarrow> bool" where
  "IsHealthy W sw g \<longleftrightarrow>
     desiredHealthPcnt sw \<le> health_percentage (RunningCount W sw g) (int (length (workers sw)))"

end
