(* ===== verification/Real_Worker.thy ===== *)
theory Real_Worker
  imports Worker_Interface
begin

text \<open>
  \<open>internal/worker/worker_real.go\<close>: a worker around an operating-system process. The
  process is driven through go-cmd, which is not part of the repository: its operations are
  the argument \<open>G\<close> and its documented behaviour the predicate \<open>gocmd_laws\<close>. The
  environment of the controller and the result of registering the process collector with
  Prometheus are the arguments \<open>Environ\<close> and \<open>Register\<close>.
\<close>

datatype stop_result = StopOk | StopErrNotStarted | StopErr string

record 'c gocmd =
  NewCmdOptions :: "cmdOptions \<Rightarrow> string \<Rightarrow> string list \<Rightarrow> string list \<Rightarrow> 'c"
  cmdStart :: "'c \<Rightarrow> 'c"
  cmdStop :: "'c \<Rightarrow> stop_result \<times> 'c"
  cmdStatusOf :: "'c \<Rightarrow> cmdStatus"
  cmdRecv :: "'c \<Rightarrow> (cmdStatus \<times> 'c) option"

datatype reg_result = Registered | AlreadyRegistered | RegisterFailed string

record 'c realProcessWorker =
  rw_name :: string
  rw_poolName :: string
  rw_cmd :: 'c
  rw_restarts :: int
  rw_memory :: "TimeLimiter option"
  rw_lifespan :: "TimeLimiter option"
  rw_cancelled :: bool
  rw_pidCollector :: bool
  rw_isStreamingLogs :: bool
  rw_stdStreamClosed :: bool

definition worker_env :: "string list \<Rightarrow> WorkerIntConfig \<Rightarrow> string list" where
  "worker_env Environ wconf =
     Environ @ [''MULTIPROCESS_WORKER_ID='' @ wi_poolName wconf @ ''_'' @ wi_name wconf]"

text \<open>
  The registration branch tests \<open>!errors.As(err, are)\<close>: an error that is not an
  \<open>AlreadyRegisteredError\<close> is logged, an \<open>AlreadyRegisteredError\<close> panics.
\<close>

definition newWorkerInstance ::
  "'c gocmd \<Rightarrow> string list \<Rightarrow> (string \<Rightarrow> string \<Rightarrow> reg_result) \<Rightarrow> WorkerIntConfig \<Rightarrow>
   'c realProcessWorker outcome" where
  "newWorkerInstance G Environ Register wconf =
     (let rv = \<lparr>rw_name = wi_name wconf, rw_poolName = wi_poolName wconf,
                rw_cmd = NewCmdOptions G (wi_opt wconf) (wi_execName wconf) (wi_args wconf)
                           (worker_env Environ wconf),
                rw_restarts = wi_restarts wconf, rw_memory = wi_memory wconf,
                rw_lifespan = wi_lifespan wconf, rw_cancelled = False,
                rw_pidCollector = wi_collectProcessMetrics wconf,
                rw_isStreamingLogs = Streaming (wi_opt wconf), rw_stdStreamClosed = False\<rparr>
      in if wi_collectProcessMetrics wconf then
           (case Register (wi_poolName wconf) (wi_name wconf) of
              Registered \<Rightarrow> Ret rv
            | RegisterFailed _ \<Rightarrow> Ret rv
            | AlreadyRegistered \<Rightarrow> Panic ''duplicate metrics collector registration attempted'')
         else Ret rv)"

definition NewProdWorker ::
  "'c gocmd \<Rightarrow> string list \<Rightarrow> (string \<Rightarrow> string \<Rightarrow> reg_result) \<Rightarrow> WorkerIntConfig \<Rightarrow>
   'c realProcessWorker outcome" where
  "NewProdWorker G Environ Register wconf = newWorkerInstance G Environ Register wconf"

definition Status_r :: "'c gocmd \<Rightarrow> 'c realProcessWorker \<Rightarrow> ProcessStatus" where
  "Status_r G w =
     (if Complete (cmdStatusOf G (rw_cmd w)) \<or> 0 < StopTs (cmdStatusOf G (rw_cmd w)) then Terminated
      else if PID (cmdStatusOf G (rw_cmd w)) \<noteq> 0 then Running
      else PrepareWorkers)"

definition Restarts_r :: "'c realProcessWorker \<Rightarrow> int" where
  "Restarts_r w = rw_restarts w"

definition Run_r :: "'c gocmd \<Rightarrow> addr \<Rightarrow> 'c realProcessWorker \<Rightarrow> 'c realProcessWorker \<times> effect list" where
  "Run_r G a w =
     (w\<lparr>rw_cmd := cmdStart G (rw_cmd w)\<rparr>,
      [Go (WatchExit a)] @
      (if rw_memory w \<noteq> None then [Go (RunMonitor MemoryLim a)] else []) @
      (if rw_lifespan w \<noteq> None then [Go (RunMonitor LifespanLim a)] else []))"

definition Terminate_r ::
  "'c gocmd \<Rightarrow> duration \<Rightarrow> addr \<Rightarrow> 'c realProcessWorker \<Rightarrow> 'c realProcessWorker \<times> effect list" where
  "Terminate_r G timeout a w =
     (if Status_r G w = Terminated then (w, [])
      else
        let w1 = w\<lparr>rw_cancelled := True, rw_cmd := snd (cmdStop G (rw_cmd w))\<rparr>
        in if fst (cmdStop G (rw_cmd w)) = StopErrNotStarted then
             (w1, [Go (SendEvent (mk_event ProcessNeedsInterrupt ProcessHasNotStartedYet
                                    (rw_name w) (rw_poolName w) None))])
           else (w1, [Go (TermTimer a)]))"

text \<open>
  The closure of \<open>Terminate\<close> once its timer has expired: it sends unless the worker it
  was started for has terminated by then.
\<close>

definition term_timer_fires :: "'c gocmd \<Rightarrow> 'c realProcessWorker \<Rightarrow> SupervisorEvent option" where
  "term_timer_fires G w =
     (if Status_r G w \<noteq> Terminated
      then Some (mk_event ProcessNeedsTermination ProcessExited (rw_name w) (rw_poolName w) None)
      else None)"

text \<open>
  One round of the loop of \<open>sendUpdatesToAggrChannel\<close>: a status received from go-cmd is
  forwarded as \<open>ProcessEnd\<close>.
\<close>

definition sendUpdatesToAggrChannel ::
  "'c gocmd \<Rightarrow> 'c realProcessWorker \<Rightarrow> ('c realProcessWorker \<times> SupervisorEvent) option" where
  "sendUpdatesToAggrChannel G w =
     (case cmdRecv G (rw_cmd w) of
        None \<Rightarrow> None
      | Some (msg, c') \<Rightarrow>
          Some (w\<lparr>rw_cmd := c'\<rparr>,
                mk_event ProcessEnd ProcessExited (rw_name w) (rw_poolName w) (Some msg)))"

definition WaitForWorkerToCleanBuffer_r ::
  "'c gocmd \<Rightarrow> 'c realProcessWorker \<Rightarrow> error option outcome" where
  "WaitForWorkerToCleanBuffer_r G w =
     (if Status_r G w \<noteq> Terminated then
        Ret (Some (Errorw (CommonErr ErrInvalidState)
          ('': cannot wait for worker to clean buffer if worker is at state '' @
             showInt (ProcessStatus_int (Status_r G w)) @ '' '')))
      else if \<not> rw_isStreamingLogs w then Ret None
      else if rw_stdStreamClosed w then Ret None
      else Block)"

definition ForceTerminateWorker_r ::
  "'c gocmd \<Rightarrow> addr \<Rightarrow> 'c realProcessWorker \<Rightarrow> 'c realProcessWorker \<times> effect list" where
  "ForceTerminateWorker_r G a w = (w, [Kill (- PID (cmdStatusOf G (rw_cmd w)))])"

definition PidFn :: "'c gocmd \<Rightarrow> 'c realProcessWorker \<Rightarrow> error + int" where
  "PidFn G w =
     (let pid = PID (cmdStatusOf G (rw_cmd w))
      in if pid = 0 then Inl (Errorf ''worker not running'') else Inr pid)"

definition real_ops ::
  "'c gocmd \<Rightarrow> string list \<Rightarrow> (string \<Rightarrow> string \<Rightarrow> reg_result) \<Rightarrow> 'c realProcessWorker worker_ops" where
  "real_ops G Environ Register =
     \<lparr>factory = NewProdWorker G Environ Register, w_Run = Run_r G, w_Terminate = Terminate_r G,
      w_ForceTerminateWorker = ForceTerminateWorker_r G,
      w_WaitForWorkerToCleanBuffer = WaitForWorkerToCleanBuffer_r G,
      w_Status = Status_r G, w_Restarts = Restarts_r\<rparr>"

subsection \<open>What go-cmd documents\<close>

text \<open>
  A command that has not been started has no PID, is not complete and has no stop time, and
  starting and stopping act on the status only as documented: \<open>Stop\<close> of a command that
  is not started yet returns \<open>ErrNotStarted\<close>, a command that is finished stays finished,
  and one final status is delivered, after the command has finished.
\<close>

definition cmd_done :: "'c gocmd \<Rightarrow> 'c \<Rightarrow> bool" where
  "cmd_done G c \<longleftrightarrow> Complete (cmdStatusOf G c) \<or> 0 < StopTs (cmdStatusOf G c)"

definition gocmd_new_law :: "'c gocmd \<Rightarrow> bool" where
  "gocmd_new_law G \<longleftrightarrow>
     (\<forall>opt name args env.
        \<not> cmd_done G (NewCmdOptions G opt name args env) \<and>
        PID (cmdStatusOf G (NewCmdOptions G opt name args env)) = 0)"

lemma Status_r_Terminated: "Status_r G w = Terminated \<longleftrightarrow> cmd_done G (rw_cmd w)"
  by (simp add: Status_r_def cmd_done_def)

lemma newWorkerInstance_Ret:
  "newWorkerInstance G E R c = Ret w \<Longrightarrow>
     rw_name w = wi_name c \<and> rw_poolName w = wi_poolName c \<and> rw_restarts w = wi_restarts c \<and>
     rw_cmd w = NewCmdOptions G (wi_opt c) (wi_execName c) (wi_args c) (worker_env E c) \<and>
     \<not> rw_cancelled w \<and> rw_lifespan w = wi_lifespan c \<and> rw_memory w = wi_memory c \<and>
     rw_isStreamingLogs w = Streaming (wi_opt c) \<and> \<not> rw_stdStreamClosed w"
  by (auto simp: newWorkerInstance_def Let_def split: if_splits reg_result.splits)

lemmas real_worker_defs =
  real_ops_def NewProdWorker_def Run_r_def Terminate_r_def ForceTerminateWorker_r_def Restarts_r_def

interpretation real: worker_contract "real_ops G Environ Register" rw_name rw_poolName
  for G :: "'c gocmd" and Environ Register
  by unfold_locales
    (auto simp: real_worker_defs Let_def dest!: newWorkerInstance_Ret split: if_splits)

end
