(* ===== verification/Memory_Worker.thy ===== *)
theory Memory_Worker
  imports Worker_Interface
begin

text \<open>
  \<open>internal/worker/worker_memory.go\<close>: the worker of the test suite, which emulates a
  process with timers, and the factories of \<open>internal/worker/test_utils.go\<close>. The mutex
  protects one field, so every method is one step.
\<close>

record InMemoryWorker =
  im_Name :: string
  im_PoolName :: string
  im_cancelled :: bool
  im_status :: ProcessStatus
  RestartsCounter :: int
  ExitAfter :: duration
  ExitCode :: int
  LogText :: string
  LogInterval :: duration
  LogError :: bool
  IgnoreTerm :: bool
  im_Memory :: "TimeLimiter option"
  im_Lifespan :: "TimeLimiter option"

definition NewInMemoryWorker ::
  "string \<Rightarrow> string \<Rightarrow> duration \<Rightarrow> int \<Rightarrow> duration \<Rightarrow> InMemoryWorker" where
  "NewInMemoryWorker name pool e c interval =
     \<lparr>im_Name = name, im_PoolName = pool, im_cancelled = False, im_status = PrepareWorkers,
      RestartsCounter = 0, ExitAfter = e, ExitCode = c, LogText = ''log'', LogInterval = interval,
      LogError = False, IgnoreTerm = False, im_Memory = None, im_Lifespan = None\<rparr>"

definition Status_m :: "InMemoryWorker \<Rightarrow> ProcessStatus" where
  "Status_m w = im_status w"

definition setStatus :: "ProcessStatus \<Rightarrow> InMemoryWorker \<Rightarrow> InMemoryWorker" where
  "setStatus st w = w\<lparr>im_status := st\<rparr>"

definition end_event :: "InMemoryWorker \<Rightarrow> SupervisorEvent" where
  "end_event w =
     mk_event ProcessEnd ProcessExited (im_Name w) (im_PoolName w)
       (Some \<lparr>cs_Cmd = ''Dummy name'', PID = 42, Complete = True, Exit = ExitCode w, StopTs = 0\<rparr>)"

definition Run_m :: "addr \<Rightarrow> InMemoryWorker \<Rightarrow> InMemoryWorker \<times> effect list" where
  "Run_m a w =
     (setStatus Running w,
      (if im_Memory w \<noteq> None then [Go (RunMonitor MemoryLim a)] else []) @
      (if im_Lifespan w \<noteq> None then [Go (RunMonitor LifespanLim a)] else []) @
      (if ExitAfter w \<noteq> 0 then [Go (ExitTimer a)] else []))"

text \<open>The closure of \<open>Run\<close> once \<open>ExitAfter\<close> has passed.\<close>

definition exit_timer_fires :: "InMemoryWorker \<Rightarrow> InMemoryWorker \<times> SupervisorEvent" where
  "exit_timer_fires w = (setStatus Terminated w, end_event w)"

definition Terminate_m :: "duration \<Rightarrow> addr \<Rightarrow> InMemoryWorker \<Rightarrow> InMemoryWorker \<times> effect list" where
  "Terminate_m timeout a w =
     (let w1 = w\<lparr>im_cancelled := True\<rparr>
      in if IgnoreTerm w1 then (setStatus Terminating w1, [Go (TermTimer a)])
         else (setStatus Terminated w1, [Go (SendEvent (end_event w1))]))"

definition term_timer_fires_m :: "InMemoryWorker \<Rightarrow> SupervisorEvent option" where
  "term_timer_fires_m w =
     (if Status_m w \<noteq> Terminated
      then Some (mk_event ProcessNeedsTermination ProcessExited (im_Name w) (im_PoolName w) None)
      else None)"

definition WaitForWorkerToCleanBuffer_m :: "InMemoryWorker \<Rightarrow> error option outcome" where
  "WaitForWorkerToCleanBuffer_m w = Ret None"

definition Restarts_m :: "InMemoryWorker \<Rightarrow> int" where
  "Restarts_m w = RestartsCounter w"

definition ForceTerminateWorker_m :: "addr \<Rightarrow> InMemoryWorker \<Rightarrow> InMemoryWorker \<times> effect list" where
  "ForceTerminateWorker_m a w = (setStatus Terminated w, [Go (SendEvent (end_event w))])"

subsection \<open>The factories of the tests\<close>

definition conf_worker :: "WorkerIntConfig \<Rightarrow> InMemoryWorker \<Rightarrow> InMemoryWorker" where
  "conf_worker wconf wk =
     wk\<lparr>im_Lifespan := wi_lifespan wconf, im_Memory := wi_memory wconf,
        RestartsCounter := wi_restarts wconf\<rparr>"

definition LongRunningMemoryWorker :: "WorkerIntConfig \<Rightarrow> InMemoryWorker" where
  "LongRunningMemoryWorker wconf =
     conf_worker wconf (NewInMemoryWorker (wi_name wconf) (wi_poolName wconf) (30 * Second) 0 (30 * Second))"

definition ShortRunningMemoryWorker :: "WorkerIntConfig \<Rightarrow> InMemoryWorker" where
  "ShortRunningMemoryWorker wconf =
     conf_worker wconf (NewInMemoryWorker (wi_name wconf) (wi_poolName wconf) (100 * Millisecond) 0 (30 * Second))"

definition MediumRunningMemoryWorker :: "WorkerIntConfig \<Rightarrow> InMemoryWorker" where
  "MediumRunningMemoryWorker wconf =
     conf_worker wconf (NewInMemoryWorker (wi_name wconf) (wi_poolName wconf) (10 * Second) 0 (30 * Second))"

definition IgnoresInterruptMemoryWorker :: "WorkerIntConfig \<Rightarrow> InMemoryWorker" where
  "IgnoresInterruptMemoryWorker wconf =
     (conf_worker wconf
        (NewInMemoryWorker (wi_name wconf) (wi_poolName wconf) (30 * Second) 0 (30 * Second)))
       \<lparr>IgnoreTerm := True\<rparr>"

definition mem_ops :: "(WorkerIntConfig \<Rightarrow> InMemoryWorker) \<Rightarrow> InMemoryWorker worker_ops" where
  "mem_ops f =
     \<lparr>factory = (\<lambda>c. Ret (f c)), w_Run = Run_m, w_Terminate = Terminate_m,
      w_ForceTerminateWorker = ForceTerminateWorker_m,
      w_WaitForWorkerToCleanBuffer = WaitForWorkerToCleanBuffer_m,
      w_Status = Status_m, w_Restarts = Restarts_m\<rparr>"

lemmas mem_worker_defs =
  mem_ops_def Run_m_def Terminate_m_def ForceTerminateWorker_m_def Restarts_m_def Status_m_def
  setStatus_def end_event_def

lemmas mem_factory_defs =
  LongRunningMemoryWorker_def ShortRunningMemoryWorker_def MediumRunningMemoryWorker_def
  IgnoresInterruptMemoryWorker_def conf_worker_def NewInMemoryWorker_def

interpretation mem_long: worker_contract "mem_ops LongRunningMemoryWorker" im_Name im_PoolName
  by unfold_locales (auto simp: mem_worker_defs mem_factory_defs Let_def split: if_splits)

interpretation mem_short: worker_contract "mem_ops ShortRunningMemoryWorker" im_Name im_PoolName
  by unfold_locales (auto simp: mem_worker_defs mem_factory_defs Let_def split: if_splits)

interpretation mem_medium: worker_contract "mem_ops MediumRunningMemoryWorker" im_Name im_PoolName
  by unfold_locales (auto simp: mem_worker_defs mem_factory_defs Let_def split: if_splits)

interpretation mem_stubborn: worker_contract "mem_ops IgnoresInterruptMemoryWorker" im_Name im_PoolName
  by unfold_locales (auto simp: mem_worker_defs mem_factory_defs Let_def split: if_splits)

end
