(* ===== verification/Pool_Invariant.thy ===== *)
theory Pool_Invariant
  imports Worker_Pool Real_Worker Memory_Worker
begin

text \<open>
  The well-formedness invariant of a pool and its preservation by every operation, proved
  once for every implementation of the worker interface (inside \<open>worker_contract\<close>) and
  inherited by the operating-system worker and the in-memory workers. Identity, pool and
  restart count of a heap object never change (\<open>evolves\<close>), so an operation on one pool
  keeps the invariant of every other pool that shares the heap.
\<close>

subsection \<open>Worker names\<close>

lemma workerName_inject [simp]: "workerName p i = workerName q j \<longleftrightarrow> p = q \<and> i = j"
proof
  assume eq: "workerName p i = workerName q j"
  have nodash: "CHR ''-'' \<notin> set (showNat n)" for n
    using set_showNat [of n] by auto
  have "rev (showNat i) @ CHR ''-'' # rev p = rev (showNat j) @ CHR ''-'' # rev q"
    using arg_cong [OF eq, of rev] by (simp add: workerName_def)
  then have "rev (showNat i) = rev (showNat j) \<and> rev p = rev q"
    using nodash by (subst (asm) append_Cons_cut) simp_all
  then show "p = q \<and> i = j" by simp
qed simp

lemma workerName_not_proxy [simp]: "workerName p i \<noteq> ProxyId" "ProxyId \<noteq> workerName p i"
proof -
  have "last (workerName p i) \<in> set ''0123456789''"
    using last_showNat [of i] by (simp add: workerName_def)
  moreover have "last ProxyId \<notin> set ''0123456789''" by (simp add: ProxyId_def)
  ultimately show "workerName p i \<noteq> ProxyId" by metis
  then show "ProxyId \<noteq> workerName p i" by metis
qed

subsection \<open>How worlds evolve\<close>

definition same_worker :: "'w worker_ops \<Rightarrow> ('w \<Rightarrow> string) \<Rightarrow> ('w \<Rightarrow> string) \<Rightarrow> 'w \<Rightarrow> 'w \<Rightarrow> bool" where
  "same_worker W wid wpool w w' \<longleftrightarrow>
     w_Restarts W w' = w_Restarts W w \<and> wid w' = wid w \<and> wpool w' = wpool w"

definition evolves ::
  "'w worker_ops \<Rightarrow> ('w \<Rightarrow> string) \<Rightarrow> ('w \<Rightarrow> string) \<Rightarrow> 'w world \<Rightarrow> 'w world \<Rightarrow> bool" where
  "evolves W wid wpool g g' \<longleftrightarrow>
     nextAddr g \<le> nextAddr g' \<and>
     (\<forall>a w. a < nextAddr g \<longrightarrow> heap g a = Some w \<longrightarrow>
        (\<exists>w'. heap g' a = Some w' \<and> same_worker W wid wpool w w'))"

definition entry_ok :: "'w worker_ops \<Rightarrow> ('w \<Rightarrow> string) \<Rightarrow> ('w \<Rightarrow> string) \<Rightarrow> WorkerPool \<Rightarrow> string \<Rightarrow> 'w \<Rightarrow> bool" where
  "entry_ok W wid wpool sw k w \<longleftrightarrow>
     wid w = k \<and> wpool w = poolName sw \<and> (maxRestarts (startup sw) < MaxInt \<longrightarrow> 0 \<le> w_Restarts W w) \<and>
     (if k = ProxyId then w_Restarts W w = 0 else w_Restarts W w \<le> maxRestarts (startup sw))"

text \<open>
  With an unlimited budget (\<open>MaxInt\<close>) the restart count may wrap after \<open>2 ^ 63\<close>
  restarts, so its sign is only claimed for a finite budget.

  The invariant: keys are distinct, no two keys share an object, every entry is a worker of
  this pool under its own name whose restart count is within the budget, and only a pool
  with a proxy has the proxy's entry.
\<close>

definition pool_inv ::
  "'w worker_ops \<Rightarrow> ('w \<Rightarrow> string) \<Rightarrow> ('w \<Rightarrow> string) \<Rightarrow> WorkerPool \<Rightarrow> 'w world \<Rightarrow> bool" where
  "pool_inv W wid wpool sw g \<longleftrightarrow>
     distinct (keys (workers sw)) \<and>
     (\<forall>k k' a. map_of (workers sw) k = Some a \<longrightarrow> map_of (workers sw) k' = Some a \<longrightarrow> k = k') \<and>
     (\<forall>k a. map_of (workers sw) k = Some a \<longrightarrow>
        a < nextAddr g \<and> (\<exists>w. heap g a = Some w \<and> entry_ok W wid wpool sw k w)) \<and>
     (ProxyId \<in> set (keys (workers sw)) \<longrightarrow> HasProxy sw) \<and>
     0 \<le> maxRestarts (startup sw) \<and> maxRestarts (startup sw) \<le> MaxInt"

lemma HasProxy_upd [simp]:
  "HasProxy (sw\<lparr>workers := ws\<rparr>) = HasProxy sw" "HasProxy (sw\<lparr>pstate := st\<rparr>) = HasProxy sw"
  by (simp_all add: HasProxy_def)

lemma same_worker_refl [simp]: "same_worker W wid wpool w w"
  by (simp add: same_worker_def)

lemma same_worker_trans:
  "same_worker W wid wpool w w1 \<Longrightarrow> same_worker W wid wpool w1 w2 \<Longrightarrow> same_worker W wid wpool w w2"
  by (simp add: same_worker_def)

lemma evolves_refl [simp]: "evolves W wid wpool g g"
  by (auto simp: evolves_def)

lemma evolves_at:
  "evolves W wid wpool g g' \<Longrightarrow> a < nextAddr g \<Longrightarrow> heap g a = Some w \<Longrightarrow>
   a < nextAddr g' \<and> (\<exists>w'. heap g' a = Some w' \<and> same_worker W wid wpool w w')"
  unfolding evolves_def by (simp add: order.strict_trans2)

lemma evolves_trans [trans]:
  assumes "evolves W wid wpool g g1" and "evolves W wid wpool g1 g2"
  shows "evolves W wid wpool g g2"
proof -
  have "\<exists>w2. heap g2 a = Some w2 \<and> same_worker W wid wpool w w2"
    if a: "a < nextAddr g" "heap g a = Some w" for a w
  proof -
    from evolves_at [OF assms(1) a] obtain w1 where
      w1: "a < nextAddr g1" "heap g1 a = Some w1" "same_worker W wid wpool w w1" by auto
    from evolves_at [OF assms(2) w1(1,2)] obtain w2 where
      "heap g2 a = Some w2" "same_worker W wid wpool w1 w2" by auto
    with w1(3) show ?thesis by (auto intro: same_worker_trans)
  qed
  moreover have "nextAddr g \<le> nextAddr g2" using assms by (simp add: evolves_def)
  ultimately show ?thesis by (simp add: evolves_def)
qed

lemma evolves_same_heap:
  "heap g' = heap g \<Longrightarrow> nextAddr g' = nextAddr g \<Longrightarrow> evolves W wid wpool g g'"
  by (auto simp: evolves_def)

lemma evolves_alloc:
  "heap g' = (heap g)(nextAddr g \<mapsto> w) \<Longrightarrow> nextAddr g' = Suc (nextAddr g) \<Longrightarrow>
   evolves W wid wpool g g'"
  by (auto simp: evolves_def)

lemma evolves_on_worker:
  assumes "on_worker f a g = Ret g'" and "\<And>w. same_worker W wid wpool w (fst (f a w))"
  shows "evolves W wid wpool g g'"
  using assms by (auto simp: evolves_def on_worker_eq_Ret)

lemma entry_ok_workers [simp]:
  "entry_ok W wid wpool (sw\<lparr>workers := x\<rparr>) k w = entry_ok W wid wpool sw k w"
  by (simp add: entry_ok_def)

lemma entry_ok_same:
  "entry_ok W wid wpool sw k w \<Longrightarrow> same_worker W wid wpool w w' \<Longrightarrow> entry_ok W wid wpool sw k w'"
  by (simp add: entry_ok_def same_worker_def)

lemma pool_inv_evolves:
  assumes "pool_inv W wid wpool sw g" and "evolves W wid wpool g g'"
  shows "pool_inv W wid wpool sw g'"
proof -
  have "a < nextAddr g' \<and> (\<exists>w. heap g' a = Some w \<and> entry_ok W wid wpool sw k w)"
    if "map_of (workers sw) k = Some a" for k a
  proof -
    from assms(1) that obtain w where "a < nextAddr g" "heap g a = Some w" "entry_ok W wid wpool sw k w"
      unfolding pool_inv_def by blast
    with evolves_at [OF assms(2)] show ?thesis by (blast intro: entry_ok_same)
  qed
  with assms(1) show ?thesis unfolding pool_inv_def by simp
qed

lemma pool_inv_pool_cong:
  assumes "workers sw' = workers sw" "poolName sw' = poolName sw"
    and "maxRestarts (startup sw') = maxRestarts (startup sw)" "HasProxy sw' = HasProxy sw"
  shows "pool_inv W wid wpool sw' g = pool_inv W wid wpool sw g"
  using assms by (simp add: pool_inv_def entry_ok_def)

lemma pool_inv_lookup:
  "pool_inv W wid wpool sw g \<Longrightarrow> k \<in> set (keys (workers sw)) \<Longrightarrow>
   \<exists>a w. map_of (workers sw) k = Some a \<and> heap g a = Some w \<and> entry_ok W wid wpool sw k w"
  unfolding pool_inv_def in_keys_map_of by meson

text \<open>A fresh object under a name, as \<open>prepareWorkerInternal\<close> and \<open>prepareProxy\<close> install it.\<close>

lemma pool_inv_install:
  assumes inv: "pool_inv W wid wpool sw g"
    and h: "heap g' = (heap g)(nextAddr g \<mapsto> w)" "nextAddr g' = Suc (nextAddr g)"
    and ok: "entry_ok W wid wpool sw k w" and px: "k = ProxyId \<longrightarrow> HasProxy sw"
  shows "pool_inv W wid wpool (sw\<lparr>workers := AList.update k (nextAddr g) (workers sw)\<rparr>) g'"
proof -
  have old: "a < nextAddr g" if "map_of (workers sw) k' = Some a" for k' a
    using inv that by (simp add: pool_inv_def)
  then have "map_of (workers sw) k' \<noteq> Some (nextAddr g)" for k' by fastforce
  with inv h ok px show ?thesis
    by (simp add: pool_inv_def HasProxy_def less_Suc_eq) (metis (no_types))
qed

text \<open>What installing a fresh worker \<open>w\<close> under \<open>k\<close> does to pool and world.\<close>

definition installs ::
  "'w worker_ops \<Rightarrow> ('w \<Rightarrow> string) \<Rightarrow> ('w \<Rightarrow> string) \<Rightarrow> string \<Rightarrow> int \<Rightarrow> 'w \<Rightarrow> WorkerPool \<Rightarrow> 'w world \<Rightarrow>
   WorkerPool \<Rightarrow> 'w world \<Rightarrow> bool" where
  "installs W wid wpool k n w sw g sw' g' \<longleftrightarrow>
     sw' = sw\<lparr>workers := AList.update k (nextAddr g) (workers sw)\<rparr> \<and>
     heap g' = (heap g)(nextAddr g \<mapsto> w) \<and> nextAddr g' = Suc (nextAddr g) \<and>
     gos g' = gos g @ [StreamLogsLoop (nextAddr g)] \<and> gauge (mets g') = gauge (mets g) \<and> kills g' = kills g \<and>
     w_Restarts W w = n \<and> wid w = k \<and> wpool w = poolName sw \<and> (\<exists>c. factory W c = Ret w \<and> conf_ok c)"

lemma same_worker_keeps:
  assumes "worker_contract W wid wpool"
  shows "same_worker W wid wpool w (fst (w_Run W a w))"
    and "same_worker W wid wpool w (fst (w_Terminate W d a w))"
    and "same_worker W wid wpool w (fst (w_ForceTerminateWorker W a w))"
  using worker_contract.run_keeps [OF assms] worker_contract.terminate_keeps [OF assms]
    worker_contract.force_keeps [OF assms]
  by (simp_all add: same_worker_def)

context worker_contract
begin

subsection \<open>Installing workers\<close>

lemma installs_alloc:
  assumes "factory W c = Ret w" and "conf_ok c" and "wi_name c = k" "wi_restarts c = n" "wi_poolName c = poolName sw"
    and "heap g0 = heap g" "nextAddr g0 = nextAddr g" "gos g0 = gos g" "kills g0 = kills g"
    and "gauge (mets g0) = gauge (mets g)"
  shows "installs W wid wpool k n w sw g (sw\<lparr>workers := AList.update k (nextAddr g) (workers sw)\<rparr>)
           (spawn (StreamLogsLoop (nextAddr g)) (snd (alloc w g0)))"
  using factory_fresh [OF assms(1)] assms by (auto simp: installs_def alloc_def)

lemma prepareWorkerInternal_spec:
  assumes "prepareWorkerInternal lib W opts k n sw g = Ret (sw', g')"
  shows "\<exists>w. installs W wid wpool k n w sw g sw' g'"
proof -
  from assms obtain portArgs lg w where
    l: "worker_lifespan lib k sw g = Ret lg"
    and w: "factory W (worker_config opts k n sw portArgs (fst lg)) = Ret w"
    and res: "sw' = sw\<lparr>workers := AList.update k (nextAddr (snd lg)) (workers sw)\<rparr>"
      "g' = spawn (StreamLogsLoop (nextAddr (snd lg))) (snd (alloc w (snd lg)))"
    by (auto simp: prepareWorkerInternal_def)
  from l have "heap (snd lg) = heap g \<and> nextAddr (snd lg) = nextAddr g \<and> gos (snd lg) = gos g \<and>
      gauge (mets (snd lg)) = gauge (mets g) \<and> kills (snd lg) = kills g \<and>
      conf_ok (worker_config opts k n sw portArgs (fst lg))"
    by (auto simp: worker_lifespan_def newTimeLimiter_def Let_def worker_config_def conf_ok_def split: if_splits)
  with installs_alloc [OF w, of k n sw "snd lg" g] res show ?thesis by (auto simp: worker_config_def)
qed

lemma prepareProxy_spec:
  assumes "prepareProxy lib W opts sw g = Ret (err, sw', g')"
  shows "HasProxy sw \<and> mets g' = mets g \<and>
         (case err of
            Some e \<Rightarrow> sw' = sw \<and> heap g' = heap g \<and> nextAddr g' = nextAddr g \<and> gos g' = gos g \<and> kills g' = kills g
          | None \<Rightarrow> \<exists>w. installs W wid wpool ProxyId 0 w sw g sw' g')"
proof -
  obtain si where si: "sInfo sw = Some si" using assms by (auto simp: prepareProxy_def)
  let ?c = "\<lparr>PortRange = portRange sw si, co_LoadBalanceAlgorithm = loadBalanceAlgorithm si,
              co_HealthCheckPath = healthCheckPath si\<rparr>"
  obtain e1 g1 where r1: "RenderClustersToWriter lib (envoyGen si) ?c g = (e1, g1)" by fastforce
  obtain e2 g2 where r2: "RenderListenersToWriter lib (envoyGen si) \<lparr>lo_Port = proxyListenerPort si\<rparr> g1 = (e2, g2)"
    by fastforce
  obtain e3 g3 where r3: "RenderBootstrapConfig lib (envoyGen si) \<lparr>bo_Port = proxyAdminPort si\<rparr> g2 = (e3, g3)"
    by fastforce
  note fr = r1 [unfolded render_ops, THEN render_frame] r2 [unfolded render_ops, THEN render_frame]
    r3 [unfolded render_ops, THEN render_frame]
  show ?thesis
  proof (cases "e1 = None \<and> e2 = None \<and> e3 = None")
    case False
    then show ?thesis
      using assms si fr
      by (cases e1; cases e2; cases e3) (auto simp: prepareProxy_def HasProxy_def r1 r2 r3)
  next
    case True
    with assms si obtain w where w: "factory W (proxy_config opts sw si) = Ret w"
      and res: "err = None" "sw' = sw\<lparr>workers := AList.update ProxyId (nextAddr g3) (workers sw)\<rparr>"
        "g' = spawn (StreamLogsLoop (nextAddr g3)) (snd (alloc w g3))"
      by (auto simp: prepareProxy_def r1 r2 r3 alloc_def)
    from installs_alloc [OF w, of ProxyId 0 sw g3 g] fr res si show ?thesis
      by (auto simp: proxy_config_def HasProxy_def alloc_def conf_ok_def)
  qed
qed

lemma prepareWorkerInternal_inv:
  assumes "pool_inv W wid wpool sw g" and "prepareWorkerInternal lib W opts k n sw g = Ret (sw', g')"
    and "k \<noteq> ProxyId" and "maxRestarts (startup sw) < MaxInt \<longrightarrow> 0 \<le> n" and "n \<le> maxRestarts (startup sw)"
  shows "pool_inv W wid wpool sw' g' \<and> evolves W wid wpool g g'"
proof -
  obtain w where w: "sw' = sw\<lparr>workers := AList.update k (nextAddr g) (workers sw)\<rparr>"
    "heap g' = (heap g)(nextAddr g \<mapsto> w)" "nextAddr g' = Suc (nextAddr g)"
    "w_Restarts W w = n" "wid w = k" "wpool w = poolName sw"
    using prepareWorkerInternal_spec [OF assms(2)] unfolding installs_def by blast
  with assms show ?thesis
    by (auto intro!: pool_inv_install evolves_alloc simp: entry_ok_def)
qed

lemma prepareProxy_inv:
  assumes "pool_inv W wid wpool sw g" and "prepareProxy lib W opts sw g = Ret (err, sw', g')"
  shows "pool_inv W wid wpool sw' g' \<and> evolves W wid wpool g g'"
proof (cases err)
  case (Some e)
  with prepareProxy_spec [OF assms(2)] have "sw' = sw" "evolves W wid wpool g g'"
    by (auto intro: evolves_same_heap)
  with assms(1) show ?thesis by (auto intro: pool_inv_evolves)
next
  case None
  with prepareProxy_spec [OF assms(2)] obtain w where
    w: "sw' = sw\<lparr>workers := AList.update ProxyId (nextAddr g) (workers sw)\<rparr>"
    "heap g' = (heap g)(nextAddr g \<mapsto> w)" "nextAddr g' = Suc (nextAddr g)"
    "w_Restarts W w = 0" "wid w = ProxyId" "wpool w = poolName sw" "HasProxy sw" by (auto simp: installs_def)
  with assms(1) show ?thesis
    by (auto intro!: pool_inv_install evolves_alloc simp: entry_ok_def)
qed

subsection \<open>Preparing a pool\<close>

lemma prepare_loop_fields:
  assumes "prepare_loop lib W opts is sw g = Ret (err, sw', g')"
  shows "poolName sw' = poolName sw \<and> startup sw' = startup sw \<and> replicas sw' = replicas sw \<and>
         HasProxy sw' = HasProxy sw \<and> pstate sw' = pstate sw \<and> desiredHealthPcnt sw' = desiredHealthPcnt sw"
  using assms
proof (induction "is" arbitrary: sw g)
  case (Cons i "is")
  show ?case
  proof (cases "workerName (poolName sw) i \<in> set (keys (workers sw))")
    case False
    with Cons.prems obtain sw2 g2 where
      p: "prepareWorkerInternal lib W opts (workerName (poolName sw) i) 0
            (assign_port (workerName (poolName sw) i) i sw) g = Ret (sw2, g2)"
      and l: "prepare_loop lib W opts is sw2 (upd_mets (init_counters (poolName sw2)) g2) = Ret (err, sw', g')"
      by (auto simp: Let_def split: prod.splits)
    from Cons.IH [OF l] prepareWorkerInternal_spec [OF p] show ?thesis
      by (auto simp: installs_def HasProxy_def assign_port_def split: option.splits)
  qed (use Cons.prems in \<open>simp add: Let_def\<close>)
qed simp

lemma prepare_loop_inv:
  assumes "pool_inv W wid wpool sw g" and "prepare_loop lib W opts is sw g = Ret (err, sw', g')"
  shows "pool_inv W wid wpool sw' g' \<and> evolves W wid wpool g g'"
  using assms
proof (induction "is" arbitrary: sw g)
  case (Cons i "is")
  define nm where "nm = workerName (poolName sw) i"
  define sw1 where "sw1 = assign_port nm i sw"
  have sw1: "workers sw1 = workers sw" "poolName sw1 = poolName sw" "startup sw1 = startup sw"
    "HasProxy sw1 = HasProxy sw"
    by (simp_all add: sw1_def assign_port_def HasProxy_def split: option.splits)
  show ?case
  proof (cases "nm \<in> set (keys (workers sw))")
    case True
    with Cons.prems show ?thesis by (simp add: nm_def Let_def)
  next
    case False
    with Cons.prems(2) obtain sw2 g2 where
      p: "prepareWorkerInternal lib W opts nm 0 sw1 g = Ret (sw2, g2)"
      and l: "prepare_loop lib W opts is sw2 (upd_mets (init_counters (poolName sw2)) g2) = Ret (err, sw', g')"
      by (auto simp: Let_def sw1_def nm_def split: prod.splits)
    have inv1: "pool_inv W wid wpool sw1 g"
      using Cons.prems(1) sw1 by (subst pool_inv_pool_cong [of _ sw]) simp_all
    have inv2: "pool_inv W wid wpool sw2 g2" "evolves W wid wpool g g2"
      using prepareWorkerInternal_inv [OF inv1 p] inv1 by (simp_all add: nm_def pool_inv_def)
    have ev: "evolves W wid wpool g2 (upd_mets (init_counters (poolName sw2)) g2)"
      by (rule evolves_same_heap) simp_all
    from Cons.IH [OF pool_inv_evolves [OF inv2(1) ev] l] evolves_trans [OF inv2(2) ev]
    show ?thesis by (auto intro: evolves_trans)
  qed
qed simp

lemma PoolPrepareWorkers_inv:
  assumes "pool_inv W wid wpool sw g" and "PoolPrepareWorkers lib W opts sw g = Ret (err, sw', g')"
  shows "pool_inv W wid wpool sw' g' \<and> evolves W wid wpool g g'"
proof -
  have inv0: "pool_inv W wid wpool (sw\<lparr>pstate := Prepared\<rparr>) g"
    using assms(1) by (subst pool_inv_pool_cong [of _ sw]) (simp_all add: HasProxy_def)
  from assms(2) obtain e1 sw1 g1 where
    l: "prepare_loop lib W opts [0..<nat (replicas sw)] (sw\<lparr>pstate := Prepared\<rparr>) g = Ret (e1, sw1, g1)"
    and rest: "(if e1 \<noteq> None then Ret (e1, sw1, g1)
       else if sInfo sw1 \<noteq> None then prepareProxy lib W \<lparr>Buffered = False, Streaming = False\<rparr> sw1 g1
       else Ret (None, sw1, g1)) = Ret (err, sw', g')"
    by (auto simp: PoolPrepareWorkers_def simp del: prepare_loop.simps split: prod.splits)
  from prepare_loop_inv [OF inv0 l] rest show ?thesis
    by (auto split: if_splits dest: prepareProxy_inv intro: evolves_trans)
qed

subsection \<open>Running, interrupting, killing\<close>

lemmas keeps_lemmas = same_worker_keeps [OF worker_contract_axioms]

lemma run_loop_evolves: "run_loop W sw ks g = Ret g' \<Longrightarrow> evolves W wid wpool g g'"
proof (induction ks arbitrary: g)
  case (Cons k ks)
  then obtain a g1 where a: "on_worker (w_Run W) a g = Ret g1"
    "run_loop W sw ks (upd_mets (AddRunningStats (poolName sw) 1) g1) = Ret g'" by auto
  have "evolves W wid wpool g g1" using a(1) keeps_lemmas(1) by (rule evolves_on_worker)
  moreover have "evolves W wid wpool g1 (upd_mets (AddRunningStats (poolName sw) 1) g1)"
    by (rule evolves_same_heap) simp_all
  ultimately show ?case using Cons.IH [OF a(2)] by (blast intro: evolves_trans)
qed simp

lemma terminate_loop_evolves: "terminate_loop W sw ks g = Ret g' \<Longrightarrow> evolves W wid wpool g g'"
proof (induction ks arbitrary: g)
  case (Cons k ks)
  show ?case
  proof (cases "k = ProxyId")
    case False
    with Cons.prems obtain a g1 where a: "on_worker (w_Terminate W (signalTimeout (startup sw))) a g = Ret g1"
      "terminate_loop W sw ks g1 = Ret g'" by auto
    have "evolves W wid wpool g g1" using a(1) keeps_lemmas(2) by (rule evolves_on_worker)
    then show ?thesis using Cons.IH [OF a(2)] by (rule evolves_trans)
  qed (use Cons in simp)
qed simp

lemma RunAll_inv:
  "pool_inv W wid wpool sw g \<Longrightarrow> RunAll W ks sw g = Ret (sw', g') \<Longrightarrow>
   sw' = sw \<and> pool_inv W wid wpool sw' g' \<and> evolves W wid wpool g g'"
  by (auto simp: RunAll_def dest: run_loop_evolves intro: pool_inv_evolves)

lemma InterruptAll_inv:
  assumes "pool_inv W wid wpool sw g" and "InterruptAll lib W ks sw g = Ret (sw', g')"
  shows "sw' = sw\<lparr>pstate := Draining\<rparr> \<and> pool_inv W wid wpool sw' g' \<and> evolves W wid wpool g g'"
proof -
  let ?g1 = "case sInfo sw of None \<Rightarrow> g | Some si \<Rightarrow> snd (proxyDrain lib si g)"
  from assms(2) have sw': "sw' = sw\<lparr>pstate := Draining\<rparr>"
    and l: "terminate_loop W sw' ks ?g1 = Ret g'"
    by (auto simp: InterruptAll_def Let_def)
  have "evolves W wid wpool g ?g1"
    by (rule evolves_same_heap) (simp_all add: proxyDrain_def split: option.split)
  then have ev: "evolves W wid wpool g g'" using terminate_loop_evolves [OF l] by (rule evolves_trans)
  have "pool_inv W wid wpool sw' g"
    using assms(1) by (subst pool_inv_pool_cong [of _ sw]) (simp_all add: sw' HasProxy_def)
  with ev sw' show ?thesis by (auto intro: pool_inv_evolves)
qed

lemma InterruptWorker_inv:
  "pool_inv W wid wpool sw g \<Longrightarrow> InterruptWorker W k sw g = Ret (sw', g') \<Longrightarrow>
   sw' = sw \<and> pool_inv W wid wpool sw' g' \<and> evolves W wid wpool g g'"
  by (auto simp: InterruptWorker_def intro: pool_inv_evolves
      dest!: evolves_on_worker [OF _ keeps_lemmas(2)])

lemma ForceTerminateWorker_inv:
  assumes "pool_inv W wid wpool sw g" and "ForceTerminateWorker W k sw g = Ret (sw', g')"
  shows "sw' = sw \<and> pool_inv W wid wpool sw' g' \<and> evolves W wid wpool g g'"
proof -
  let ?g1 = "upd_mets (count_sigkill (poolName sw)) g"
  have "evolves W wid wpool g ?g1" by (rule evolves_same_heap) simp_all
  moreover from assms(2) have "sw' = sw" "evolves W wid wpool ?g1 g'"
    by (auto simp: ForceTerminateWorker_def dest!: evolves_on_worker [OF _ keeps_lemmas(3)])
  ultimately show ?thesis using assms(1) by (blast intro: pool_inv_evolves evolves_trans)
qed

text \<open>With a key of the pool none of these calls dereferences nil.\<close>

lemma on_worker_total: "heap g a = Some w \<Longrightarrow> \<exists>g'. on_worker f a g = Ret g'"
  by (simp add: on_worker_def)

lemma InterruptWorker_total:
  "pool_inv W wid wpool sw g \<Longrightarrow> k \<in> set (keys (workers sw)) \<Longrightarrow>
   \<exists>g'. InterruptWorker W k sw g = Ret (sw, g')"
  by (drule (1) pool_inv_lookup) (auto simp: InterruptWorker_def intro: on_worker_total)

lemma ForceTerminateWorker_total:
  assumes "pool_inv W wid wpool sw g" and "k \<in> set (keys (workers sw))"
  shows "\<exists>g'. ForceTerminateWorker W k sw g = Ret (sw, g')"
proof -
  from pool_inv_lookup [OF assms] obtain a w where
    a: "map_of (workers sw) k = Some a" "heap g a = Some w" by blast
  have "heap (upd_mets (count_sigkill (poolName sw)) g) a = Some w" using a(2) by simp
  from on_worker_total [OF this] a(1) show ?thesis by (auto simp: ForceTerminateWorker_def)
qed

subsection \<open>Restarting\<close>

lemma RestartWorker_draining:
  "pstate sw = Draining \<or> pstate sw = Stopped \<Longrightarrow> RestartWorker lib W opts k sw g = Ret (None, sw, g)"
  by (auto simp: RestartWorker_def)

lemma RestartWorker_over_budget:
  assumes "pool_inv W wid wpool sw g" and "map_of (workers sw) k = Some a" and "heap g a = Some w0"
    and "k \<noteq> ProxyId" and "pstate sw \<notin> {Draining, Stopped}" and "w_Restarts W w0 < MaxInt"
    and "maxRestarts (startup sw) < w_Restarts W w0 + 1"
  shows "\<exists>msg. RestartWorker lib W opts k sw g = Ret (Some (Errorw TooManyRestarts msg), sw, g)"
proof -
  have "in64 (w_Restarts W w0 + 1)"
    using assms(1,6,7) by (simp add: in64_def MaxInt_def pool_inv_def)
  with assms show ?thesis by (simp add: RestartWorker_def wrap64_id Let_def)
qed

text \<open>Every way in which \<open>RestartWorker\<close> returns.\<close>

lemma RestartWorker_cases:
  assumes ret: "RestartWorker lib W opts k sw g = Ret (err, sw', g')"
  obtains (draining) "pstate sw \<in> {Draining, Stopped}" "err = None" "sw' = sw" "g' = g"
  | (over_budget) a w0 msg where "pstate sw \<notin> {Draining, Stopped}" "k \<noteq> ProxyId"
      "map_of (workers sw) k = Some a" "heap g a = Some w0"
      "maxRestarts (startup sw) < wrap64 (w_Restarts W w0 + 1)"
      "err = Some (Errorw TooManyRestarts msg)" "sw' = sw" "g' = g"
  | (proxy_error) a w0 e where "pstate sw \<notin> {Draining, Stopped}" "k = ProxyId" "HasProxy sw"
      "map_of (workers sw) k = Some a" "heap g a = Some w0" "err = Some e" "sw' = sw"
      "heap g' = heap g" "nextAddr g' = nextAddr g" "gos g' = gos g" "mets g' = mets g" "kills g' = kills g"
  | (restarted) a w0 w g1 f where "pstate sw \<notin> {Draining, Stopped}" "err = None"
      "map_of (workers sw) k = Some a" "heap g a = Some w0"
      "installs W wid wpool k (if k = ProxyId then 0 else wrap64 (w_Restarts W w0 + 1)) w sw g sw' g1"
      "k \<noteq> ProxyId \<longrightarrow> wrap64 (w_Restarts W w0 + 1) \<le> maxRestarts (startup sw)" "k = ProxyId \<longrightarrow> HasProxy sw"
      "f = count_restart (poolName sw) (if k = ProxyId then ''proxy'' else ''worker'')"
      "on_worker (w_Run W) (nextAddr g) (upd_mets f g1) = Ret g'"
proof (cases "pstate sw \<in> {Draining, Stopped}")
  case True
  then show ?thesis using ret by (intro draining) (auto simp: RestartWorker_def)
next
  case st: False
  let ?act = "\<lambda>n. if k = ProxyId then prepareProxy lib W opts sw g
     else if n > maxRestarts (startup sw) then Ret (Some (Errorw TooManyRestarts
       ('': too many restarts in worker pool '' @ poolName sw)), sw, g)
     else obind (prepareWorkerInternal lib W opts k n sw g) (\<lambda>(sw1, g1). Ret (None, sw1, g1))"
  from ret st obtain a w0 err1 sw1 g1 where a: "map_of (workers sw) k = Some a" "heap g a = Some w0"
    and act: "?act (wrap64 (w_Restarts W w0 + 1)) = Ret (err1, sw1, g1)"
    and rest: "(if err1 \<noteq> None then Ret (err1, sw1, g1) else
       obind (deref (map_of (workers sw1) k))
         (\<lambda>a. obind (on_worker (w_Run W) a (upd_mets (count_restart (poolName sw1)
              (if k = ProxyId then ''proxy'' else ''worker'')) g1)) (\<lambda>g3. Ret (None, sw1, g3)))) = Ret (err, sw', g')"
    by (auto simp: RestartWorker_def Let_def cong: if_cong)
  show ?thesis
  proof (cases err1)
    case (Some e)
    with rest have eq: "err = Some e" "sw' = sw1" "g' = g1" by auto
    show ?thesis
    proof (cases "k = ProxyId")
      case True
      with act Some prepareProxy_spec [of lib opts sw g err1 sw1 g1] eq a st show ?thesis
        by (intro proxy_error) auto
    next
      case False
      with act Some eq a st show ?thesis by (intro over_budget) (auto split: if_splits)
    qed
  next
    case None
    have "\<exists>w. installs W wid wpool k (if k = ProxyId then 0 else wrap64 (w_Restarts W w0 + 1)) w sw g sw1 g1 \<and>
      (k \<noteq> ProxyId \<longrightarrow> wrap64 (w_Restarts W w0 + 1) \<le> maxRestarts (startup sw)) \<and> (k = ProxyId \<longrightarrow> HasProxy sw)"
      using act None prepareProxy_spec [of lib opts sw g err1 sw1 g1] prepareWorkerInternal_spec
      by (auto split: if_splits)
    then obtain w where w: "installs W wid wpool k (if k = ProxyId then 0 else wrap64 (w_Restarts W w0 + 1)) w sw g sw1 g1"
      "k \<noteq> ProxyId \<longrightarrow> wrap64 (w_Restarts W w0 + 1) \<le> maxRestarts (startup sw)" "k = ProxyId \<longrightarrow> HasProxy sw" by blast
    then have "map_of (workers sw1) k = Some (nextAddr g)" "poolName sw1 = poolName sw" by (simp_all add: installs_def)
    with rest None have "err = None" "sw' = sw1"
      "on_worker (w_Run W) (nextAddr g) (upd_mets (count_restart (poolName sw)
         (if k = ProxyId then ''proxy'' else ''worker'')) g1) = Ret g'" by auto
    with w a st show ?thesis by (intro restarted [where w = w]) auto
  qed
qed

lemma RestartWorker_inv:
  assumes inv: "pool_inv W wid wpool sw g" and ret: "RestartWorker lib W opts k sw g = Ret (err, sw', g')"
  shows "pool_inv W wid wpool sw' g' \<and> evolves W wid wpool g g'"
  using ret
proof (cases rule: RestartWorker_cases)
  case (proxy_error a w0 e)
  then have "evolves W wid wpool g g'" by (intro evolves_same_heap)
  with inv proxy_error show ?thesis by (auto intro: pool_inv_evolves)
next
  case (restarted a w0 w g1 f)
  have ok0: "entry_ok W wid wpool sw k w0" using inv restarted unfolding pool_inv_def by force
  then have "entry_ok W wid wpool sw k w"
    using restarted by (auto simp: entry_ok_def installs_def wrap64_id in64_def MaxInt_def)
  with inv restarted have 1: "pool_inv W wid wpool sw' g1" "evolves W wid wpool g g1"
    by (auto simp: installs_def intro!: pool_inv_install evolves_alloc)
  have "evolves W wid wpool g1 (upd_mets f g1)" by (rule evolves_same_heap) simp_all
  also have "evolves W wid wpool (upd_mets f g1) g'"
    using restarted(9) keeps_lemmas(1) by (rule evolves_on_worker)
  finally show ?thesis using 1 by (blast intro: evolves_trans pool_inv_evolves)
qed (use inv in auto)

end

end
