(* ===== verification/Pool_Prepare.thy ===== *)
theory Pool_Prepare
  imports Pool_Invariant
begin

text \<open>
  What \<open>PrepareWorkers\<close> builds on a pool: the workers \<open>pool-0 \<dots> pool-(n-1)\<close> with
  consecutive ports, then the proxy; and what happens when it is called twice.
\<close>

definition pool_ports :: "WorkerPool \<Rightarrow> (string \<times> uint64) list" where
  "pool_ports sw = (case sInfo sw of None \<Rightarrow> [] | Some si \<Rightarrow> ports si)"

text \<open>A worker as the factory makes it, not yet started and never restarted.\<close>

definition brand_new :: "'w worker_ops \<Rightarrow> 'w \<Rightarrow> bool" where
  "brand_new W w \<longleftrightarrow> w_Restarts W w = 0 \<and> (\<exists>c. factory W c = Ret w \<and> conf_ok c)"

definition fresh_workers :: "'w worker_ops \<Rightarrow> WorkerPool \<Rightarrow> 'w world \<Rightarrow> bool" where
  "fresh_workers W sw g \<longleftrightarrow>
     (\<forall>k\<in>set (keys (workers sw)). \<exists>a w. map_of (workers sw) k = Some a \<and> a < nextAddr g \<and>
        heap g a = Some w \<and> brand_new W w)"

lemma fresh_workers_frame:
  assumes "fresh_workers W sw g" and "nextAddr g \<le> nextAddr g'" and "\<forall>a < nextAddr g. heap g' a = heap g a"
  shows "fresh_workers W sw g'"
  unfolding fresh_workers_def
proof
  fix k assume "k \<in> set (keys (workers sw))"
  with assms(1) obtain a w where "map_of (workers sw) k = Some a" "a < nextAddr g" "heap g a = Some w" "brand_new W w"
    unfolding fresh_workers_def by blast
  with assms(2,3) show "\<exists>a w. map_of (workers sw) k = Some a \<and> a < nextAddr g' \<and> heap g' a = Some w \<and> brand_new W w"
    by (intro exI [of _ a] exI [of _ w]) simp
qed

text \<open>Every object is in \<open>A\<close> or a worker of the pool.\<close>

definition claims :: "addr set \<Rightarrow> WorkerPool \<Rightarrow> 'w world \<Rightarrow> bool" where
  "claims A sw g \<longleftrightarrow>
     (\<forall>a. heap g a \<noteq> None \<longrightarrow> a < nextAddr g \<and> (a \<in> A \<or> a \<in> snd ` set (workers sw)))"

definition port_plan :: "WorkerPool \<Rightarrow> nat list \<Rightarrow> (string \<times> uint64) list" where
  "port_plan sw is =
     (case sInfo sw of None \<Rightarrow> []
      | Some si \<Rightarrow> map (\<lambda>i. (workerName (poolName sw) i, startPort si + of_nat i)) is)"

lemma pool_ports_upd [simp]:
  "pool_ports (sw\<lparr>workers := ws\<rparr>) = pool_ports sw" "pool_ports (sw\<lparr>pstate := st\<rparr>) = pool_ports sw"
  by (simp_all add: pool_ports_def)

lemma port_plan_upd [simp]:
  "port_plan (sw\<lparr>workers := ws\<rparr>) is = port_plan sw is" "port_plan (sw\<lparr>pstate := st\<rparr>) is = port_plan sw is"
  by (simp_all add: port_plan_def split: option.split)

lemma NewWorkerPool_new:
  assumes "NewWorkerPool lib b c = Inr sw"
  shows "workers sw = [] \<and> pool_ports sw = [] \<and> poolName sw = wc_Name c \<and> replicas sw = wc_Replicas c \<and>
         pstate sw = Init \<and> 0 < wc_Replicas c \<and> 0 \<le> maxRestarts (startup sw) \<and>
         maxRestarts (startup sw) = MaxRestartsOrDefault (Some c) \<and>
         signalTimeout (startup sw) = SignalTimeoutOrDefault (Some c) \<and> (HasProxy sw \<longleftrightarrow> wc_Server c \<noteq> None)"
  using assms
  by (auto simp: NewWorkerPool_def Let_def pool_ports_def new_serverInfo_def HasProxy_def
      split: if_splits option.splits sum.splits)

lemma NewWorkerPool_inv:
  assumes "NewWorkerPool lib b c = Inr sw" and "in64 (wc_MaxRestarts c)"
  shows "pool_inv W wid wpool sw g"
  using NewWorkerPool_new [OF assms(1)] assms(2)
  by (auto simp: pool_inv_def MaxRestartsOrDefault_def DefaultMaxRestarts_def MaxInt_def in64_def)

definition stream_loops :: "goroutine list \<Rightarrow> bool" where
  "stream_loops gs \<longleftrightarrow> (\<forall>x\<in>set gs. \<exists>a. x = StreamLogsLoop a)"

lemma stream_loops_simps [simp]:
  "stream_loops []" "stream_loops (x # gs) \<longleftrightarrow> (\<exists>a. x = StreamLogsLoop a) \<and> stream_loops gs"
  "stream_loops (gs @ gs') \<longleftrightarrow> stream_loops gs \<and> stream_loops gs'"
  by (auto simp: stream_loops_def)

context worker_contract
begin

text \<open>Preparing starts only log goroutines and leaves the worker gauge alone.\<close>

lemma prepare_loop_frame:
  "prepare_loop lib W opts is sw g = Ret (err, sw', g') \<Longrightarrow>
   (\<exists>gs. gos g' = gos g @ gs \<and> stream_loops gs) \<and> gauge (mets g') = gauge (mets g) \<and>
   nextAddr g \<le> nextAddr g' \<and> (\<forall>a < nextAddr g. heap g' a = heap g a)"
proof (induction "is" arbitrary: sw g)
  case (Cons i "is")
  show ?case
  proof (cases "workerName (poolName sw) i \<in> set (keys (workers sw))")
    case False
    with Cons.prems obtain sw2 g2 where
      p: "prepareWorkerInternal lib W opts (workerName (poolName sw) i) 0
            (assign_port (workerName (poolName sw) i) i sw) g = Ret (sw2, g2)"
      and l: "prepare_loop lib W opts is sw2 (upd_mets (init_counters (poolName sw2)) g2) = Ret (err, sw', g')"
      by (auto simp: Let_def split: prod.splits)
    have [simp]: "gauge (init_counters q m) = gauge m" for q m by (simp add: init_counters_def gauge_def fun_eq_iff)
    from Cons.IH [OF l] prepareWorkerInternal_spec [OF p] show ?thesis by (auto simp: installs_def)
  qed (use Cons.prems in \<open>simp add: Let_def\<close>)
qed simp

lemma PoolPrepareWorkers_frame:
  assumes "PoolPrepareWorkers lib W opts sw g = Ret (err, sw', g')"
  shows "(\<exists>gs. gos g' = gos g @ gs \<and> stream_loops gs) \<and> gauge (mets g') = gauge (mets g) \<and>
         nextAddr g \<le> nextAddr g' \<and> (\<forall>a < nextAddr g. heap g' a = heap g a) \<and> poolName sw' = poolName sw \<and> HasProxy sw' = HasProxy sw \<and>
         startup sw' = startup sw \<and> replicas sw' = replicas sw"
proof -
  from assms obtain e1 sw1 g1 where
    l: "prepare_loop lib W opts [0..<nat (replicas sw)] (sw\<lparr>pstate := Prepared\<rparr>) g = Ret (e1, sw1, g1)"
    and rest: "(if e1 \<noteq> None then Ret (e1, sw1, g1)
       else if sInfo sw1 \<noteq> None then prepareProxy lib W \<lparr>Buffered = False, Streaming = False\<rparr> sw1 g1
       else Ret (None, sw1, g1)) = Ret (err, sw', g')"
    by (auto simp: PoolPrepareWorkers_def simp del: prepare_loop.simps split: prod.splits)
  note f = prepare_loop_frame [OF l] prepare_loop_fields [OF l]
  show ?thesis
  proof (cases "prepareProxy lib W \<lparr>Buffered = False, Streaming = False\<rparr> sw1 g1 = Ret (err, sw', g')")
    case True
    from prepareProxy_spec [OF this] f show ?thesis by (cases err) (auto simp: installs_def)
  next
    case False
    with rest have "sw' = sw1" "g' = g1" by (auto split: if_splits)
    with f show ?thesis by simp
  qed
qed

lemma prepare_loop_fresh:
  assumes "prepare_loop lib W opts is sw g = Ret (err, sw', g')"
    and "distinct is" and "\<forall>i\<in>set is. workerName (poolName sw) i \<notin> set (keys (workers sw))"
    and "\<forall>i\<in>set is. workerName (poolName sw) i \<notin> set (keys (pool_ports sw))"
  shows "err = None \<and>
     workers sw' = workers sw @ map (\<lambda>j. (workerName (poolName sw) (is ! j), nextAddr g + j)) [0..<length is] \<and>
     pool_ports sw' = pool_ports sw @ port_plan sw is \<and>
     nextAddr g' = nextAddr g + length is \<and>
     (\<forall>a. a < nextAddr g \<longrightarrow> heap g' a = heap g a) \<and>
     (\<forall>a. nextAddr g \<le> a \<longrightarrow> a < nextAddr g' \<longrightarrow> (\<exists>w. heap g' a = Some w \<and> brand_new W w))"
  using assms
proof (induction "is" arbitrary: sw g)
  case Nil
  then show ?case by (auto simp: port_plan_def split: option.splits)
next
  case (Cons i "is")
  define nm where "nm = workerName (poolName sw) i"
  define sw1 where "sw1 = assign_port nm i sw"
  have nm: "nm \<notin> set (keys (workers sw))" "nm \<notin> set (keys (pool_ports sw))"
    using Cons.prems(3,4) by (simp_all add: nm_def)
  have sw1: "workers sw1 = workers sw" "poolName sw1 = poolName sw"
    "pool_ports sw1 = pool_ports sw @ port_plan sw [i]"
    using nm(2) by (simp_all add: sw1_def assign_port_def pool_ports_def port_plan_def nm_def
        update_notin split: option.splits)
  have plan1: "port_plan sw1 js = port_plan sw js" for js
    by (simp add: sw1_def assign_port_def port_plan_def split: option.splits)
  from Cons.prems(1) nm(1) obtain sw2 g2 where
    p: "prepareWorkerInternal lib W opts nm 0 sw1 g = Ret (sw2, g2)"
    and l: "prepare_loop lib W opts is sw2 (upd_mets (init_counters (poolName sw2)) g2) = Ret (err, sw', g')"
    by (auto simp: Let_def sw1_def nm_def split: prod.splits)
  from prepareWorkerInternal_spec [OF p] obtain w where
    w: "sw2 = sw1\<lparr>workers := workers sw @ [(nm, nextAddr g)]\<rparr>" "heap g2 = (heap g)(nextAddr g \<mapsto> w)"
       "nextAddr g2 = Suc (nextAddr g)" "brand_new W w"
    using nm(1) sw1(1) by (auto simp: update_notin installs_def brand_new_def)
  have sw2: "poolName sw2 = poolName sw" "pool_ports sw2 = pool_ports sw @ port_plan sw [i]"
    "workers sw2 = workers sw @ [(nm, nextAddr g)]" "port_plan sw2 is = port_plan sw is"
    using sw1 plan1 [of "is"] by (simp_all add: w)
  have d1: "\<forall>j\<in>set is. workerName (poolName sw2) j \<notin> set (keys (workers sw2))"
    and d2: "\<forall>j\<in>set is. workerName (poolName sw2) j \<notin> set (keys (pool_ports sw2))"
    using Cons.prems(2,3,4) by (auto simp: sw2 nm_def port_plan_def split: option.splits)
  have m: "map (\<lambda>j. (workerName p ((i # is) ! j), a + j)) [0..<length (i # is)] =
           (workerName p i, a) # map (\<lambda>j. (workerName p (is ! j), Suc a + j)) [0..<length is]" for p a
    by (subst upt_conv_Cons) (simp_all add: map_Suc_upt [symmetric] del: upt_Suc)
  from Cons.IH [OF l _ d1 d2] Cons.prems(2)
  have ih: "err = None"
    "workers sw' = workers sw2 @ map (\<lambda>j. (workerName (poolName sw2) (is ! j), nextAddr g2 + j)) [0..<length is]"
    "pool_ports sw' = pool_ports sw2 @ port_plan sw2 is" "nextAddr g' = nextAddr g2 + length is"
    "\<forall>a. a < nextAddr g2 \<longrightarrow> heap g' a = heap g2 a"
    "\<forall>a. nextAddr g2 \<le> a \<longrightarrow> a < nextAddr g' \<longrightarrow> (\<exists>w. heap g' a = Some w \<and> brand_new W w)"
    by simp_all
  have plan: "port_plan sw (i # is) = port_plan sw [i] @ port_plan sw is"
    by (simp add: port_plan_def split: option.split)
  have old: "heap g' a = heap g a" if "a < nextAddr g" for a
    using that ih(5) w by simp
  have new: "\<exists>v. heap g' a = Some v \<and> brand_new W v" if "nextAddr g \<le> a" "a < nextAddr g'" for a
    using that ih(5,6) w by (cases "a = nextAddr g") simp_all
  show ?case
    unfolding m plan using ih(1-4) old new by (simp add: sw2 w(3) nm_def)
qed

lemma prepare_loop_fresh_workers:
  assumes l: "prepare_loop lib W opts [0..<n] sw g = Ret (err, sw', g')"
    and fresh: "workers sw = []" "pool_ports sw = []"
  shows "err = None \<and> keys (workers sw') = map (workerName (poolName sw)) [0..<n] \<and>
         pool_ports sw' = port_plan sw [0..<n] \<and> fresh_workers W sw' g'"
proof -
  have f: "err = None" "workers sw' = map (\<lambda>j. (workerName (poolName sw) j, nextAddr g + j)) [0..<n]"
    "pool_ports sw' = port_plan sw [0..<n]" "nextAddr g' = nextAddr g + n"
    "\<forall>a. nextAddr g \<le> a \<longrightarrow> a < nextAddr g' \<longrightarrow> (\<exists>w. heap g' a = Some w \<and> brand_new W w)"
    using prepare_loop_fresh [OF l] fresh by (simp_all cong: map_cong)
  have "\<exists>a w. map_of (workers sw') k = Some a \<and> a < nextAddr g' \<and> heap g' a = Some w \<and> brand_new W w"
    if "k \<in> set (keys (workers sw'))" for k
  proof -
    from that obtain a where a: "map_of (workers sw') k = Some a" by (auto simp: in_keys_map_of)
    then have "(k, a) \<in> set (workers sw')" by (rule map_of_SomeD)
    then have "nextAddr g \<le> a" "a < nextAddr g'" by (auto simp: f(2,4))
    with f(5) a show ?thesis by blast
  qed
  then show ?thesis using f(1-3) by (simp add: fresh_workers_def keys_def)
qed

lemma prepareProxy_fresh_workers:
  assumes p: "prepareProxy lib W opts sw g = Ret (err, sw', g')" and f: "fresh_workers W sw g"
    and no: "ProxyId \<notin> set (keys (workers sw))"
  shows "fresh_workers W sw' g' \<and> pool_ports sw' = pool_ports sw \<and> pstate sw' = pstate sw \<and>
         keys (workers sw') = keys (workers sw) @ (if err = None then [ProxyId] else [])"
proof (cases err)
  case (Some e)
  with prepareProxy_spec [OF p] f show ?thesis by (simp add: fresh_workers_def)
next
  case None
  with prepareProxy_spec [OF p] obtain w where
    w: "sw' = sw\<lparr>workers := AList.update ProxyId (nextAddr g) (workers sw)\<rparr>"
      "heap g' = (heap g)(nextAddr g \<mapsto> w)" "nextAddr g' = Suc (nextAddr g)" "brand_new W w" by (auto simp: installs_def brand_new_def)
  have "\<exists>a v. map_of (workers sw') k = Some a \<and> a < nextAddr g' \<and> heap g' a = Some v \<and> brand_new W v"
    if "k \<in> set (keys (workers sw'))" for k
  proof (cases "k = ProxyId")
    case False
    with that f obtain a v where "map_of (workers sw) k = Some a" "a < nextAddr g"
      "heap g a = Some v" "brand_new W v"
      by (auto simp: fresh_workers_def w)
    with False show ?thesis by (intro exI [of _ a] exI [of _ v]) (simp add: w)
  qed (simp add: w)
  with None no show ?thesis by (simp add: fresh_workers_def w(1) keys_update_notin)
qed

lemma PoolPrepareWorkers_fresh:
  assumes ret: "PoolPrepareWorkers lib W opts sw g = Ret (err, sw', g')"
    and fresh: "workers sw = []" "pool_ports sw = []"
  shows "keys (workers sw') =
           map (workerName (poolName sw)) [0..<nat (replicas sw)] @
           (if HasProxy sw \<and> err = None then [ProxyId] else []) \<and>
         pool_ports sw' = port_plan sw [0..<nat (replicas sw)] \<and>
         (err \<noteq> None \<longrightarrow> HasProxy sw) \<and> pstate sw' = Prepared \<and> fresh_workers W sw' g'"
proof -
  from ret obtain e1 sw1 g1 where
    l: "prepare_loop lib W opts [0..<nat (replicas sw)] (sw\<lparr>pstate := Prepared\<rparr>) g = Ret (e1, sw1, g1)"
    and rest: "(if e1 \<noteq> None then Ret (e1, sw1, g1)
       else if sInfo sw1 \<noteq> None then prepareProxy lib W \<lparr>Buffered = False, Streaming = False\<rparr> sw1 g1
       else Ret (None, sw1, g1)) = Ret (err, sw', g')"
    by (auto simp: PoolPrepareWorkers_def simp del: prepare_loop.simps split: prod.splits)
  have f: "e1 = None" "keys (workers sw1) = map (workerName (poolName sw)) [0..<nat (replicas sw)]"
    "pool_ports sw1 = port_plan sw [0..<nat (replicas sw)]" "fresh_workers W sw1 g1"
    using prepare_loop_fresh_workers [OF l] fresh by simp_all
  have l1: "HasProxy sw1 = HasProxy sw" "pstate sw1 = Prepared" using prepare_loop_fields [OF l] by simp_all
  show ?thesis
  proof (cases "HasProxy sw")
    case False
    with rest f l1 show ?thesis by (auto simp: HasProxy_def)
  next
    case True
    with rest f(1) l1 have p: "prepareProxy lib W \<lparr>Buffered = False, Streaming = False\<rparr> sw1 g1 = Ret (err, sw', g')"
      by (auto simp: HasProxy_def)
    have "ProxyId \<notin> set (keys (workers sw1))" by (auto simp: f(2))
    from prepareProxy_fresh_workers [OF p f(4) this] True f l1 show ?thesis by simp
  qed
qed

text \<open>Every object preparing allocates belongs to the pool.\<close>

lemma installs_claims:
  assumes "installs W wid wpool k n w sw g sw' g'" and "k \<notin> set (keys (workers sw))" and "claims A sw g"
  shows "claims A sw' g'"
  using assms by (auto simp: installs_def claims_def update_notin less_Suc_eq)

lemma prepare_loop_claims:
  "prepare_loop lib W opts is sw g = Ret (err, sw', g') \<Longrightarrow> claims A sw g \<Longrightarrow> claims A sw' g'"
proof (induction "is" arbitrary: sw g)
  case (Cons i "is")
  let ?nm = "workerName (poolName sw) i"
  have asg: "workers (assign_port ?nm i sw) = workers sw"
    by (simp add: assign_port_def split: option.split)
  show ?case
  proof (cases "?nm \<in> set (keys (workers sw))")
    case False
    with Cons.prems obtain sw2 g2 where
      p: "prepareWorkerInternal lib W opts ?nm 0 (assign_port ?nm i sw) g = Ret (sw2, g2)"
      and l: "prepare_loop lib W opts is sw2 (upd_mets (init_counters (poolName sw2)) g2) = Ret (err, sw', g')"
      by (auto simp: Let_def split: prod.splits)
    have "claims A (assign_port ?nm i sw) g" using Cons.prems(2) by (simp add: claims_def asg)
    with prepareWorkerInternal_spec [OF p] False asg have "claims A sw2 g2" by (auto intro: installs_claims)
    then show ?thesis by (intro Cons.IH [OF l]) (simp add: claims_def)
  qed (use Cons.prems in \<open>simp add: Let_def\<close>)
qed simp

lemma PoolPrepareWorkers_claims:
  assumes ret: "PoolPrepareWorkers lib W opts sw g = Ret (err, sw', g')"
    and fresh: "workers sw = []" "pool_ports sw = []" and A: "claims A sw g"
  shows "claims A sw' g'"
proof -
  from ret obtain e1 sw1 g1 where
    l: "prepare_loop lib W opts [0..<nat (replicas sw)] (sw\<lparr>pstate := Prepared\<rparr>) g = Ret (e1, sw1, g1)"
    and rest: "(if e1 \<noteq> None then Ret (e1, sw1, g1)
       else if sInfo sw1 \<noteq> None then prepareProxy lib W \<lparr>Buffered = False, Streaming = False\<rparr> sw1 g1
       else Ret (None, sw1, g1)) = Ret (err, sw', g')"
    by (auto simp: PoolPrepareWorkers_def simp del: prepare_loop.simps split: prod.splits)
  have "claims A (sw\<lparr>pstate := Prepared\<rparr>) g" using A by (simp add: claims_def)
  with l have c1: "claims A sw1 g1" by (rule prepare_loop_claims)
  have "keys (workers sw1) = map (workerName (poolName sw)) [0..<nat (replicas sw)]"
    using prepare_loop_fresh_workers [OF l] fresh by simp
  then have no: "ProxyId \<notin> set (keys (workers sw1))" by auto
  show ?thesis
  proof (cases "prepareProxy lib W \<lparr>Buffered = False, Streaming = False\<rparr> sw1 g1 = Ret (err, sw', g')")
    case True
    note sp = prepareProxy_spec [OF this]
    show ?thesis
    proof (cases err)
      case None
      with sp c1 no show ?thesis by (auto intro: installs_claims)
    qed (use sp c1 in \<open>auto simp: claims_def\<close>)
  next
    case False
    with rest have "sw' = sw1" "g' = g1" by (auto split: if_splits)
    with c1 show ?thesis by simp
  qed
qed

text \<open>A second call collides with the first worker and changes nothing but the state field.\<close>

lemma PoolPrepareWorkers_again:
  assumes "workerName (poolName sw) 0 \<in> set (keys (workers sw))" and "0 < replicas sw"
  shows "\<exists>msg. PoolPrepareWorkers lib W opts sw g =
     Ret (Some (Errorw (CommonErr ErrDuplicateMapEntry) msg), sw\<lparr>pstate := Prepared\<rparr>, g)"
proof -
  have "[0..<nat (replicas sw)] = 0 # [1..<nat (replicas sw)]"
    using assms(2) by (simp add: upt_conv_Cons)
  with assms(1) show ?thesis by (simp add: PoolPrepareWorkers_def Let_def del: upt_Suc)
qed

end

end
