(* ===== verification/Pool_Total.thy ===== *)
theory Pool_Total
  imports Pool_Prepare
begin

text \<open>
  When the operations of a pool return: what can panic is the port template, the random
  source of the limiter and the worker factory, nothing in the pool itself.
\<close>

definition env_ok :: "golib \<Rightarrow> 'w worker_ops \<Rightarrow> WorkerPool \<Rightarrow> bool" where
  "env_ok lib W sw \<longleftrightarrow>
     (\<forall>si x. sInfo sw = Some si \<longrightarrow> (\<exists>s. TmplExec lib (valueTemplate si) x = Inr s)) \<and>
     (maxLifespan sw \<noteq> 0 \<longrightarrow>
        (\<forall>k m. \<exists>tm. newTimeLimiter (Intn lib) k (poolName sw) (maxLifespan sw) (jitterLifespan sw) m = Ret tm)) \<and>
     (\<forall>c. \<exists>w. factory W c = Ret w)"

lemma env_ok_upd [simp]:
  "env_ok lib W (sw\<lparr>workers := ws\<rparr>) = env_ok lib W sw" "env_ok lib W (sw\<lparr>pstate := st\<rparr>) = env_ok lib W sw"
  "env_ok lib W (assign_port k i sw) = env_ok lib W sw"
  by (auto simp: env_ok_def assign_port_def split: option.split)

lemma prepareWorkerInternal_total:
  assumes "env_ok lib W sw"
  shows "\<exists>g' w. prepareWorkerInternal lib W opts k n sw g =
           Ret (sw\<lparr>workers := AList.update k (nextAddr g) (workers sw)\<rparr>, g') \<and> heap g' (nextAddr g) = Some w"
proof -
  have "\<exists>pa. worker_port_args lib k sw = Ret pa"
  proof (cases "sInfo sw")
    case (Some si)
    obtain s where "TmplExec lib (valueTemplate si) (sint (case map_of (ports si) k of None \<Rightarrow> 0 | Some n \<Rightarrow> n)) = Inr s"
      using assms Some unfolding env_ok_def by blast
    with Some show ?thesis by (simp add: worker_port_args_def getPortArgs_def Let_def)
  qed (simp add: worker_port_args_def)
  then obtain pa where pa: "worker_port_args lib k sw = Ret pa" by blast
  have "\<exists>lg. worker_lifespan lib k sw g = Ret lg \<and> nextAddr (snd lg) = nextAddr g"
  proof (cases "maxLifespan sw = 0")
    case False
    then obtain tm where "newTimeLimiter (Intn lib) k (poolName sw) (maxLifespan sw) (jitterLifespan sw) (mets g) = Ret tm"
      using assms unfolding env_ok_def by blast
    with False show ?thesis by (simp add: worker_lifespan_def)
  qed (simp add: worker_lifespan_def)
  then obtain lg where lg: "worker_lifespan lib k sw g = Ret lg" "nextAddr (snd lg) = nextAddr g" by blast
  obtain w where "factory W (worker_config opts k n sw pa (fst lg)) = Ret w" using assms unfolding env_ok_def by blast
  with pa lg show ?thesis by (simp add: prepareWorkerInternal_def alloc_def)
qed

lemma prepareProxy_total:
  assumes "env_ok lib W sw" and "HasProxy sw"
  shows "\<exists>err sw' g'. prepareProxy lib W opts sw g = Ret (err, sw', g') \<and>
           (err = None \<longrightarrow> map_of (workers sw') ProxyId = Some (nextAddr g) \<and> heap g' (nextAddr g) \<noteq> None)"
proof -
  obtain si where si: "sInfo sw = Some si" using assms(2) by (auto simp: HasProxy_def)
  obtain w where w: "factory W (proxy_config opts sw si) = Ret w" using assms(1) unfolding env_ok_def by blast
  let ?c = "\<lparr>PortRange = portRange sw si, co_LoadBalanceAlgorithm = loadBalanceAlgorithm si,
              co_HealthCheckPath = healthCheckPath si\<rparr>"
  obtain e1 g1 where r1: "RenderClustersToWriter lib (envoyGen si) ?c g = (e1, g1)" by fastforce
  obtain e2 g2 where r2: "RenderListenersToWriter lib (envoyGen si) \<lparr>lo_Port = proxyListenerPort si\<rparr> g1 = (e2, g2)"
    by fastforce
  obtain e3 g3 where r3: "RenderBootstrapConfig lib (envoyGen si) \<lparr>bo_Port = proxyAdminPort si\<rparr> g2 = (e3, g3)"
    by fastforce
  have "nextAddr g3 = nextAddr g"
    using r1 [unfolded render_ops, THEN render_frame] r2 [unfolded render_ops, THEN render_frame]
      r3 [unfolded render_ops, THEN render_frame] by simp
  with si w r1 r2 r3 show ?thesis
    by (cases e1; cases e2; cases e3) (simp_all add: prepareProxy_def alloc_def)
qed

lemma prepare_loop_total: "env_ok lib W sw \<Longrightarrow> \<exists>err sw' g'. prepare_loop lib W opts is sw g = Ret (err, sw', g')"
proof (induction "is" arbitrary: sw g)
  case (Cons i "is")
  define nm where "nm = workerName (poolName sw) i"
  define sw1 where "sw1 = assign_port nm i sw"
  have "env_ok lib W sw1" using Cons.prems by (simp add: sw1_def)
  from prepareWorkerInternal_total [OF this, of opts nm 0 g] obtain g2 where
    p: "prepareWorkerInternal lib W opts nm 0 sw1 g = Ret (sw1\<lparr>workers := AList.update nm (nextAddr g) (workers sw1)\<rparr>, g2)"
    by blast
  show ?case
  proof (cases "nm \<in> set (keys (workers sw))")
    case False
    from Cons.IH [of "sw1\<lparr>workers := AList.update nm (nextAddr g) (workers sw1)\<rparr>"] Cons.prems p False show ?thesis
      by (simp add: sw1_def nm_def Let_def)
  qed (simp add: nm_def Let_def)
qed simp

context worker_contract
begin

lemma prepare_loop_env:
  "prepare_loop lib W opts is sw g = Ret (err, sw', g') \<Longrightarrow> env_ok lib W sw \<Longrightarrow> env_ok lib W sw'"
proof (induction "is" arbitrary: sw g)
  case (Cons i "is")
  show ?case
  proof (cases "workerName (poolName sw) i \<in> set (keys (workers sw))")
    case False
    let ?nm = "workerName (poolName sw) i"
    from prepareWorkerInternal_total [of lib W "assign_port ?nm i sw" opts ?nm 0 g] Cons.prems(2) obtain g2 where
      "prepareWorkerInternal lib W opts ?nm 0 (assign_port ?nm i sw) g =
         Ret ((assign_port ?nm i sw)\<lparr>workers := AList.update ?nm (nextAddr g) (workers (assign_port ?nm i sw))\<rparr>, g2)"
      by auto
    with Cons.prems False Cons.IH show ?thesis by (simp add: Let_def)
  qed (use Cons.prems in \<open>simp add: Let_def\<close>)
qed simp

lemma PoolPrepareWorkers_total:
  assumes "env_ok lib W sw"
  shows "\<exists>err sw' g'. PoolPrepareWorkers lib W opts sw g = Ret (err, sw', g')"
proof -
  from assms prepare_loop_total [of lib W "sw\<lparr>pstate := Prepared\<rparr>" opts "[0..<nat (replicas sw)]" g] obtain e1 sw1 g1 where
    l: "prepare_loop lib W opts [0..<nat (replicas sw)] (sw\<lparr>pstate := Prepared\<rparr>) g = Ret (e1, sw1, g1)" by auto
  have "env_ok lib W sw1" using prepare_loop_env [OF l] assms by simp
  with l prepareProxy_total [of lib W sw1 "\<lparr>Buffered = False, Streaming = False\<rparr>" g1] show ?thesis
    by (auto simp: PoolPrepareWorkers_def HasProxy_def)
qed

lemma RestartWorker_total:
  assumes inv: "pool_inv W wid wpool sw g" and env: "env_ok lib W sw" and k: "k \<in> set (keys (workers sw))"
  shows "\<exists>err sw' g'. RestartWorker lib W opts k sw g = Ret (err, sw', g')"
proof -
  from pool_inv_lookup [OF inv k] obtain a w0 where a: "map_of (workers sw) k = Some a" "heap g a = Some w0" by blast
  show ?thesis
  proof (cases "k = ProxyId")
    case True
    with inv k have "HasProxy sw" by (simp add: pool_inv_def)
    from prepareProxy_total [OF env this] obtain err sw' g' where p: "prepareProxy lib W opts sw g = Ret (err, sw', g')"
      "err = None \<longrightarrow> map_of (workers sw') ProxyId = Some (nextAddr g) \<and> heap g' (nextAddr g) \<noteq> None" by blast
    with a True show ?thesis by (cases err) (auto simp: RestartWorker_def Let_def on_worker_def simp del: obind_eq_Ret_iff)
  next
    case False
    obtain g' w where "prepareWorkerInternal lib W opts k (wrap64 (w_Restarts W w0 + 1)) sw g =
        Ret (sw\<lparr>workers := AList.update k (nextAddr g) (workers sw)\<rparr>, g')" "heap g' (nextAddr g) = Some w"
      using prepareWorkerInternal_total [OF env] by blast
    with a False show ?thesis by (simp add: RestartWorker_def Let_def on_worker_def)
  qed
qed

end

end
