(* ===== verification/Supervisor.thy ===== *)
theory Supervisor
  imports Worker_Pool
begin

text \<open>
  \<open>internal/supervisor/supervisor.go\<close> and \<open>config.go\<close>: the supervisor that starts
  the pools, restarts what ends, and on shutdown interrupts everything and waits for the
  last process. It reaches a pool only through the interface \<open>WorkerPoolAbstraction\<close>,
  the record \<open>pool_ops\<close>; \<open>worker_pool_ops\<close> is its implementation by
  \<open>Worker_Pool\<close>.

  \<open>Run\<close> blocks on its channel and on the context, so it is a state machine: \<open>run_loc\<close>
  is where it waits, and one function per branch of its two loops runs it up to the next
  wait. Its local variables are fields of \<open>run_state\<close>. Process counts are exact integers
  (each process is an object on the heap, so they stay far below \<open>2 ^ 63\<close>).
\<close>

record ('p, 'w) pool_ops =
  p_RunAll :: "'p \<Rightarrow> 'w world \<Rightarrow> ('p \<times> 'w world) outcome"
  p_InterruptWorker :: "string \<Rightarrow> 'p \<Rightarrow> 'w world \<Rightarrow> ('p \<times> 'w world) outcome"
  p_InterruptAll :: "'p \<Rightarrow> 'w world \<Rightarrow> ('p \<times> 'w world) outcome"
  p_ForceTerminateWorker :: "string \<Rightarrow> 'p \<Rightarrow> 'w world \<Rightarrow> ('p \<times> 'w world) outcome"
  p_WaitForWorkerToCleanBuffer :: "string \<Rightarrow> 'p \<Rightarrow> 'w world \<Rightarrow> error option outcome"
  p_RestartWorker :: "cmdOptions \<Rightarrow> string \<Rightarrow> 'p \<Rightarrow> 'w world \<Rightarrow> (error option \<times> 'p \<times> 'w world) outcome"
  p_IsHealthy :: "'p \<Rightarrow> 'w world \<Rightarrow> bool"
  p_HasProxy :: "'p \<Rightarrow> bool"
  p_RunningCount :: "'p \<Rightarrow> 'w world \<Rightarrow> int"

text \<open>\<open>ordR\<close> and \<open>ordI\<close> give the order in which \<open>RunAll\<close> and \<open>InterruptAll\<close>
  visit the workers of a pool; every order Go may choose is some \<open>ordR\<close>, \<open>ordI\<close>.\<close>

definition worker_pool_ops ::
  "golib \<Rightarrow> 'w worker_ops \<Rightarrow> (WorkerPool \<Rightarrow> string list) \<Rightarrow> (WorkerPool \<Rightarrow> string list) \<Rightarrow>
   (WorkerPool, 'w) pool_ops" where
  "worker_pool_ops lib W ordR ordI =
     \<lparr>p_RunAll = (\<lambda>p g. RunAll W (arrange (ordR p) (workers p)) p g), p_InterruptWorker = InterruptWorker W,
      p_InterruptAll = (\<lambda>p g. InterruptAll lib W (arrange (ordI p) (workers p)) p g),
      p_ForceTerminateWorker = ForceTerminateWorker W,
      p_WaitForWorkerToCleanBuffer = WaitForWorkerToCleanBuffer W,
      p_RestartWorker = RestartWorker lib W, p_IsHealthy = IsHealthy W, p_HasProxy = HasProxy,
      p_RunningCount = RunningCount W\<rparr>"

record SupervisorConfig =
  Workers :: "WorkerConfig list"

record 'p WorkerPoolInfo =
  pi_pool :: 'p
  runningProcesses :: int
  totalProcesses :: int

record 'p Supervisor =
  terminating :: bool
  pools :: "(string \<times> 'p WorkerPoolInfo) list"
  sconfig :: SupervisorConfig
  cmdOpts :: cmdOptions

datatype run_loc = MainLoop | ShutdownLoop | Returned "error option"

record ('p, 'w) run_state =
  loc :: run_loc
  sup :: "'p Supervisor"
  terminatedProcesses :: int
  allProcesses :: int
  ctxDone :: bool
  wld :: "'w world"

fun valid_loop :: "(string \<Rightarrow> error option) \<Rightarrow> WorkerConfig list \<Rightarrow> error option" where
  "valid_loop parse [] = None"
| "valid_loop parse (w # ws) =
     (case IsValid_w parse w of Some err \<Rightarrow> Some err | None \<Rightarrow> valid_loop parse ws)"

definition IsValid_sup :: "(string \<Rightarrow> error option) \<Rightarrow> SupervisorConfig \<Rightarrow> error option" where
  "IsValid_sup parse s = valid_loop parse (Workers s)"

definition NewSupervisor :: "SupervisorConfig \<Rightarrow> bool \<Rightarrow> error + 'p Supervisor" where
  "NewSupervisor config loggerNil =
     (if loggerNil then Inl (Errorw (CommonErr ErrRequirementParameterMissing) '': name logger'')
      else Inr \<lparr>terminating = False, pools = [], sconfig = config,
                cmdOpts = \<lparr>Buffered = False, Streaming = True\<rparr>\<rparr>)"

subsection \<open>Creating the pools\<close>

fun create_loop ::
  "golib \<Rightarrow> 'w worker_ops \<Rightarrow> cmdOptions \<Rightarrow> WorkerConfig list \<Rightarrow>
   (string \<times> WorkerPool WorkerPoolInfo) list \<Rightarrow> int \<Rightarrow> 'w world \<Rightarrow>
   (((string \<times> WorkerPool WorkerPoolInfo) list \<times> int \<times> error option) \<times> 'w world) outcome" where
  "create_loop lib W opts [] ps tot g = Ret ((ps, tot, None), g)"
| "create_loop lib W opts (w # ws) ps tot g =
     (let tot1 = tot + wc_Replicas w
      in if wc_Name w \<in> set (keys ps) then
           Ret (([], tot1, Some (Errorw (SupervisorErr errDuplicateWorkerName)
             ('': collision detected workers with the same name '' @ wc_Name w))), g)
         else (case NewWorkerPool lib False w of
             Inl err \<Rightarrow> Ret (([], tot1, Some err), g)
           | Inr pool \<Rightarrow>
               obind (PoolPrepareWorkers lib W opts pool g)
                 (\<lambda>(err, pool1, g1).
                    if err \<noteq> None then Ret (([], tot1, err), g1)
                    else
                      let proxyProcess = (if HasProxy pool1 then 1 else 0);
                          g2 = (if HasProxy pool1 then upd_mets SetProxyModeGauge g1 else g1);
                          n = wc_Replicas w + proxyProcess
                      in create_loop lib W opts ws
                           (AList.update (wc_Name w)
                              \<lparr>pi_pool = pool1, runningProcesses = n, totalProcesses = n\<rparr> ps)
                           (tot1 + proxyProcess) g2)))"

definition createAndPreparePools ::
  "golib \<Rightarrow> 'w worker_ops \<Rightarrow> WorkerPool Supervisor \<Rightarrow> 'w world \<Rightarrow>
   (((string \<times> WorkerPool WorkerPoolInfo) list \<times> int \<times> error option) \<times> 'w world) outcome" where
  "createAndPreparePools lib W s g = create_loop lib W (cmdOpts s) (Workers (sconfig s)) [] 0 g"

subsection \<open>Handlers\<close>

text \<open>
  \<open>s.pools[name].pool.f(...)\<close>: a missing name reads the zero \<open>WorkerPoolInfo\<close>, whose
  pool is nil, and the call panics. The pool is a pointer, so what \<open>f\<close> changes stays.
\<close>

definition set_pool :: "string \<Rightarrow> 'p \<Rightarrow> 'p Supervisor \<Rightarrow> 'p Supervisor" where
  "set_pool n p s =
     (case map_of (pools s) n of
        None \<Rightarrow> s
      | Some i \<Rightarrow> s\<lparr>pools := AList.update n (i\<lparr>pi_pool := p\<rparr>) (pools s)\<rparr>)"

definition on_pool ::
  "('p \<Rightarrow> 'w world \<Rightarrow> ('p \<times> 'w world) outcome) \<Rightarrow> string \<Rightarrow> 'p Supervisor \<Rightarrow> 'w world \<Rightarrow>
   ('p Supervisor \<times> 'w world) outcome" where
  "on_pool f n s g =
     obind (deref (map_of (pools s) n))
       (\<lambda>i. obind (f (pi_pool i) g) (\<lambda>(p, g1). Ret (set_pool n p s, g1)))"

definition handleProcessTerminationDuringShutdown ::
  "('p, 'w) pool_ops \<Rightarrow> SupervisorEvent \<Rightarrow> 'p Supervisor \<Rightarrow> 'w world \<Rightarrow> ('p Supervisor \<times> 'w world) outcome" where
  "handleProcessTerminationDuringShutdown P event s g =
     obind (deref (map_of (pools s) (ev_Pool event)))
       (\<lambda>pInfo.
          let pInfo1 = pInfo\<lparr>runningProcesses := runningProcesses pInfo - 1\<rparr>
          in obind
               (if p_HasProxy P (pi_pool pInfo1) \<and> runningProcesses pInfo1 = totalProcesses pInfo1 - 1
                then p_InterruptWorker P ProxyId (pi_pool pInfo1) g
                else Ret (pi_pool pInfo1, g))
               (\<lambda>(p, g1). Ret (s\<lparr>pools := AList.update (ev_Pool event) (pInfo1\<lparr>pi_pool := p\<rparr>) (pools s)\<rparr>, g1)))"

definition handleProcessExceededLimit ::
  "('p, 'w) pool_ops \<Rightarrow> SupervisorEvent \<Rightarrow> 'p Supervisor \<Rightarrow> 'w world \<Rightarrow> ('p Supervisor \<times> 'w world) outcome" where
  "handleProcessExceededLimit P e s g = on_pool (p_InterruptWorker P (ev_Id e)) (ev_Pool e) s g"

definition handleProcessNeedsInterrupt ::
  "('p, 'w) pool_ops \<Rightarrow> SupervisorEvent \<Rightarrow> 'p Supervisor \<Rightarrow> 'w world \<Rightarrow> ('p Supervisor \<times> 'w world) outcome" where
  "handleProcessNeedsInterrupt P e s g = on_pool (p_InterruptWorker P (ev_Id e)) (ev_Pool e) s g"

definition handleProcessNeedsTermination ::
  "('p, 'w) pool_ops \<Rightarrow> SupervisorEvent \<Rightarrow> 'p Supervisor \<Rightarrow> 'w world \<Rightarrow> ('p Supervisor \<times> 'w world) outcome" where
  "handleProcessNeedsTermination P e s g = on_pool (p_ForceTerminateWorker P (ev_Id e)) (ev_Pool e) s g"

definition handleProcessEnd ::
  "('p, 'w) pool_ops \<Rightarrow> SupervisorEvent \<Rightarrow> 'p Supervisor \<Rightarrow> 'w world \<Rightarrow>
   (error option \<times> 'p Supervisor \<times> 'w world) outcome" where
  "handleProcessEnd P e s g =
     obind (deref (map_of (pools s) (ev_Pool e)))
       (\<lambda>i. obind (p_WaitForWorkerToCleanBuffer P (ev_Id e) (pi_pool i) g)
          (\<lambda>werr.
             if werr \<noteq> None then Panic ''invalid state''
             else
               let g1 = upd_mets (DecrementRunningIncrementTerminated (ev_Pool e)) g
               in if terminating s then
                    Ret (Some (Errorf ''Supervisor is already terminating''), s, g1)
                  else
                    obind (p_RestartWorker P (cmdOpts s) (ev_Id e) (pi_pool i) g1)
                      (\<lambda>(err, p, g2). Ret (err, set_pool (ev_Pool e) p s, g2))))"

definition IsHealthy_sup :: "('p, 'w) pool_ops \<Rightarrow> 'p Supervisor \<Rightarrow> 'w world \<Rightarrow> bool" where
  "IsHealthy_sup P s g \<longleftrightarrow> list_all (\<lambda>(n, i). p_IsHealthy P (pi_pool i) g) (pools s)"

subsection \<open>Run\<close>

fun for_pools ::
  "('p \<Rightarrow> 'w world \<Rightarrow> ('p \<times> 'w world) outcome) \<Rightarrow> string list \<Rightarrow> 'p Supervisor \<Rightarrow> 'w world \<Rightarrow>
   ('p Supervisor \<times> 'w world) outcome" where
  "for_pools f [] s g = Ret (s, g)"
| "for_pools f (n # ns) s g = obind (on_pool f n s g) (\<lambda>(s1, g1). for_pools f ns s1 g1)"

text \<open>\<open>Run\<close> up to its first wait; \<open>ns\<close> is the order in which the pools are visited.\<close>

definition Run_start ::
  "golib \<Rightarrow> 'w worker_ops \<Rightarrow> (WorkerPool, 'w) pool_ops \<Rightarrow> string list \<Rightarrow> bool \<Rightarrow> WorkerPool Supervisor \<Rightarrow>
   'w world \<Rightarrow> (WorkerPool, 'w) run_state outcome" where
  "Run_start lib W P ns ctx s g =
     obind (createAndPreparePools lib W s g)
       (\<lambda>((pInfo, tot, err), g1).
          if err \<noteq> None then
            Ret \<lparr>loc = Returned err, sup = s, terminatedProcesses = 0, allProcesses = tot,
                 ctxDone = ctx, wld = g1\<rparr>
          else
            obind (for_pools (p_RunAll P) ns (s\<lparr>pools := pInfo\<rparr>) g1)
              (\<lambda>(s2, g2). Ret \<lparr>loc = MainLoop, sup = s2, terminatedProcesses = 0,
                               allProcesses = tot, ctxDone = ctx, wld = g2\<rparr>))"

text \<open>
  The events other than \<open>ProcessEnd\<close>, in the main loop (\<open>shutting = False\<close>) and in
  the shutdown loop, which ignores exceeded limits.
\<close>

definition other_event ::
  "bool \<Rightarrow> ('p, 'w) pool_ops \<Rightarrow> SupervisorEvent \<Rightarrow> 'p Supervisor \<Rightarrow> 'w world \<Rightarrow> ('p Supervisor \<times> 'w world) outcome" where
  "other_event shutting P e s g =
     (case ev_Type e of
        ProcessNeedsInterrupt \<Rightarrow> handleProcessNeedsInterrupt P e s g
      | ProcessNeedsTermination \<Rightarrow> handleProcessNeedsTermination P e s g
      | ProcessExceededLimit \<Rightarrow> (if shutting then Ret (s, g) else handleProcessExceededLimit P e s g)
      | ProcessEnd \<Rightarrow> Ret (s, g))"

text \<open>An event received by the main loop.\<close>

definition main_event ::
  "('p, 'w) pool_ops \<Rightarrow> SupervisorEvent \<Rightarrow> ('p, 'w) run_state \<Rightarrow> ('p, 'w) run_state outcome" where
  "main_event P e st =
     (if ev_Type e = ProcessEnd then
        obind (handleProcessEnd P e (sup st) (wld st))
          (\<lambda>(err, s1, g1).
             if err \<noteq> None then
               obind (handleProcessTerminationDuringShutdown P e s1 g1)
                 (\<lambda>(s2, g2). Ret (st\<lparr>sup := s2, wld := g2,
                    ctxDone := ctxDone st \<or> err_is err TooManyRestarts,
                    terminatedProcesses := terminatedProcesses st + 1\<rparr>))
             else
               obind (deref (ev_Cmd e))
                 (\<lambda>_. Ret (st\<lparr>sup := s1,
                    wld := upd_mets (IncrementRunningDecrementTerminated (ev_Pool e)) g1\<rparr>)))
      else obind (other_event False P e (sup st) (wld st)) (\<lambda>(s1, g1). Ret (st\<lparr>sup := s1, wld := g1\<rparr>)))"

text \<open>The end of \<open>Run\<close>: the check that no process is left.\<close>

definition running_sum :: "('p, 'w) pool_ops \<Rightarrow> 'p Supervisor \<Rightarrow> 'w world \<Rightarrow> int" where
  "running_sum P s g = (\<Sum>ni\<leftarrow>pools s. p_RunningCount P (pi_pool (snd ni)) g)"

definition Run_finish :: "('p, 'w) pool_ops \<Rightarrow> ('p, 'w) run_state \<Rightarrow> ('p, 'w) run_state" where
  "Run_finish P st =
     (let sum = running_sum P (sup st) (wld st)
      in st\<lparr>loc := Returned (if sum \<noteq> 0
                             then Some (Errorf (''monoceros cleanup went wrong: '' @ showInt sum @ ''-0''))
                             else None)\<rparr>)"

text \<open>\<open>ctx.Done()\<close> selected by the main loop.\<close>

definition ctx_done :: "('p, 'w) pool_ops \<Rightarrow> string list \<Rightarrow> ('p, 'w) run_state \<Rightarrow> ('p, 'w) run_state outcome" where
  "ctx_done P ns st =
     obind (for_pools (p_InterruptAll P) ns ((sup st)\<lparr>terminating := True\<rparr>)
              (upd_mets SetSigtermGauge (wld st)))
       (\<lambda>(s1, g1). Ret (st\<lparr>sup := s1, wld := g1,
          loc := (if terminatedProcesses st = allProcesses st then Returned None else ShutdownLoop)\<rparr>))"

text \<open>An event received by the shutdown loop, and the loop's test after it.\<close>

definition shutdown_event ::
  "('p, 'w) pool_ops \<Rightarrow> SupervisorEvent \<Rightarrow> ('p, 'w) run_state \<Rightarrow> ('p, 'w) run_state outcome" where
  "shutdown_event P e st =
     obind
       (if ev_Type e = ProcessEnd then
          obind (handleProcessEnd P e (sup st) (wld st))
            (\<lambda>(err, s1, g1).
               if err \<noteq> None then
                 obind (handleProcessTerminationDuringShutdown P e s1 g1)
                   (\<lambda>(s2, g2). Ret (st\<lparr>sup := s2, wld := g2,
                      terminatedProcesses := terminatedProcesses st + 1\<rparr>))
               else Ret (st\<lparr>sup := s1, wld := g1\<rparr>))
        else obind (other_event True P e (sup st) (wld st)) (\<lambda>(s1, g1). Ret (st\<lparr>sup := s1, wld := g1\<rparr>)))
       (\<lambda>st1. Ret (if terminatedProcesses st1 = allProcesses st1 then Run_finish P st1 else st1))"

end
