(* ===== verification/Supervisor_Invariant.thy ===== *)
theory Supervisor_Invariant
  imports Supervisor Pool_Invariant
begin

text \<open>
  The supervisor's accounting. The contract of \<open>WorkerPoolAbstraction\<close> is the locale
  \<open>pool_contract\<close>; inside it every step of \<open>Run\<close> is shown to keep the counters, the
  pools' invariants and the Prometheus gauges consistent, whatever events arrive.
\<close>

subsection \<open>The contract of a pool\<close>

definition pool_keeps ::
  "('p, 'w) pool_ops \<Rightarrow> ('p \<Rightarrow> 'w world \<Rightarrow> bool) \<Rightarrow> ('p \<Rightarrow> string set) \<Rightarrow> ('p \<Rightarrow> string) \<Rightarrow>
   ('w world \<Rightarrow> 'w world \<Rightarrow> bool) \<Rightarrow> 'p \<Rightarrow> 'w world \<Rightarrow> 'p \<Rightarrow> 'w world \<Rightarrow> bool" where
  "pool_keeps P pinv ids nm ev p g p' g' \<longleftrightarrow>
     pinv p' g' \<and> ev g g' \<and> ids p' = ids p \<and> nm p' = nm p \<and> p_HasProxy P p' = p_HasProxy P p"

text \<open>
  \<open>pinv\<close> is the pool's own invariant, \<open>ids\<close> its process names, \<open>nm\<close> its name and
  \<open>ev\<close> what may happen to the rest of the world meanwhile. Only \<open>RunAll\<close> touches the
  worker gauge.
\<close>

locale pool_contract =
  fixes P :: "('p, 'w) pool_ops" and pinv :: "'p \<Rightarrow> 'w world \<Rightarrow> bool" and ids :: "'p \<Rightarrow> string set"
    and nm :: "'p \<Rightarrow> string" and ev :: "'w world \<Rightarrow> 'w world \<Rightarrow> bool"
  assumes ev_refl: "ev g g"
    and ev_trans: "ev g g1 \<Longrightarrow> ev g1 g2 \<Longrightarrow> ev g g2"
    and ev_mets: "ev g (upd_mets f g)"
    and pinv_ev: "pinv p g \<Longrightarrow> ev g g' \<Longrightarrow> pinv p g'"
    and run_all: "pinv p g \<Longrightarrow> p_RunAll P p g = Ret (p', g') \<Longrightarrow>
          pool_keeps P pinv ids nm ev p g p' g' \<and>
          gauge (mets g') = gauge (AddRunningStats (nm p) (int (card (ids p))) (mets g))"
    and interrupt_worker: "pinv p g \<Longrightarrow> p_InterruptWorker P k p g = Ret (p', g') \<Longrightarrow>
          pool_keeps P pinv ids nm ev p g p' g' \<and> gauge (mets g') = gauge (mets g)"
    and interrupt_all: "pinv p g \<Longrightarrow> p_InterruptAll P p g = Ret (p', g') \<Longrightarrow>
          pool_keeps P pinv ids nm ev p g p' g' \<and> gauge (mets g') = gauge (mets g)"
    and force_terminate: "pinv p g \<Longrightarrow> p_ForceTerminateWorker P k p g = Ret (p', g') \<Longrightarrow>
          pool_keeps P pinv ids nm ev p g p' g' \<and> gauge (mets g') = gauge (mets g)"
    and restart: "pinv p g \<Longrightarrow> p_RestartWorker P opts k p g = Ret (err, p', g') \<Longrightarrow>
          pool_keeps P pinv ids nm ev p g p' g' \<and> gauge (mets g') = gauge (mets g)"
    and run_all_total: "pinv p g \<Longrightarrow> \<exists>p' g'. p_RunAll P p g = Ret (p', g')"
    and interrupt_worker_total: "pinv p g \<Longrightarrow> k \<in> ids p \<Longrightarrow> \<exists>p' g'. p_InterruptWorker P k p g = Ret (p', g')"
    and interrupt_all_total: "pinv p g \<Longrightarrow> \<exists>p' g'. p_InterruptAll P p g = Ret (p', g')"
    and force_terminate_total: "pinv p g \<Longrightarrow> k \<in> ids p \<Longrightarrow> \<exists>p' g'. p_ForceTerminateWorker P k p g = Ret (p', g')"
    and proxy_id: "pinv p g \<Longrightarrow> p_HasProxy P p \<Longrightarrow> ProxyId \<in> ids p"

subsection \<open>The invariant of Run\<close>

text \<open>
  \<open>d\<close> is how many ends of processes the gauges are ahead of \<open>runningProcesses\<close>: 0
  while \<open>Run\<close> waits, 1 for one pool inside the handling of a \<open>ProcessEnd\<close>.
\<close>

definition pool_row ::
  "('p \<Rightarrow> 'w world \<Rightarrow> bool) \<Rightarrow> ('p \<Rightarrow> string set) \<Rightarrow> ('p \<Rightarrow> string) \<Rightarrow> int \<Rightarrow> 'w world \<Rightarrow> string \<Rightarrow>
   'p WorkerPoolInfo \<Rightarrow> bool" where
  "pool_row pinv ids nm d g n i \<longleftrightarrow>
     pinv (pi_pool i) g \<and> nm (pi_pool i) = n \<and> totalProcesses i = int (card (ids (pi_pool i))) \<and>
     gauge (mets g) n stateRunning = runningProcesses i - d \<and>
     gauge (mets g) n stateTerminated = totalProcesses i - runningProcesses i + d"

definition pools_ok ::
  "('p \<Rightarrow> 'w world \<Rightarrow> bool) \<Rightarrow> ('p \<Rightarrow> string set) \<Rightarrow> ('p \<Rightarrow> string) \<Rightarrow> (string \<Rightarrow> int) \<Rightarrow>
   'p Supervisor \<Rightarrow> 'w world \<Rightarrow> bool" where
  "pools_ok pinv ids nm d s g \<longleftrightarrow>
     distinct (keys (pools s)) \<and> (\<forall>n i. map_of (pools s) n = Some i \<longrightarrow> pool_row pinv ids nm (d n) g n i)"

definition terminated_sum :: "'p Supervisor \<Rightarrow> int" where
  "terminated_sum s = (\<Sum>i\<leftarrow>map snd (pools s). totalProcesses i - runningProcesses i)"

definition total_sum :: "'p Supervisor \<Rightarrow> int" where
  "total_sum s = (\<Sum>i\<leftarrow>map snd (pools s). totalProcesses i)"

definition sup_inv ::
  "('p \<Rightarrow> 'w world \<Rightarrow> bool) \<Rightarrow> ('p \<Rightarrow> string set) \<Rightarrow> ('p \<Rightarrow> string) \<Rightarrow> ('p, 'w) run_state \<Rightarrow> bool" where
  "sup_inv pinv ids nm st \<longleftrightarrow>
     pools_ok pinv ids nm (\<lambda>_. 0) (sup st) (wld st) \<and>
     terminatedProcesses st = terminated_sum (sup st) \<and> allProcesses st = total_sum (sup st) \<and>
     (loc st = MainLoop \<longrightarrow> \<not> terminating (sup st)) \<and> (loc st = ShutdownLoop \<longrightarrow> terminating (sup st))"

text \<open>A row before \<open>RunAll\<close>: no process of the pool has been counted.\<close>

definition new_row ::
  "('p \<Rightarrow> 'w world \<Rightarrow> bool) \<Rightarrow> ('p \<Rightarrow> string set) \<Rightarrow> ('p \<Rightarrow> string) \<Rightarrow> 'w world \<Rightarrow> string \<Rightarrow>
   'p WorkerPoolInfo \<Rightarrow> bool" where
  "new_row pinv ids nm g n i \<longleftrightarrow>
     pinv (pi_pool i) g \<and> nm (pi_pool i) = n \<and> totalProcesses i = int (card (ids (pi_pool i))) \<and>
     runningProcesses i = totalProcesses i \<and>
     gauge (mets g) n stateRunning = 0 \<and> gauge (mets g) n stateTerminated = 0"

text \<open>
  One step of \<open>Run\<close> as the rest of the program sees it: an event or the context is
  received, a signal arrives, or the world moves on under \<open>ev\<close>.
\<close>

inductive sup_step ::
  "('p, 'w) pool_ops \<Rightarrow> ('w world \<Rightarrow> 'w world \<Rightarrow> bool) \<Rightarrow> ('p, 'w) run_state \<Rightarrow> ('p, 'w) run_state \<Rightarrow> bool"
  for P ev where
  main: "loc st = MainLoop \<Longrightarrow> main_event P e st = Ret st' \<Longrightarrow> sup_step P ev st st'"
| ctx: "loc st = MainLoop \<Longrightarrow> ctxDone st \<Longrightarrow> range_order (pools (sup st)) ns \<Longrightarrow>
         ctx_done P ns st = Ret st' \<Longrightarrow> sup_step P ev st st'"
| shutdown: "loc st = ShutdownLoop \<Longrightarrow> shutdown_event P e st = Ret st' \<Longrightarrow> sup_step P ev st st'"
| signal: "sup_step P ev st (st\<lparr>ctxDone := True\<rparr>)"
| environment: "ev (wld st) g \<Longrightarrow> gauge (mets g) = gauge (mets (wld st)) \<Longrightarrow>
         sup_step P ev st (st\<lparr>wld := g\<rparr>)"

inductive_cases sup_step_cases: "sup_step P ev st st'"

subsection \<open>Updating one pool\<close>

lemma sum_list_update:
  fixes f :: "'a \<Rightarrow> int"
  assumes "distinct (keys m)" and "map_of m n = Some i"
  shows "(\<Sum>x\<leftarrow>map snd (AList.update n j m). f x) = (\<Sum>x\<leftarrow>map snd m. f x) - f i + f j"
  using assms by (induction m) (auto simp: keys_def)

lemma terminated_sum_update:
  assumes "distinct (keys (pools s))" and "map_of (pools s) n = Some i"
  shows "terminated_sum (s\<lparr>pools := AList.update n j (pools s)\<rparr>) =
         terminated_sum s - (totalProcesses i - runningProcesses i) + (totalProcesses j - runningProcesses j)"
  using sum_list_update [OF assms, of "\<lambda>i. totalProcesses i - runningProcesses i" j]
  by (simp add: terminated_sum_def)

lemma total_sum_update:
  assumes "distinct (keys (pools s))" and "map_of (pools s) n = Some i"
  shows "total_sum (s\<lparr>pools := AList.update n j (pools s)\<rparr>) = total_sum s - totalProcesses i + totalProcesses j"
  using sum_list_update [OF assms, of totalProcesses j] by (simp add: total_sum_def)

lemma set_pool_Some:
  "map_of (pools s) n = Some i \<Longrightarrow> set_pool n p s = s\<lparr>pools := AList.update n (i\<lparr>pi_pool := p\<rparr>) (pools s)\<rparr>"
  by (simp add: set_pool_def)

lemma set_pool_sums:
  assumes "distinct (keys (pools s))"
  shows "terminated_sum (set_pool n p s) = terminated_sum s" "total_sum (set_pool n p s) = total_sum s"
  using assms
  by (simp_all add: set_pool_def terminated_sum_update total_sum_update split: option.split)

lemma set_pool_fields [simp]:
  "terminating (set_pool n p s) = terminating s" "cmdOpts (set_pool n p s) = cmdOpts s"
  by (simp_all add: set_pool_def split: option.split)

lemma set_pool_keys [simp]: "keys (pools (set_pool n p s)) = keys (pools s)"
proof (cases "map_of (pools s) n")
  case (Some i)
  then have "n \<in> set (keys (pools s))" by (rule map_of_in_keys)
  with Some show ?thesis by (simp add: set_pool_def keys_update_in)
qed (simp add: set_pool_def del: map_of_None_iff)

lemma for_pools_keys: "for_pools f ns s g = Ret (s', g') \<Longrightarrow> keys (pools s') = keys (pools s)"
  by (induction ns arbitrary: s g) (auto simp: on_pool_def)

lemma create_loop_Cons:
  assumes "create_loop lib W opts (c # ws) ps tot g = Ret ((ps', tot', None), g')"
  obtains pool pool1 g1 px where "wc_Name c \<notin> set (keys ps)" "NewWorkerPool lib False c = Inr pool"
    "PoolPrepareWorkers lib W opts pool g = Ret (None, pool1, g1)" "px = (if HasProxy pool1 then 1 else 0)"
    "create_loop lib W opts ws
       (ps @ [(wc_Name c, \<lparr>pi_pool = pool1, runningProcesses = wc_Replicas c + px, totalProcesses = wc_Replicas c + px\<rparr>)])
       (tot + wc_Replicas c + px) (if HasProxy pool1 then upd_mets SetProxyModeGauge g1 else g1) = Ret ((ps', tot', None), g')"
proof -
  from assms have notin: "wc_Name c \<notin> set (keys ps)" by (auto simp: Let_def)
  from assms notin obtain pool where new: "NewWorkerPool lib False c = Inr pool"
    by (auto simp: Let_def split: sum.splits)
  from assms notin new obtain pool1 g1 where prep: "PoolPrepareWorkers lib W opts pool g = Ret (None, pool1, g1)"
    by (auto simp: Let_def split: if_splits prod.splits)
  from notin new prep show ?thesis
    by (rule that [OF _ _ _ refl]) (use assms in \<open>simp add: Let_def new prep notin update_notin\<close>)
qed

lemma create_loop_keys:
  "create_loop lib W opts ws ps tot g = Ret ((ps', tot', None), g') \<Longrightarrow> keys ps' = keys ps @ map wc_Name ws"
proof (induction ws arbitrary: ps tot g)
  case (Cons c ws)
  from Cons.prems show ?case by (rule create_loop_Cons) (auto dest: Cons.IH)
qed simp

context pool_contract
begin

lemma pools_ok_row:
  "pools_ok pinv ids nm d s g \<Longrightarrow> map_of (pools s) n = Some i \<Longrightarrow> pool_row pinv ids nm (d n) g n i"
  by (simp add: pools_ok_def)

lemma row_frame:
  assumes "pool_row pinv ids nm c g n i" and "ev g g'"
    and "\<And>s. gauge (mets g') n s = gauge (mets g) n s"
  shows "pool_row pinv ids nm c g' n i"
  using assms pinv_ev by (auto simp: pool_row_def)

lemma pools_ok_frame:
  "pools_ok pinv ids nm d s g \<Longrightarrow> ev g g' \<Longrightarrow> gauge (mets g') = gauge (mets g) \<Longrightarrow> pools_ok pinv ids nm d s g'"
  by (simp add: pools_ok_def pool_row_def) (meson pinv_ev)

text \<open>The general update: one row is replaced, the others only see the world move.\<close>

lemma pools_ok_update:
  assumes ok: "pools_ok pinv ids nm d s g" and ev: "ev g g'" and row: "pool_row pinv ids nm (d' n) g' n j"
    and others: "\<And>m s. m \<noteq> n \<Longrightarrow> gauge (mets g') m s = gauge (mets g) m s \<and> d' m = d m"
  shows "pools_ok pinv ids nm d' (s\<lparr>pools := AList.update n j (pools s)\<rparr>) g'"
proof -
  have "pool_row pinv ids nm (d' m) g' m i" if "map_of (pools s) m = Some i" "m \<noteq> n" for m i
    using row_frame [OF _ ev] pools_ok_row [OF ok that(1)] others [OF that(2)] by simp
  then show ?thesis using ok row by (simp add: pools_ok_def)
qed

lemma pools_ok_set_pool:
  assumes ok: "pools_ok pinv ids nm d s g" and i: "map_of (pools s) n = Some i"
    and k: "pool_keeps P pinv ids nm ev (pi_pool i) g p' g'" and ga: "gauge (mets g') = gauge (mets g)"
  shows "pools_ok pinv ids nm d (set_pool n p' s) g'"
proof -
  have "pool_row pinv ids nm (d n) g' n (i\<lparr>pi_pool := p'\<rparr>)"
    using pools_ok_row [OF ok i] k ga by (simp add: pool_row_def pool_keeps_def)
  then show ?thesis
    unfolding set_pool_Some [OF i] using ok k ga by (intro pools_ok_update) (simp_all add: pool_keeps_def)
qed

lemma on_pool_ok:
  assumes ok: "pools_ok pinv ids nm d s g" and ret: "on_pool f n s g = Ret (s', g')"
    and f: "\<And>p p' g'. pinv p g \<Longrightarrow> f p g = Ret (p', g') \<Longrightarrow>
              pool_keeps P pinv ids nm ev p g p' g' \<and> gauge (mets g') = gauge (mets g)"
  shows "pools_ok pinv ids nm d s' g' \<and> terminated_sum s' = terminated_sum s \<and> total_sum s' = total_sum s \<and>
         terminating s' = terminating s \<and> ev g g' \<and> keys (pools s') = keys (pools s) \<and>
         gauge (mets g') = gauge (mets g)"
proof -
  from ret obtain i p' where i: "map_of (pools s) n = Some i" and p: "f (pi_pool i) g = Ret (p', g')"
    and s': "s' = set_pool n p' s" by (auto simp: on_pool_def)
  have "pinv (pi_pool i) g" using pools_ok_row [OF ok i] by (simp add: pool_row_def)
  from f [OF this p] have "pool_keeps P pinv ids nm ev (pi_pool i) g p' g'" "gauge (mets g') = gauge (mets g)" by auto
  with pools_ok_set_pool [OF ok i this] s' ok show ?thesis
    by (auto simp: set_pool_sums pools_ok_def pool_keeps_def)
qed

lemma for_pools_ok:
  assumes f: "\<And>p p' g g'. pinv p g \<Longrightarrow> f p g = Ret (p', g') \<Longrightarrow>
              pool_keeps P pinv ids nm ev p g p' g' \<and> gauge (mets g') = gauge (mets g)"
  shows "pools_ok pinv ids nm d s g \<Longrightarrow> for_pools f ns s g = Ret (s', g') \<Longrightarrow>
         pools_ok pinv ids nm d s' g' \<and> terminated_sum s' = terminated_sum s \<and> total_sum s' = total_sum s \<and>
         terminating s' = terminating s \<and> ev g g'"
proof (induction ns arbitrary: s g)
  case (Cons n ns)
  from Cons.prems(2) obtain s1 g1 where o: "on_pool f n s g = Ret (s1, g1)"
    and l: "for_pools f ns s1 g1 = Ret (s', g')" by (auto split: prod.splits)
  note ok1 = on_pool_ok [OF Cons.prems(1) o f]
  from Cons.IH [OF conjunct1 [OF ok1] l] ok1 show ?case by (auto intro: ev_trans)
qed (simp add: ev_refl)

subsection \<open>The steps of Run\<close>

text \<open>After the end of a process of pool \<open>n\<close> the gauges are one ahead there.\<close>

lemma pools_ok_dec:
  assumes "pools_ok pinv ids nm (\<lambda>_. 0) s g"
  shows "pools_ok pinv ids nm ((\<lambda>_. 0)(n := 1)) s (upd_mets (DecrementRunningIncrementTerminated n) g)"
  using assms pinv_ev [OF _ ev_mets] by (auto simp: pools_ok_def pool_row_def)

lemma pools_ok_inc:
  assumes "pools_ok pinv ids nm ((\<lambda>_. 0)(n := 1)) s g"
  shows "pools_ok pinv ids nm (\<lambda>_. 0) s (upd_mets (IncrementRunningDecrementTerminated n) g)"
  using assms pinv_ev [OF _ ev_mets] by (auto simp: pools_ok_def pool_row_def)

lemma handleProcessEnd_ok:
  assumes ok: "pools_ok pinv ids nm (\<lambda>_. 0) s g" and ret: "handleProcessEnd P e s g = Ret (err, s', g')"
  shows "pools_ok pinv ids nm ((\<lambda>_. 0)(ev_Pool e := 1)) s' g' \<and> ev g g' \<and> keys (pools s') = keys (pools s) \<and>
     terminated_sum s' = terminated_sum s \<and> total_sum s' = total_sum s \<and> terminating s' = terminating s \<and>
     (terminating s \<longrightarrow> err \<noteq> None)"
proof -
  define g1 where "g1 = upd_mets (DecrementRunningIncrementTerminated (ev_Pool e)) g"
  have ev1: "ev g g1" by (simp add: g1_def ev_mets)
  have ok1: "pools_ok pinv ids nm ((\<lambda>_. 0)(ev_Pool e := 1)) s g1" unfolding g1_def using ok by (rule pools_ok_dec)
  from ret obtain i where i: "map_of (pools s) (ev_Pool e) = Some i" by (auto simp: handleProcessEnd_def)
  show ?thesis
  proof (cases "terminating s")
    case True
    with ret i have "err \<noteq> None" "s' = s" "g' = g1"
      by (auto simp: handleProcessEnd_def g1_def Let_def split: if_splits)
    then show ?thesis using ok1 ev1 by simp
  next
    case False
    with ret i obtain p' where p: "p_RestartWorker P (cmdOpts s) (ev_Id e) (pi_pool i) g1 = Ret (err, p', g')"
      and s': "s' = set_pool (ev_Pool e) p' s"
      by (auto simp: handleProcessEnd_def g1_def Let_def split: if_splits)
    have "pinv (pi_pool i) g1" using pools_ok_row [OF ok1 i] by (simp add: pool_row_def)
    from restart [OF this p] have k: "pool_keeps P pinv ids nm ev (pi_pool i) g1 p' g'"
      and ga: "gauge (mets g') = gauge (mets g1)" by auto
    have "ev g g'" using k ev1 ev_trans by (auto simp: pool_keeps_def)
    with pools_ok_set_pool [OF ok1 i k ga] show ?thesis
      using s' False ok by (simp add: set_pool_sums pools_ok_def)
  qed
qed

lemma handleTermination_ok:
  assumes ok: "pools_ok pinv ids nm ((\<lambda>_. 0)(ev_Pool e := 1)) s g"
    and ret: "handleProcessTerminationDuringShutdown P e s g = Ret (s', g')"
  shows "pools_ok pinv ids nm (\<lambda>_. 0) s' g' \<and> ev g g' \<and> keys (pools s') = keys (pools s) \<and>
     terminated_sum s' = terminated_sum s + 1 \<and> total_sum s' = total_sum s \<and> terminating s' = terminating s"
proof -
  define n where "n = ev_Pool e"
  from ret obtain i p' where i: "map_of (pools s) n = Some i"
    and act: "(if p_HasProxy P (pi_pool i) \<and> runningProcesses i = totalProcesses i
       then p_InterruptWorker P ProxyId (pi_pool i) g else Ret (pi_pool i, g)) = Ret (p', g')"
    and s': "s' = s\<lparr>pools := AList.update n (i\<lparr>runningProcesses := runningProcesses i - 1, pi_pool := p'\<rparr>) (pools s)\<rparr>"
    by (auto simp: handleProcessTerminationDuringShutdown_def Let_def n_def cong: if_cong)
  have row: "pool_row pinv ids nm 1 g n i" using pools_ok_row [OF ok i] by (simp add: n_def)
  then have "pinv (pi_pool i) g" by (simp add: pool_row_def)
  with act interrupt_worker have k: "pool_keeps P pinv ids nm ev (pi_pool i) g p' g'" "gauge (mets g') = gauge (mets g)"
    by (auto simp: pool_keeps_def ev_refl split: if_splits)
  have "pool_row pinv ids nm 0 g' n (i\<lparr>runningProcesses := runningProcesses i - 1, pi_pool := p'\<rparr>)"
    using row k by (simp add: pool_row_def pool_keeps_def)
  then have "pools_ok pinv ids nm (\<lambda>_. 0) s' g'"
    unfolding s' using ok k by (intro pools_ok_update [where d = "(\<lambda>_. 0)(n := 1)"]) (simp_all add: n_def pool_keeps_def)
  moreover have "distinct (keys (pools s))" using ok by (simp add: pools_ok_def)
  ultimately show ?thesis using k i
    by (simp add: s' terminated_sum_update total_sum_update pool_keeps_def keys_update_in map_of_in_keys)
qed

lemma other_event_ok:
  assumes "pools_ok pinv ids nm (\<lambda>_. 0) s g" and "other_event shutting P e s g = Ret (s', g')"
  shows "pools_ok pinv ids nm (\<lambda>_. 0) s' g' \<and> ev g g' \<and> keys (pools s') = keys (pools s) \<and>
     terminated_sum s' = terminated_sum s \<and> total_sum s' = total_sum s \<and> terminating s' = terminating s"
  using assms(2) on_pool_ok [OF assms(1) _ interrupt_worker] on_pool_ok [OF assms(1) _ force_terminate] assms(1)
  by (auto simp: other_event_def handleProcessNeedsInterrupt_def handleProcessNeedsTermination_def
      handleProcessExceededLimit_def ev_refl split: EventType.splits if_splits)

lemma main_event_ok:
  assumes inv: "sup_inv pinv ids nm st" and l: "loc st = MainLoop" and ret: "main_event P e st = Ret st'"
  shows "sup_inv pinv ids nm st'"
proof -
  note ok = inv [unfolded sup_inv_def, THEN conjunct1]
  show ?thesis
  proof (cases "ev_Type e = ProcessEnd")
    case True
    with ret obtain err s1 g1 where h: "handleProcessEnd P e (sup st) (wld st) = Ret (err, s1, g1)"
      and rest: "(if err \<noteq> None then
               obind (handleProcessTerminationDuringShutdown P e s1 g1)
                 (\<lambda>(s2, g2). Ret (st\<lparr>sup := s2, wld := g2,
                    ctxDone := ctxDone st \<or> err_is err TooManyRestarts,
                    terminatedProcesses := terminatedProcesses st + 1\<rparr>))
             else
               obind (deref (ev_Cmd e))
                 (\<lambda>_. Ret (st\<lparr>sup := s1,
                    wld := upd_mets (IncrementRunningDecrementTerminated (ev_Pool e)) g1\<rparr>))) = Ret st'"
      by (auto simp: main_event_def)
    note ok1 = handleProcessEnd_ok [OF ok h]
    show ?thesis
    proof (cases err)
      case None
      with rest ok1 inv l pools_ok_inc [OF conjunct1 [OF ok1]] show ?thesis by (auto simp: sup_inv_def)
    next
      case (Some er)
      with rest obtain s2 g2 where t: "handleProcessTerminationDuringShutdown P e s1 g1 = Ret (s2, g2)"
        and st': "st' = st\<lparr>sup := s2, wld := g2, ctxDone := ctxDone st \<or> err_is err TooManyRestarts,
                    terminatedProcesses := terminatedProcesses st + 1\<rparr>" by auto
      from handleTermination_ok [OF conjunct1 [OF ok1] t] ok1 inv l show ?thesis by (simp add: sup_inv_def st')
    qed
  next
    case False
    with ret other_event_ok [OF ok] inv l show ?thesis by (auto simp: main_event_def sup_inv_def)
  qed
qed

lemma ctx_done_ok:
  assumes inv: "sup_inv pinv ids nm st" and l: "loc st = MainLoop" and ret: "ctx_done P ns st = Ret st'"
  shows "sup_inv pinv ids nm st' \<and> (loc st' = ShutdownLoop \<or> loc st' = Returned None \<and> terminatedProcesses st' = allProcesses st')"
proof -
  let ?s = "(sup st)\<lparr>terminating := True\<rparr>" and ?g = "upd_mets SetSigtermGauge (wld st)"
  have ok: "pools_ok pinv ids nm (\<lambda>_. 0) ?s ?g"
    using inv pinv_ev [OF _ ev_mets] by (auto simp: sup_inv_def pools_ok_def pool_row_def)
  have sums: "terminated_sum ?s = terminated_sum (sup st)" "total_sum ?s = total_sum (sup st)"
    by (simp_all add: terminated_sum_def total_sum_def)
  from ret obtain s1 g1 where f: "for_pools (p_InterruptAll P) ns ?s ?g = Ret (s1, g1)"
    and st': "st' = st\<lparr>sup := s1, wld := g1,
      loc := (if terminatedProcesses st = allProcesses st then Returned None else ShutdownLoop)\<rparr>"
    by (auto simp: ctx_done_def)
  from for_pools_ok [OF interrupt_all ok f] sums inv show ?thesis by (simp add: st' sup_inv_def)
qed

lemma Run_finish_ok:
  "sup_inv pinv ids nm st \<Longrightarrow> sup_inv pinv ids nm (Run_finish P st)"
  by (simp add: sup_inv_def Run_finish_def Let_def)

lemma shutdown_event_ok:
  assumes inv: "sup_inv pinv ids nm st" and l: "loc st = ShutdownLoop" and ret: "shutdown_event P e st = Ret st'"
  shows "sup_inv pinv ids nm st' \<and> (loc st' = ShutdownLoop \<or> terminatedProcesses st' = allProcesses st')"
proof -
  note ok = inv [unfolded sup_inv_def, THEN conjunct1]
  have T: "terminating (sup st)" using inv l by (simp add: sup_inv_def)
  have fin: "sup_inv pinv ids nm st' \<and> (loc st' = ShutdownLoop \<or> terminatedProcesses st' = allProcesses st')"
    if "sup_inv pinv ids nm st1" "loc st1 = ShutdownLoop"
      and "st' = (if terminatedProcesses st1 = allProcesses st1 then Run_finish P st1 else st1)" for st1
    using that Run_finish_ok [of st1] by (auto simp: Run_finish_def Let_def)
  show ?thesis
  proof (cases "ev_Type e = ProcessEnd")
    case True
    with ret obtain err s1 g1 where h: "handleProcessEnd P e (sup st) (wld st) = Ret (err, s1, g1)"
      by (auto simp: shutdown_event_def)
    note ok1 = handleProcessEnd_ok [OF ok h]
    with T have "err \<noteq> None" by blast
    with ret True h obtain s2 g2 where t: "handleProcessTerminationDuringShutdown P e s1 g1 = Ret (s2, g2)"
      and st': "st' = (let st1 = st\<lparr>sup := s2, wld := g2, terminatedProcesses := terminatedProcesses st + 1\<rparr>
                       in if terminatedProcesses st1 = allProcesses st1 then Run_finish P st1 else st1)"
      by (auto simp: shutdown_event_def Let_def)
    from handleTermination_ok [OF conjunct1 [OF ok1] t] ok1 inv l show ?thesis
      by (intro fin [OF _ _ st' [unfolded Let_def]]) (simp_all add: sup_inv_def)
  next
    case False
    with ret obtain s1 g1 where o: "other_event True P e (sup st) (wld st) = Ret (s1, g1)"
      and st': "st' = (let st1 = st\<lparr>sup := s1, wld := g1\<rparr>
                       in if terminatedProcesses st1 = allProcesses st1 then Run_finish P st1 else st1)"
      by (auto simp: shutdown_event_def Let_def)
    from other_event_ok [OF ok o] inv l show ?thesis
      by (intro fin [OF _ _ st' [unfolded Let_def]]) (simp_all add: sup_inv_def)
  qed
qed

lemma sup_step_inv: "sup_step P ev st st' \<Longrightarrow> sup_inv pinv ids nm st \<Longrightarrow> sup_inv pinv ids nm st'"
proof (induction rule: sup_step.induct)
  case (main st e st')
  then show ?case by (blast intro: main_event_ok)
next
  case (ctx st ns st')
  then show ?case by (blast dest: ctx_done_ok)
next
  case (shutdown st e st')
  then show ?case by (blast dest: shutdown_event_ok)
next
  case (signal st)
  then show ?case by (simp add: sup_inv_def)
next
  case (environment st g)
  then show ?case using pools_ok_frame [OF _ environment.hyps] by (simp add: sup_inv_def)
qed

subsection \<open>Starting\<close>

lemma for_pools_RunAll_total:
  assumes "\<And>n i. map_of (pools s) n = Some i \<Longrightarrow> pinv (pi_pool i) g" and "set ns \<subseteq> set (keys (pools s))"
  shows "\<exists>s' g'. for_pools (p_RunAll P) ns s g = Ret (s', g')"
  using assms
proof (induction ns arbitrary: s g)
  case (Cons n ns)
  from Cons.prems(2) obtain i where i: "map_of (pools s) n = Some i" by (auto simp: in_keys_map_of)
  from run_all_total [OF Cons.prems(1) [OF i]] obtain p1 g1 where p1: "p_RunAll P (pi_pool i) g = Ret (p1, g1)" by blast
  from run_all [OF Cons.prems(1) [OF i] p1] have k: "pinv p1 g1" "ev g g1" by (auto simp: pool_keeps_def)
  have "pinv (pi_pool j) g1" if "map_of (pools (set_pool n p1 s)) m = Some j" for m j
    using that i k Cons.prems(1) [of m] pinv_ev [of "pi_pool j" g g1] by (cases "m = n") (auto simp: set_pool_Some)
  from Cons.IH [OF this] Cons.prems(2) i p1 show ?case by (auto simp: on_pool_def set_pool_keys)
qed simp

lemma for_pools_RunAll:
  assumes "for_pools (p_RunAll P) ns s g = Ret (s', g')" and "distinct ns" and "distinct (keys (pools s))"
    and "\<And>n i. map_of (pools s) n = Some i \<Longrightarrow>
           (if n \<in> set ns then new_row pinv ids nm g n i else pool_row pinv ids nm 0 g n i)"
  shows "pools_ok pinv ids nm (\<lambda>_. 0) s' g' \<and> terminated_sum s' = terminated_sum s \<and>
         total_sum s' = total_sum s \<and> terminating s' = terminating s \<and> keys (pools s') = keys (pools s)"
  using assms
proof (induction ns arbitrary: s g)
  case Nil
  then show ?case by (simp add: pools_ok_def)
next
  case (Cons n ns)
  from Cons.prems(1) obtain i p1 s1 g1 where i: "map_of (pools s) n = Some i"
    and p1: "p_RunAll P (pi_pool i) g = Ret (p1, g1)" and s1: "s1 = set_pool n p1 s"
    and l: "for_pools (p_RunAll P) ns s1 g1 = Ret (s', g')" by (auto simp: on_pool_def split: prod.splits)
  have row: "new_row pinv ids nm g n i" using Cons.prems(4) [OF i] by simp
  then have "pinv (pi_pool i) g" "nm (pi_pool i) = n" by (simp_all add: new_row_def)
  with run_all [OF _ p1] have k: "pool_keeps P pinv ids nm ev (pi_pool i) g p1 g1"
    and ga: "gauge (mets g1) = gauge (AddRunningStats n (int (card (ids (pi_pool i)))) (mets g))" by auto
  have evg: "ev g g1" using k by (simp add: pool_keeps_def)
  have mine: "pool_row pinv ids nm 0 g1 n (i\<lparr>pi_pool := p1\<rparr>)"
    using row k ga by (simp add: pool_row_def new_row_def pool_keeps_def)
  have "if m \<in> set ns then new_row pinv ids nm g1 m j else pool_row pinv ids nm 0 g1 m j"
    if m: "map_of (pools s1) m = Some j" for m j
  proof (cases "m = n")
    case True
    with m mine i Cons.prems(2) show ?thesis by (auto simp: s1 set_pool_Some)
  next
    case False
    with m i have "map_of (pools s) m = Some j" by (simp add: s1 set_pool_Some)
    with Cons.prems(4) [OF this] False pinv_ev [OF _ evg] ga show ?thesis
      by (auto simp: new_row_def pool_row_def)
  qed
  from Cons.IH [OF l _ _ this] Cons.prems(2,3) show ?case by (simp add: s1 set_pool_sums)
qed

end

end
