(* ===== verification/Pool_Contract.thy ===== *)
theory Pool_Contract
  imports Supervisor_Invariant Pool_Prepare
begin

text \<open>
  \<open>Worker_Pool\<close> keeps the contract the supervisor relies on, for every implementation of
  the worker interface; the interpretations at the end give it for operating-system
  processes and for the in-memory workers.
\<close>

definition prepared_inv ::
  "'w worker_ops \<Rightarrow> ('w \<Rightarrow> string) \<Rightarrow> ('w \<Rightarrow> string) \<Rightarrow> WorkerPool \<Rightarrow> 'w world \<Rightarrow> bool" where
  "prepared_inv W wid wpool sw g \<longleftrightarrow>
     pool_inv W wid wpool sw g \<and> (HasProxy sw \<longrightarrow> ProxyId \<in> set (keys (workers sw)))"

definition pool_ids :: "WorkerPool \<Rightarrow> string set" where
  "pool_ids sw = set (keys (workers sw))"

lemma worker_pool_ops_sel [simp]:
  "p_RunAll (worker_pool_ops lib W ordR ordI) = (\<lambda>p g. RunAll W (arrange (ordR p) (workers p)) p g)"
  "p_InterruptWorker (worker_pool_ops lib W ordR ordI) = InterruptWorker W"
  "p_InterruptAll (worker_pool_ops lib W ordR ordI) = (\<lambda>p g. InterruptAll lib W (arrange (ordI p) (workers p)) p g)"
  "p_ForceTerminateWorker (worker_pool_ops lib W ordR ordI) = ForceTerminateWorker W"
  "p_WaitForWorkerToCleanBuffer (worker_pool_ops lib W ordR ordI) = WaitForWorkerToCleanBuffer W"
  "p_RestartWorker (worker_pool_ops lib W ordR ordI) = RestartWorker lib W"
  "p_IsHealthy (worker_pool_ops lib W ordR ordI) = IsHealthy W"
  "p_HasProxy (worker_pool_ops lib W ordR ordI) = HasProxy"
  "p_RunningCount (worker_pool_ops lib W ordR ordI) = RunningCount W"
  by (simp_all add: worker_pool_ops_def)

subsection \<open>Gauges\<close>

lemma on_worker_mets: "on_worker f a g = Ret g' \<Longrightarrow> mets g' = mets g"
  by (auto simp: on_worker_eq_Ret)

lemma terminate_loop_mets: "terminate_loop W sw ks g = Ret g' \<Longrightarrow> mets g' = mets g"
  by (induction ks arbitrary: g) (auto split: if_splits dest!: on_worker_mets)

lemma gauge_count [simp]:
  "gauge (count_restart p t m) = gauge m" "gauge (count_sigkill p m) = gauge m"
  by (simp_all add: count_restart_def count_sigkill_def)

lemma gauge_Add_0 [simp]: "gauge (AddRunningStats p 0 m) = gauge m"
  by (auto simp: fun_eq_iff)

lemma gauge_Add_cong: "gauge m = gauge m' \<Longrightarrow> gauge (AddRunningStats p n m) = gauge (AddRunningStats p n m')"
  by (auto simp: fun_eq_iff)

lemma gauge_Add_Add: "gauge (AddRunningStats p n (AddRunningStats p k m)) = gauge (AddRunningStats p (n + k) m)"
  by (auto simp: fun_eq_iff)

lemma run_loop_gauge:
  "run_loop W sw ks g = Ret g' \<Longrightarrow>
   gauge (mets g') = gauge (AddRunningStats (poolName sw) (int (length ks)) (mets g))"
proof (induction ks arbitrary: g)
  case (Cons k ks)
  then obtain a g1 where a: "on_worker (w_Run W) a g = Ret g1"
    "run_loop W sw ks (upd_mets (AddRunningStats (poolName sw) 1) g1) = Ret g'" by auto
  from Cons.IH [OF a(2)] on_worker_mets [OF a(1)] show ?case by (simp add: gauge_Add_Add add.commute)
qed simp

subsection \<open>Loops over all workers return\<close>

lemma on_worker_heap_dom:
  "on_worker f a g = Ret g' \<Longrightarrow> heap g b \<noteq> None \<Longrightarrow> heap g' b \<noteq> None"
  by (auto simp: on_worker_eq_Ret)

lemma run_loop_total:
  "\<forall>k\<in>set ks. \<exists>a. map_of (workers sw) k = Some a \<and> heap g a \<noteq> None \<Longrightarrow> \<exists>g'. run_loop W sw ks g = Ret g'"
proof (induction ks arbitrary: g)
  case (Cons k ks)
  from Cons.prems obtain a w where a: "map_of (workers sw) k = Some a" "heap g a = Some w" by auto
  then obtain g1 where g1: "on_worker (w_Run W) a g = Ret g1" by (auto simp: on_worker_def)
  have "\<forall>k\<in>set ks. \<exists>b. map_of (workers sw) k = Some b \<and>
          heap (upd_mets (AddRunningStats (poolName sw) 1) g1) b \<noteq> None"
    using Cons.prems on_worker_heap_dom [OF g1] by fastforce
  from Cons.IH [OF this] a g1 show ?case by auto
qed simp

lemma terminate_loop_total:
  "\<forall>k\<in>set ks. \<exists>a. map_of (workers sw) k = Some a \<and> heap g a \<noteq> None \<Longrightarrow> \<exists>g'. terminate_loop W sw ks g = Ret g'"
proof (induction ks arbitrary: g)
  case (Cons k ks)
  show ?case
  proof (cases "k = ProxyId")
    case False
    from Cons.prems obtain a w where a: "map_of (workers sw) k = Some a" "heap g a = Some w" by auto
    then obtain g1 where g1: "on_worker (w_Terminate W (signalTimeout (startup sw))) a g = Ret g1"
      by (auto simp: on_worker_def)
    have "\<forall>k\<in>set ks. \<exists>b. map_of (workers sw) k = Some b \<and> heap g1 b \<noteq> None"
      using Cons.prems on_worker_heap_dom [OF g1] by fastforce
    from Cons.IH [OF this] False a g1 show ?thesis by auto
  qed (use Cons in simp)
qed simp

lemma pool_inv_loop_ready:
  assumes "pool_inv W wid wpool sw g" and "range_order (workers sw) ks"
  shows "\<forall>k\<in>set ks. \<exists>a. map_of (workers sw) k = Some a \<and> heap g a \<noteq> None"
  using pool_inv_lookup [OF assms(1)] range_order_set [OF assms(2)] by fastforce

definition owned_addrs :: "(string \<times> WorkerPool WorkerPoolInfo) list \<Rightarrow> addr set" where
  "owned_addrs ps = (\<Union>ni\<in>set ps. snd ` set (workers (pi_pool (snd ni))))"

definition all_owned :: "(string \<times> WorkerPool WorkerPoolInfo) list \<Rightarrow> 'w world \<Rightarrow> bool" where
  "all_owned ps g \<longleftrightarrow> (\<forall>a. heap g a \<noteq> None \<longrightarrow> a < nextAddr g \<and> a \<in> owned_addrs ps)"

definition new_pool ::
  "'w worker_ops \<Rightarrow> ('w \<Rightarrow> string) \<Rightarrow> ('w \<Rightarrow> string) \<Rightarrow> 'w world \<Rightarrow> string \<Rightarrow> WorkerPool WorkerPoolInfo \<Rightarrow> bool" where
  "new_pool W wid wpool g n i \<longleftrightarrow>
     new_row (prepared_inv W wid wpool) pool_ids poolName g n i \<and> fresh_workers W (pi_pool i) g \<and>
     pstate (pi_pool i) = Prepared"

context worker_contract
begin

lemma prepared_inv_evolves:
  "prepared_inv W wid wpool sw g \<Longrightarrow> evolves W wid wpool g g' \<Longrightarrow> prepared_inv W wid wpool sw g'"
  by (auto simp: prepared_inv_def intro: pool_inv_evolves)

lemma RestartWorker_frame:
  assumes ret: "RestartWorker lib W opts k sw g = Ret (err, sw', g')"
  shows "keys (workers sw') = keys (workers sw) \<and> poolName sw' = poolName sw \<and> HasProxy sw' = HasProxy sw \<and>
         pstate sw' = pstate sw \<and> startup sw' = startup sw \<and> gauge (mets g') = gauge (mets g)"
  using ret
proof (cases rule: RestartWorker_cases)
  case (restarted a w0 w g1 f)
  then show ?thesis
    by (auto simp: installs_def keys_update_in map_of_in_keys dest!: on_worker_mets)
qed auto

lemma prepared_step:
  assumes "prepared_inv W wid wpool sw g" and "pool_inv W wid wpool sw' g'" and "evolves W wid wpool g g'"
    and "keys (workers sw') = keys (workers sw)" "poolName sw' = poolName sw" "HasProxy sw' = HasProxy sw"
  shows "pool_keeps (worker_pool_ops lib W ordR ordI) (prepared_inv W wid wpool) pool_ids poolName
           (evolves W wid wpool) sw g sw' g'"
  using assms by (simp add: pool_keeps_def prepared_inv_def pool_ids_def)

lemma pool_contract_worker_pool:
  "pool_contract (worker_pool_ops lib W ordR ordI) (prepared_inv W wid wpool) pool_ids poolName (evolves W wid wpool)"
proof (unfold_locales, unfold worker_pool_ops_sel)
  show "evolves W wid wpool g (upd_mets f g)" for f g by (rule evolves_same_heap) simp_all
next
  fix p g p' g' assume p: "prepared_inv W wid wpool p g"
    and ret: "RunAll W (arrange (ordR p) (workers p)) p g = Ret (p', g')"
  have d: "distinct (keys (workers p))" using p by (simp add: prepared_inv_def pool_inv_def)
  have "length (arrange (ordR p) (workers p)) = card (pool_ids p)"
    using range_order_set [OF range_order_arrange] range_order_distinct [OF range_order_arrange d]
    by (metis distinct_card pool_ids_def)
  with run_loop_gauge [of W p "arrange (ordR p) (workers p)" g g'] ret
  show "pool_keeps (worker_pool_ops lib W ordR ordI) (prepared_inv W wid wpool) pool_ids poolName
           (evolves W wid wpool) p g p' g' \<and>
        gauge (mets g') = gauge (AddRunningStats (poolName p) (int (card (pool_ids p))) (mets g))"
    using RunAll_inv [OF _ ret] p by (auto simp: RunAll_def prepared_inv_def intro!: prepared_step)
next
  fix p g k p' g' assume "prepared_inv W wid wpool p g" and "InterruptWorker W k p g = Ret (p', g')"
  then show "pool_keeps (worker_pool_ops lib W ordR ordI) (prepared_inv W wid wpool) pool_ids poolName
      (evolves W wid wpool) p g p' g' \<and> gauge (mets g') = gauge (mets g)"
    using InterruptWorker_inv [of p g k p' g']
    by (auto simp: prepared_inv_def InterruptWorker_def dest: on_worker_mets intro!: prepared_step)
next
  fix p g p' g' assume p: "prepared_inv W wid wpool p g"
    and ret: "InterruptAll lib W (arrange (ordI p) (workers p)) p g = Ret (p', g')"
  then have "mets g' = mets g"
    by (auto simp: InterruptAll_def Let_def proxyDrain_def dest!: terminate_loop_mets split: option.splits)
  with p InterruptAll_inv [OF _ ret]
  show "pool_keeps (worker_pool_ops lib W ordR ordI) (prepared_inv W wid wpool) pool_ids poolName
      (evolves W wid wpool) p g p' g' \<and> gauge (mets g') = gauge (mets g)"
    by (auto simp: prepared_inv_def intro!: prepared_step)
next
  fix p g k p' g' assume "prepared_inv W wid wpool p g" and "ForceTerminateWorker W k p g = Ret (p', g')"
  then show "pool_keeps (worker_pool_ops lib W ordR ordI) (prepared_inv W wid wpool) pool_ids poolName
      (evolves W wid wpool) p g p' g' \<and> gauge (mets g') = gauge (mets g)"
    using ForceTerminateWorker_inv [of p g k p' g']
    by (auto simp: prepared_inv_def ForceTerminateWorker_def dest: on_worker_mets intro!: prepared_step)
next
  fix p g opts k err p' g' assume p: "prepared_inv W wid wpool p g" and ret: "RestartWorker lib W opts k p g = Ret (err, p', g')"
  then show "pool_keeps (worker_pool_ops lib W ordR ordI) (prepared_inv W wid wpool) pool_ids poolName
      (evolves W wid wpool) p g p' g' \<and> gauge (mets g') = gauge (mets g)"
    using RestartWorker_inv [OF _ ret] RestartWorker_frame [OF ret]
    by (auto simp: prepared_inv_def intro!: prepared_step)
next
  fix p g assume "prepared_inv W wid wpool p g"
  then have inv: "pool_inv W wid wpool p g" by (simp add: prepared_inv_def)
  show "\<exists>p' g'. RunAll W (arrange (ordR p) (workers p)) p g = Ret (p', g')"
    using run_loop_total [OF pool_inv_loop_ready [OF inv range_order_arrange], of W] by (auto simp: RunAll_def)
next
  fix p g assume "prepared_inv W wid wpool p g"
  then have inv: "pool_inv W wid wpool p g" by (simp add: prepared_inv_def)
  define p1 where "p1 = p\<lparr>pstate := Draining\<rparr>"
  define g1 where "g1 = (case sInfo p1 of None \<Rightarrow> g | Some si \<Rightarrow> snd (proxyDrain lib si g))"
  have "heap g1 = heap g" by (simp add: g1_def proxyDrain_def split: option.split)
  with pool_inv_loop_ready [OF inv range_order_arrange]
  have "\<forall>k\<in>set (arrange (ordI p) (workers p)). \<exists>a. map_of (workers p1) k = Some a \<and> heap g1 a \<noteq> None"
    by (simp add: p1_def)
  from terminate_loop_total [OF this, of W]
  show "\<exists>p' g'. InterruptAll lib W (arrange (ordI p) (workers p)) p g = Ret (p', g')"
    by (auto simp: InterruptAll_def Let_def p1_def g1_def)
qed (auto simp: prepared_inv_def pool_ids_def intro: pool_inv_evolves evolves_trans
    InterruptWorker_total ForceTerminateWorker_total)

subsection \<open>Creating the pools\<close>

lemma new_pool_frame:
  assumes "new_pool W wid wpool g n i" and "evolves W wid wpool g g'" and "gauge (mets g') = gauge (mets g)"
    and "nextAddr g \<le> nextAddr g'" and "\<forall>a < nextAddr g. heap g' a = heap g a"
  shows "new_pool W wid wpool g' n i"
  using assms prepared_inv_evolves [OF _ assms(2)] fresh_workers_frame [OF _ assms(4,5)]
  by (simp add: new_pool_def new_row_def)

lemma create_pool:
  assumes new: "NewWorkerPool lib False c = Inr pool" and m: "in64 (wc_MaxRestarts c)"
    and prep: "PoolPrepareWorkers lib W opts pool g = Ret (None, pool1, g1)"
    and zero: "\<And>n s. gauge (mets g) n s = 0"
    and n: "n = wc_Replicas c + (if HasProxy pool1 then 1 else 0)"
  shows "new_pool W wid wpool g1 (wc_Name c) \<lparr>pi_pool = pool1, runningProcesses = n, totalProcesses = n\<rparr> \<and>
         evolves W wid wpool g g1"
proof -
  note nw = NewWorkerPool_new [OF new]
  note fr = PoolPrepareWorkers_frame [OF prep]
  note inv = PoolPrepareWorkers_inv [OF NewWorkerPool_inv [OF new m] prep]
  have f: "keys (workers pool1) = map (workerName (wc_Name c)) [0..<nat (wc_Replicas c)] @
       (if HasProxy pool1 then [ProxyId] else [])" "pstate pool1 = Prepared" "fresh_workers W pool1 g1"
    using PoolPrepareWorkers_fresh [OF prep] nw fr by simp_all
  have "distinct (keys (workers pool1))" using inv by (simp add: pool_inv_def)
  then have "card (pool_ids pool1) = length (keys (workers pool1))" by (simp add: pool_ids_def distinct_card del: length_keys)
  also have "\<dots> = nat (wc_Replicas c) + (if HasProxy pool1 then 1 else 0)" unfolding f(1) by simp
  finally have card: "int (card (pool_ids pool1)) = n" using n nw by simp
  have "HasProxy pool1 \<longrightarrow> ProxyId \<in> set (keys (workers pool1))" unfolding f(1) by simp
  with inv card f fr nw zero show ?thesis by (simp add: new_pool_def new_row_def prepared_inv_def)
qed

lemma create_loop_ok:
  assumes "create_loop lib W opts ws ps tot g = Ret ((ps', tot', None), g')"
    and "\<forall>w\<in>set ws. in64 (wc_MaxRestarts w)"
    and "distinct (keys ps)" and "\<And>n i. map_of ps n = Some i \<Longrightarrow> new_pool W wid wpool g n i"
    and "\<And>n s. gauge (mets g) n s = 0" and "all_owned ps g"
  shows "distinct (keys ps') \<and> (\<forall>n i. map_of ps' n = Some i \<longrightarrow> new_pool W wid wpool g' n i) \<and>
     tot' - (\<Sum>i\<leftarrow>map snd ps'. totalProcesses i) = tot - (\<Sum>i\<leftarrow>map snd ps. totalProcesses i) \<and>
     keys ps' = keys ps @ map wc_Name ws \<and> all_owned ps' g' \<and>
     (\<exists>gs. gos g' = gos g @ gs \<and> stream_loops gs) \<and> (\<forall>n s. gauge (mets g') n s = 0)"
  using assms
proof (induction ws arbitrary: ps tot g)
  case (Cons c ws)
  from Cons.prems(1) obtain pool pool1 g1 px where notin: "wc_Name c \<notin> set (keys ps)"
    and new: "NewWorkerPool lib False c = Inr pool" and prep: "PoolPrepareWorkers lib W opts pool g = Ret (None, pool1, g1)"
    and px_def: "px = (if HasProxy pool1 then 1 else 0)"
    and l0: "create_loop lib W opts ws
       (ps @ [(wc_Name c, \<lparr>pi_pool = pool1, runningProcesses = wc_Replicas c + px, totalProcesses = wc_Replicas c + px\<rparr>)])
       (tot + wc_Replicas c + px) (if HasProxy pool1 then upd_mets SetProxyModeGauge g1 else g1) = Ret ((ps', tot', None), g')"
    by (rule create_loop_Cons)
  define g2 where "g2 = (if HasProxy pool1 then upd_mets SetProxyModeGauge g1 else g1)"
  define row where "row = \<lparr>pi_pool = pool1, runningProcesses = wc_Replicas c + px, totalProcesses = wc_Replicas c + px\<rparr>"
  note l = l0 [folded g2_def row_def]
  have m: "in64 (wc_MaxRestarts c)" using Cons.prems(2) by simp
  note fr = PoolPrepareWorkers_frame [OF prep]
  from create_pool [OF new m prep Cons.prems(5), of "wc_Replicas c + px"]
  have row: "new_pool W wid wpool g1 (wc_Name c) row" and ev1: "evolves W wid wpool g g1"
    by (auto simp: px_def row_def)
  have g2: "heap g2 = heap g1" "nextAddr g2 = nextAddr g1" "gos g2 = gos g1" "gauge (mets g2) = gauge (mets g1)"
    by (simp_all add: g2_def)
  have ev2: "evolves W wid wpool g1 g2" using g2 by (intro evolves_same_heap)
  have old: "new_pool W wid wpool g2 n i" if "new_pool W wid wpool g n i" for n i
    using new_pool_frame [OF that evolves_trans [OF ev1 ev2]] fr g2 by simp
  have rows: "new_pool W wid wpool g2 n i" if "map_of (ps @ [(wc_Name c, row)]) n = Some i" for n i
    using that notin old [OF Cons.prems(4)] new_pool_frame [OF row ev2] g2
    by (auto simp: map_add_def map_of_Cons_code split: option.splits if_splits)
  have z: "gauge (mets g2) n s = 0" for n s using Cons.prems(5) fr g2 by simp
  have d: "distinct (keys (ps @ [(wc_Name c, row)]))" using Cons.prems(3) notin by simp
  have m': "\<forall>w\<in>set ws. in64 (wc_MaxRestarts w)" using Cons.prems(2) by simp
  have "claims {a. heap g a \<noteq> None} pool g" using Cons.prems(6) by (simp add: claims_def all_owned_def)
  with PoolPrepareWorkers_claims [OF prep] NewWorkerPool_new [OF new] have cl: "claims {a. heap g a \<noteq> None} pool1 g1" by blast
  have ow: "all_owned (ps @ [(wc_Name c, row)]) g2"
  proof -
    have "a < nextAddr g2 \<and> a \<in> owned_addrs (ps @ [(wc_Name c, row)])" if "heap g2 a \<noteq> None" for a
    proof -
      from that cl g2 have a: "a < nextAddr g1" "heap g a \<noteq> None \<or> a \<in> snd ` set (workers pool1)"
        by (auto simp: claims_def)
      then show ?thesis using Cons.prems(6) g2 by (auto simp: all_owned_def owned_addrs_def row_def)
    qed
    then show ?thesis by (simp add: all_owned_def)
  qed
  note ih = Cons.IH [OF l m' d rows z ow]
  from ih fr g2 have gs: "\<exists>gs. gos g' = gos g @ gs \<and> stream_loops gs" by auto
  note dd = ih [THEN conjunct1]
  show ?case by (intro conjI dd) (use ih gs in \<open>simp_all add: row_def\<close>)
qed simp

end

interpretation real_pool: pool_contract "worker_pool_ops lib (real_ops G Environ Register) ordR ordI"
    "prepared_inv (real_ops G Environ Register) rw_name rw_poolName" pool_ids poolName
    "evolves (real_ops G Environ Register) rw_name rw_poolName"
  for lib G Environ Register ordR ordI
  by (rule real.pool_contract_worker_pool)

interpretation long_pool: pool_contract "worker_pool_ops lib (mem_ops LongRunningMemoryWorker) ordR ordI"
    "prepared_inv (mem_ops LongRunningMemoryWorker) im_Name im_PoolName" pool_ids poolName
    "evolves (mem_ops LongRunningMemoryWorker) im_Name im_PoolName"
  for lib ordR ordI
  by (rule mem_long.pool_contract_worker_pool)

end
