(* ===== verification/Pool_Health.thy ===== *)
theory Pool_Health
  imports Pool_Invariant
begin

text \<open>
  The health of a pool. \<open>IsHealthy\<close> computes a percentage in single precision and
  truncates it; these results relate it to the exact proportion of running workers.
\<close>

lemma RunningCount_filter:
  "RunningCount W sw g = int (length (filter (\<lambda>kv. worker_status W g (snd kv) = Some Running) (workers sw)))"
proof -
  have "fold (\<lambda>kv t. if worker_status W g (snd kv) = Some Running then t + 1 else t) xs t =
        t + int (length (filter (\<lambda>kv. worker_status W g (snd kv) = Some Running) xs))" for xs :: "(string \<times> addr) list" and t :: int
    by (induction xs arbitrary: t) simp_all
  then show ?thesis by (simp add: RunningCount_def)
qed

lemma RunningCount_bounds: "0 \<le> RunningCount W sw g" "RunningCount W sw g \<le> int (length (workers sw))"
  by (simp_all add: RunningCount_filter)

text \<open>Both roundings together move a percentage by less than \<open>201 / 2 ^ 24\<close>.\<close>

lemma percentage_error:
  assumes "0 \<le> q" and "q \<le> 1"
  shows "\<bar>fl 24 (fl 24 q * 100) - q * 100\<bar> \<le> 201 / 16777216"
proof -
  define f1 where "f1 = fl 24 q"
  have fle: "\<bar>fl 24 y - y\<bar> \<le> \<bar>y\<bar> / 16777216" for y using fl_error [of 24 y] by simp
  have e1: "\<bar>f1 - q\<bar> \<le> q / 16777216" using fle [of q] assms(1) by (simp only: f1_def abs_of_nonneg)
  have "0 \<le> f1" unfolding f1_def using assms(1) by (rule fl_nonneg) simp
  then have e2: "\<bar>fl 24 (f1 * 100) - f1 * 100\<bar> \<le> f1 * 100 / 16777216"
    using fle [of "f1 * 100"] by simp
  have "f1 - q \<le> 1 / 16777216" "q - f1 \<le> 1 / 16777216" using e1 assms by linarith+
  with e2 assms show ?thesis unfolding f1_def [symmetric] by linarith
qed

lemma div_bounds: "0 < n \<Longrightarrow> m div n * n \<le> m \<and> m < (m div n + 1) * n" for n :: int
proof -
  assume n: "0 < n"
  have "m div n * n + m mod n = m" by (rule div_mult_mod_eq)
  moreover have "0 \<le> m mod n" "m mod n < n" using n by simp_all
  ultimately show ?thesis unfolding ring_distribs by linarith
qed

lemma le_div_iff: "0 < n \<Longrightarrow> c \<le> m div n \<longleftrightarrow> c * n \<le> m" for n :: int
proof
  assume n: "0 < n"
  note m = div_bounds [OF n, of m]
  show "c * n \<le> m" if "c \<le> m div n" using mult_right_mono [OF that, of n] n m by linarith
  show "c \<le> m div n" if "c * n \<le> m"
  proof -
    have "c * n < (m div n + 1) * n" using that m by linarith
    then show ?thesis using n by (simp add: mult_less_cancel_right)
  qed
qed

lemma health_percentage_exact:
  assumes r: "0 \<le> r" "r \<le> n" and n: "0 < n" "n \<le> 65536"
  shows "100 * r div n - 1 \<le> health_percentage r n" and "health_percentage r n \<le> 100 * r div n"
proof -
  define q :: rat where "q = of_int r / of_int n"
  define x where "x = fl 24 (fl 24 q * 100)"
  have q: "0 \<le> q" "q \<le> 1" using r n by (simp_all add: q_def)
  have err: "\<bar>x - q * 100\<bar> \<le> 201 / 16777216" unfolding x_def using q by (rule percentage_error)
  have x0: "0 \<le> x" unfolding x_def using q(1) by (simp add: fl_nonneg)
  have "x < 102" using err q by linarith
  then have hp: "health_percentage r n = \<lfloor>x\<rfloor>"
    using r n x0 by (simp add: health_percentage_def fl_of_int int_of_float_def flip: q_def x_def)
  define d where "d = 100 * r div n"
  have dr: "of_int (d * n) \<le> (of_int (100 * r) :: rat)" "of_int (100 * r + 1) \<le> (of_int ((d + 1) * n) :: rat)"
    unfolding of_int_le_iff d_def using div_bounds [OF n(1), of "100 * r"] by simp_all
  have lo: "of_int d \<le> q * 100" using dr(1) n by (simp add: q_def field_simps)
  have "q * 100 + 1 / of_int n \<le> of_int d + 1" using dr(2) n by (simp add: q_def field_simps)
  moreover have "1 / 65536 \<le> 1 / (of_int n :: rat)" using n by (simp add: field_simps)
  ultimately have hi: "x < of_int d + 1" using err by linarith
  have lo': "of_int d - 1 \<le> x" using err lo by linarith
  show "100 * r div n - 1 \<le> health_percentage r n"
    unfolding hp le_floor_iff d_def [symmetric] using lo' by simp
  show "health_percentage r n \<le> 100 * r div n"
    unfolding hp d_def [symmetric] using hi by linarith
qed

lemma health_percentage_full: "0 < n \<Longrightarrow> n \<le> 65536 \<Longrightarrow> health_percentage n n = 100"
proof -
  assume n: "0 < n" "n \<le> 65536"
  have "fl 24 1 = 1" "fl 24 100 = 100" using fl_of_int [of 1 24] fl_of_int [of 100 24] by simp_all
  with n show ?thesis by (simp add: health_percentage_def fl_of_int int_of_float_def)
qed

lemma IsHealthy_exact:
  assumes n: "0 < length (workers sw)" "length (workers sw) \<le> 65536"
  shows "IsHealthy W sw g \<Longrightarrow>
           desiredHealthPcnt sw * int (length (workers sw)) \<le> 100 * RunningCount W sw g"
    and "(desiredHealthPcnt sw + 1) * int (length (workers sw)) \<le> 100 * RunningCount W sw g \<Longrightarrow>
           IsHealthy W sw g"
proof -
  let ?n = "int (length (workers sw))" and ?r = "RunningCount W sw g"
  have n': "0 < ?n" "?n \<le> 65536" using n by simp_all
  note hp = health_percentage_exact [OF RunningCount_bounds [of W sw g] n']
  note le = le_div_iff [OF n'(1)]
  show "IsHealthy W sw g \<Longrightarrow> desiredHealthPcnt sw * ?n \<le> 100 * ?r"
    using hp(2) le [of "desiredHealthPcnt sw" "100 * ?r"] by (simp add: IsHealthy_def)
  show "(desiredHealthPcnt sw + 1) * ?n \<le> 100 * ?r \<Longrightarrow> IsHealthy W sw g"
    using hp(1) le [of "desiredHealthPcnt sw + 1" "100 * ?r"] by (simp add: IsHealthy_def)
qed

end
