(* ===== verification/System.thy ===== *)
theory System
  imports Pool_Contract
begin

text \<open>
  The whole program with operating-system workers: the supervisor's goroutine, the goroutines
  the workers started, and the processes behind go-cmd, interleaved. A step is one of: the
  supervisor receives an event or the context, a goroutine runs up to its next wait, a
  process moves on by itself, a signal arrives.

  go-cmd is a parameter: its operations \<open>s_cmd\<close> and \<open>s_step\<close>, what a command does by
  itself (start, run, exit). What the program relies on is \<open>gocmd_laws\<close>: a finished
  command stays finished, and the final status is only delivered once it has finished. go-cmd
  sends one status and never closes the channel, so the goroutine that has delivered it waits
  for ever and is dropped. An event whose handling has to wait for the log goroutine is taken
  when the wait is over.
\<close>

record 'c setting =
  s_lib :: golib
  s_cmd :: "'c gocmd"
  s_environ :: "string list"
  s_register :: "string \<Rightarrow> string \<Rightarrow> reg_result"
  s_ordR :: "WorkerPool \<Rightarrow> string list"
  s_ordI :: "WorkerPool \<Rightarrow> string list"
  s_step :: "'c \<Rightarrow> 'c \<Rightarrow> bool"

type_synonym 'c sys_state = "(WorkerPool, 'c realProcessWorker) run_state"
type_synonym 'c sys_world = "'c realProcessWorker world"

definition sys_ops :: "'c setting \<Rightarrow> 'c realProcessWorker worker_ops" where
  "sys_ops S = real_ops (s_cmd S) (s_environ S) (s_register S)"

definition sys_pools :: "'c setting \<Rightarrow> (WorkerPool, 'c realProcessWorker) pool_ops" where
  "sys_pools S = worker_pool_ops (s_lib S) (sys_ops S) (s_ordR S) (s_ordI S)"

interpretation sys: worker_contract "sys_ops S" rw_name rw_poolName for S
  unfolding sys_ops_def by (rule real.worker_contract_axioms)

interpretation sys_pool: pool_contract "sys_pools S" "prepared_inv (sys_ops S) rw_name rw_poolName" pool_ids poolName
    "evolves (sys_ops S) rw_name rw_poolName" for S
  unfolding sys_pools_def by (rule sys.pool_contract_worker_pool)

definition gocmd_laws :: "'c setting \<Rightarrow> bool" where
  "gocmd_laws S \<longleftrightarrow>
     (\<forall>c. cmd_done (s_cmd S) c \<longrightarrow> cmd_done (s_cmd S) (snd (cmdStop (s_cmd S) c))) \<and>
     (\<forall>c c'. s_step S c c' \<longrightarrow> cmd_done (s_cmd S) c \<longrightarrow> cmd_done (s_cmd S) c') \<and>
     (\<forall>c msg c'. cmdRecv (s_cmd S) c = Some (msg, c') \<longrightarrow> cmd_done (s_cmd S) c \<and> cmd_done (s_cmd S) c')"

subsection \<open>Goroutines\<close>

fun sends :: "goroutine \<Rightarrow> SupervisorEvent option" where
  "sends (SendEvent e) = Some e"
| "sends (SendLimitEvent e) = Some e"
| "sends _ = None"

text \<open>A limiter counts its event once it has been received.\<close>

fun received :: "goroutine \<Rightarrow> 'w world \<Rightarrow> 'w world" where
  "received (SendLimitEvent e) g = upd_mets (count_limit (ev_Pool e)) g"
| "received _ g = g"

fun go_addr :: "goroutine \<Rightarrow> addr option" where
  "go_addr (WatchExit a) = Some a"
| "go_addr (TermTimer a) = Some a"
| "go_addr (RunMonitor l a) = Some a"
| "go_addr (LimitTimer l a) = Some a"
| "go_addr (StreamLogsLoop a) = Some a"
| "go_addr _ = None"

fun limiter_of :: "lim_kind \<Rightarrow> 'c realProcessWorker \<Rightarrow> TimeLimiter option" where
  "limiter_of MemoryLim w = rw_memory w"
| "limiter_of LifespanLim w = rw_lifespan w"

fun set_limiter :: "lim_kind \<Rightarrow> TimeLimiter \<Rightarrow> 'c realProcessWorker \<Rightarrow> 'c realProcessWorker" where
  "set_limiter MemoryLim t w = w\<lparr>rw_memory := Some t\<rparr>"
| "set_limiter LifespanLim t w = w\<lparr>rw_lifespan := Some t\<rparr>"

text \<open>
  What a goroutine of worker \<open>w\<close> does next: the worker it leaves and the goroutines that
  take its place.
\<close>

inductive go_step ::
  "'c gocmd \<Rightarrow> goroutine \<Rightarrow> 'c realProcessWorker \<Rightarrow> 'c realProcessWorker \<Rightarrow> goroutine list \<Rightarrow> bool"
  for G where
  exits: "sendUpdatesToAggrChannel G w = Some (w', e) \<Longrightarrow> go_step G (WatchExit a) w w' [SendEvent e]"
| term_sends: "term_timer_fires G w = Some e \<Longrightarrow> go_step G (TermTimer a) w w [SendEvent e]"
| term_quiet: "term_timer_fires G w = None \<Longrightarrow> go_step G (TermTimer a) w w []"
| monitors: "limiter_of l w = Some t \<Longrightarrow>
     go_step G (RunMonitor l a) w (set_limiter l (fst (Monitor t)) w)
       (if snd (Monitor t) then [LimitTimer l a] else [])"
| limit_fires: "limiter_of l w = Some t \<Longrightarrow>
     go_step G (LimitTimer l a) w (set_limiter l (fst (limiter_fires t)) w) [SendLimitEvent (snd (limiter_fires t))]"
| limit_cancelled: "limiter_of l w = Some t \<Longrightarrow> rw_cancelled w \<Longrightarrow>
     go_step G (LimitTimer l a) w (set_limiter l (limiter_cancelled t) w) []"
| streams_end: "(rw_isStreamingLogs w \<longrightarrow> cmd_done G (rw_cmd w)) \<Longrightarrow>
     go_step G (StreamLogsLoop a) w (w\<lparr>rw_stdStreamClosed := True\<rparr>) []"

subsection \<open>The program\<close>

inductive sys_step :: "'c setting \<Rightarrow> 'c sys_state \<Rightarrow> 'c sys_state \<Rightarrow> bool" for S where
  recv_main: "loc st = MainLoop \<Longrightarrow> gos (wld st) = xs @ x # ys \<Longrightarrow> sends x = Some e \<Longrightarrow>
     main_event (sys_pools S) e (st\<lparr>wld := received x ((wld st)\<lparr>gos := xs @ ys\<rparr>)\<rparr>) = Ret st' \<Longrightarrow>
     sys_step S st st'"
| recv_shutdown: "loc st = ShutdownLoop \<Longrightarrow> gos (wld st) = xs @ x # ys \<Longrightarrow> sends x = Some e \<Longrightarrow>
     shutdown_event (sys_pools S) e (st\<lparr>wld := received x ((wld st)\<lparr>gos := xs @ ys\<rparr>)\<rparr>) = Ret st' \<Longrightarrow>
     sys_step S st st'"
| context_done: "loc st = MainLoop \<Longrightarrow> ctxDone st \<Longrightarrow> range_order (pools (sup st)) ns \<Longrightarrow>
     ctx_done (sys_pools S) ns st = Ret st' \<Longrightarrow> sys_step S st st'"
| os_signal: "sys_step S st (st\<lparr>ctxDone := True\<rparr>)"
| goroutine: "gos (wld st) = xs @ x # ys \<Longrightarrow> go_addr x = Some a \<Longrightarrow> heap (wld st) a = Some w \<Longrightarrow>
     go_step (s_cmd S) x w w' zs \<Longrightarrow>
     sys_step S st (st\<lparr>wld := (wld st)\<lparr>heap := (heap (wld st))(a \<mapsto> w'), gos := xs @ zs @ ys\<rparr>\<rparr>)"
| process: "heap (wld st) a = Some w \<Longrightarrow> s_step S (rw_cmd w) c \<Longrightarrow>
     sys_step S st (st\<lparr>wld := (wld st)\<lparr>heap := (heap (wld st))(a \<mapsto> w\<lparr>rw_cmd := c\<rparr>)\<rparr>\<rparr>)"

text \<open>Where \<open>Run\<close> stands after it has created and started the pools of a configuration.\<close>

definition sys_init :: "'c setting \<Rightarrow> SupervisorConfig \<Rightarrow> 'c sys_state \<Rightarrow> bool" where
  "sys_init S config st \<longleftrightarrow>
     (\<forall>w\<in>set (Workers config). in64 (wc_MaxRestarts w)) \<and> loc st = MainLoop \<and>
     (\<exists>s ns done. NewSupervisor config False = Inr s \<and> range_order (pools (sup st)) ns \<and>
        Run_start (s_lib S) (sys_ops S) (sys_pools S) ns done s empty_world = Ret st)"

inductive reachable :: "'c setting \<Rightarrow> SupervisorConfig \<Rightarrow> 'c sys_state \<Rightarrow> bool" for S config where
  init: "sys_init S config st \<Longrightarrow> reachable S config st"
| step: "reachable S config st \<Longrightarrow> sys_step S st st' \<Longrightarrow> reachable S config st'"

end
