(* ===== verification/System_Exec.thy ===== *)
theory System_Exec
  imports System
begin

text \<open>
  The steps of the program as a function of a label that resolves the choices (which
  goroutine runs, which event is received, in which order pools are visited), sound for
  \<open>sys_step\<close>. A run of the program is a list of labels and evaluates.
\<close>

datatype 'c label =
    Receive nat
  | CtxDone "string list"
  | OsSignal
  | GoRun nat bool
  | Process addr 'c

text \<open>The flag chooses the timer branch of a limiter that could also be cancelled.\<close>

fun go_run ::
  "'c gocmd \<Rightarrow> bool \<Rightarrow> goroutine \<Rightarrow> 'c realProcessWorker \<Rightarrow> ('c realProcessWorker \<times> goroutine list) option" where
  "go_run G fire (WatchExit a) w =
     (case sendUpdatesToAggrChannel G w of None \<Rightarrow> None | Some (w', e) \<Rightarrow> Some (w', [SendEvent e]))"
| "go_run G fire (TermTimer a) w =
     Some (w, case term_timer_fires G w of None \<Rightarrow> [] | Some e \<Rightarrow> [SendEvent e])"
| "go_run G fire (RunMonitor l a) w =
     map_option (\<lambda>t. (set_limiter l (fst (Monitor t)) w, if snd (Monitor t) then [LimitTimer l a] else []))
       (limiter_of l w)"
| "go_run G fire (LimitTimer l a) w =
     (case limiter_of l w of
        None \<Rightarrow> None
      | Some t \<Rightarrow>
          if fire then Some (set_limiter l (fst (limiter_fires t)) w, [SendLimitEvent (snd (limiter_fires t))])
          else if rw_cancelled w then Some (set_limiter l (limiter_cancelled t) w, []) else None)"
| "go_run G fire (StreamLogsLoop a) w =
     (if rw_isStreamingLogs w \<and> \<not> cmd_done G (rw_cmd w) then None
      else Some (w\<lparr>rw_stdStreamClosed := True\<rparr>, []))"
| "go_run G fire _ w = None"

fun of_outcome :: "'a outcome \<Rightarrow> 'a option" where
  "of_outcome (Ret x) = Some x"
| "of_outcome _ = None"

fun exec_label :: "'c setting \<Rightarrow> 'c label \<Rightarrow> 'c sys_state \<Rightarrow> 'c sys_state option" where
  "exec_label S (Receive i) st =
     (if i < length (gos (wld st)) then
        (let x = gos (wld st) ! i;
             st1 = st\<lparr>wld := received x ((wld st)\<lparr>gos := take i (gos (wld st)) @ drop (Suc i) (gos (wld st))\<rparr>)\<rparr>
         in case sends x of
              None \<Rightarrow> None
            | Some e \<Rightarrow>
                (case loc st of
                   MainLoop \<Rightarrow> of_outcome (main_event (sys_pools S) e st1)
                 | ShutdownLoop \<Rightarrow> of_outcome (shutdown_event (sys_pools S) e st1)
                 | Returned err \<Rightarrow> None))
      else None)"
| "exec_label S (CtxDone ns) st =
     (if loc st = MainLoop \<and> ctxDone st
      then of_outcome (ctx_done (sys_pools S) (arrange ns (pools (sup st))) st) else None)"
| "exec_label S OsSignal st = Some (st\<lparr>ctxDone := True\<rparr>)"
| "exec_label S (GoRun i fire) st =
     (if i < length (gos (wld st)) then
        (let x = gos (wld st) ! i
         in case go_addr x of
              None \<Rightarrow> None
            | Some a \<Rightarrow>
                (case heap (wld st) a of
                   None \<Rightarrow> None
                 | Some w \<Rightarrow>
                     (case go_run (s_cmd S) fire x w of
                        None \<Rightarrow> None
                      | Some (w', zs) \<Rightarrow>
                          Some (st\<lparr>wld := (wld st)\<lparr>heap := (heap (wld st))(a \<mapsto> w'),
                             gos := take i (gos (wld st)) @ zs @ drop (Suc i) (gos (wld st))\<rparr>\<rparr>))))
      else None)"
| "exec_label S (Process a c) st =
     (case heap (wld st) a of
        None \<Rightarrow> None
      | Some w \<Rightarrow>
          if s_step S (rw_cmd w) c
          then Some (st\<lparr>wld := (wld st)\<lparr>heap := (heap (wld st))(a \<mapsto> w\<lparr>rw_cmd := c\<rparr>)\<rparr>\<rparr>) else None)"

fun exec_trace :: "'c setting \<Rightarrow> 'c label list \<Rightarrow> 'c sys_state \<Rightarrow> 'c sys_state option" where
  "exec_trace S [] st = Some st"
| "exec_trace S (l # ls) st = (case exec_label S l st of None \<Rightarrow> None | Some st1 \<Rightarrow> exec_trace S ls st1)"

text \<open>The state after starting, for a supervisor fresh from \<open>NewSupervisor\<close>.\<close>

definition exec_init :: "'c setting \<Rightarrow> SupervisorConfig \<Rightarrow> 'c sys_state option" where
  "exec_init S config =
     (case NewSupervisor config False of
        Inl err \<Rightarrow> None
      | Inr s \<Rightarrow>
          (case Run_start (s_lib S) (sys_ops S) (sys_pools S) (map wc_Name (Workers config)) False s empty_world of
             Ret st \<Rightarrow> if loc st = MainLoop then Some st else None
           | _ \<Rightarrow> None))"

definition exec_run :: "'c setting \<Rightarrow> SupervisorConfig \<Rightarrow> 'c label list \<Rightarrow> 'c sys_state option" where
  "exec_run S config ls = Option.bind (exec_init S config) (exec_trace S ls)"

subsection \<open>Soundness\<close>

lemma of_outcome_Some [simp]: "of_outcome m = Some x \<longleftrightarrow> m = Ret x"
  by (cases m) auto

lemma go_run_sound: "go_run G fire x w = Some (w', zs) \<Longrightarrow> go_step G x w w' zs"
proof (cases x)
  case (RunMonitor l a)
  assume "go_run G fire x w = Some (w', zs)"
  with RunMonitor obtain t where "limiter_of l w = Some t" "w' = set_limiter l (fst (Monitor t)) w"
    "zs = (if snd (Monitor t) then [LimitTimer l a] else [])" by auto
  with go_step.monitors [of l w t G a] RunMonitor show ?thesis by simp
qed (auto intro: go_step.intros split: option.splits if_splits prod.splits)

lemma split_at: "i < length xs \<Longrightarrow> xs = take i xs @ xs ! i # drop (Suc i) xs"
  by (rule id_take_nth_drop)

lemma exec_label_sound: "exec_label S l st = Some st' \<Longrightarrow> sys_step S st st'"
proof (cases l)
  case (Receive i)
  assume "exec_label S l st = Some st'"
  with Receive show ?thesis
    by (auto simp: Let_def split: if_splits option.splits run_loc.splits
        intro: sys_step.recv_main [OF _ split_at] sys_step.recv_shutdown [OF _ split_at])
next
  case (GoRun i fire)
  assume "exec_label S l st = Some st'"
  with GoRun obtain a w w' zs where "i < length (gos (wld st))" "go_addr (gos (wld st) ! i) = Some a"
    "heap (wld st) a = Some w" "go_run (s_cmd S) fire (gos (wld st) ! i) w = Some (w', zs)"
    "st' = st\<lparr>wld := (wld st)\<lparr>heap := (heap (wld st))(a \<mapsto> w'),
       gos := take i (gos (wld st)) @ zs @ drop (Suc i) (gos (wld st))\<rparr>\<rparr>"
    by (auto simp: Let_def split: if_splits option.splits)
  then show ?thesis by (auto intro: sys_step.goroutine [OF split_at] go_run_sound)
next
  case (CtxDone ns)
  assume "exec_label S l st = Some st'"
  with CtxDone show ?thesis by (auto intro: sys_step.context_done [OF _ _ range_order_arrange] split: if_splits)
qed (auto split: if_splits option.splits intro: sys_step.intros)

lemma exec_trace_sound:
  "exec_trace S ls st = Some st' \<Longrightarrow> reachable S config st \<Longrightarrow> reachable S config st'"
proof (induction ls arbitrary: st)
  case (Cons l ls)
  then obtain st1 where st1: "exec_label S l st = Some st1" "exec_trace S ls st1 = Some st'"
    by (auto split: option.splits)
  from reachable.step [OF Cons.prems(2) exec_label_sound [OF st1(1)]] show ?case by (rule Cons.IH [OF st1(2)])
qed simp

lemma exec_init_sound:
  assumes "exec_init S config = Some st" and m: "\<forall>w\<in>set (Workers config). in64 (wc_MaxRestarts w)"
  shows "sys_init S config st"
proof -
  from assms(1) obtain s where s: "NewSupervisor config False = Inr s" and l: "loc st = MainLoop"
    and run: "Run_start (s_lib S) (sys_ops S) (sys_pools S) (map wc_Name (Workers config)) False s empty_world = Ret st"
    by (auto simp: exec_init_def split: sum.splits outcome.splits if_splits)
  from run l obtain ps tot g1 where
    cr: "create_loop (s_lib S) (sys_ops S) (cmdOpts s) (Workers (sconfig s)) [] 0 empty_world = Ret ((ps, tot, None), g1)"
    and fp: "for_pools (p_RunAll (sys_pools S)) (map wc_Name (Workers config)) (s\<lparr>pools := ps\<rparr>) g1 = Ret (sup st, wld st)"
    by (auto simp: Run_start_def createAndPreparePools_def split: if_splits)
  have "sconfig s = config" using s by (auto simp: NewSupervisor_def)
  with create_loop_keys [OF cr] for_pools_keys [OF fp] have "keys (pools (sup st)) = map wc_Name (Workers config)" by simp
  then have "range_order (pools (sup st)) (map wc_Name (Workers config))" by (metis range_order_refl)
  with s l run m show ?thesis unfolding sys_init_def by blast
qed

lemma exec_run_sound:
  "exec_run S config ls = Some st \<Longrightarrow> \<forall>w\<in>set (Workers config). in64 (wc_MaxRestarts w) \<Longrightarrow> reachable S config st"
  unfolding exec_run_def bind_eq_Some_conv
  by (elim exE conjE, rule exec_trace_sound, assumption, rule reachable.init, rule exec_init_sound)

end
