(* ===== verification/Samples.thy ===== *)
theory Samples
  imports System_Exec
begin

text \<open>
  A concrete environment: a command that starts and exits when told, a file system and a
  network that always answer, and small configurations. The runs of the other theories
  evaluate on it; it shows that the assumptions on go-cmd can hold.
\<close>

text \<open>No run depends on the text of the files it writes: evaluation leaves it as it is.\<close>

declare cluster_text_def [code del] listener_text_def [code del] bootstrap_text_def [code del]

record pcmd =
  pc_started :: bool
  pc_pid :: int
  pc_exited :: bool
  pc_stopped :: bool
  pc_sent :: bool

definition pcmd_status :: "pcmd \<Rightarrow> cmdStatus" where
  "pcmd_status c = \<lparr>cs_Cmd = ''cmd'', PID = pc_pid c, Complete = pc_exited c \<and> \<not> pc_stopped c, Exit = 0,
     StopTs = (if pc_exited c then 1 else 0)\<rparr>"

definition sample_cmd :: "pcmd gocmd" where
  "sample_cmd =
     \<lparr>NewCmdOptions = (\<lambda>opt name args env. \<lparr>pc_started = False, pc_pid = 0, pc_exited = False, pc_stopped = False, pc_sent = False\<rparr>),
      cmdStart = (\<lambda>c. c\<lparr>pc_started := True\<rparr>),
      cmdStop = (\<lambda>c. if pc_pid c = 0 then (StopErrNotStarted, c) else (StopOk, c\<lparr>pc_stopped := True\<rparr>)),
      cmdStatusOf = pcmd_status,
      cmdRecv = (\<lambda>c. if pc_exited c \<and> \<not> pc_sent c then Some (pcmd_status c, c\<lparr>pc_sent := True\<rparr>) else None)\<rparr>"

text \<open>A started command gets a process; a process may exit.\<close>

definition sample_step :: "pcmd \<Rightarrow> pcmd \<Rightarrow> bool" where
  "sample_step c c' \<longleftrightarrow>
     (pc_started c \<and> pc_pid c = 0 \<and> \<not> pc_exited c \<and> c' = c\<lparr>pc_pid := 7\<rparr>) \<or>
     (pc_pid c \<noteq> 0 \<and> \<not> pc_exited c \<and> c' = c\<lparr>pc_exited := True\<rparr>)"

definition sample_lib :: golib where
  "sample_lib =
     \<lparr>LookPath = (\<lambda>_. True), TmplParse = (\<lambda>_. None), TmplExec = (\<lambda>t n. Inr (showInt n)), Intn = (\<lambda>r. r - 1),
      FsMissing = (\<lambda>_. False), FsMkdir = (\<lambda>_. None), FsOpen = (\<lambda>_. None), FsWrite = (\<lambda>_. None),
      HttpPost = (\<lambda>_. None)\<rparr>"

definition sample :: "pcmd setting" where
  "sample = \<lparr>s_lib = sample_lib, s_cmd = sample_cmd, s_environ = [], s_register = (\<lambda>_ _. Registered),
     s_ordR = (\<lambda>p. keys (workers p)), s_ordI = (\<lambda>p. keys (workers p)), s_step = sample_step\<rparr>"

definition sample_worker :: "int \<Rightarrow> WorkerConfig" where
  "sample_worker n = \<lparr>wc_Name = ''p'', wc_Replicas = n, wc_Exec = ''app'', wc_Args = [], wc_SignalTimeout = 0,
     wc_MaxRestarts = 1, wc_Limits = None, wc_Server = None, wc_StartupWaitTime = 0, wc_DesiredHealthyPercentage = 0\<rparr>"

definition sample_server :: ServerConfig where
  "sample_server = \<lparr>PortArg = \<lparr>pa_Name = ''--port'', pa_StartPort = 5, pa_ValueTemplate = ''x''\<rparr>, sc_SignalTimeout = 0,
     HealthCheckPath = ''/h'', LoadBalanceAlgorithm = None, ProxyConfigPath = '''', ProxyAdminPort = 3, ProxyListenerPort = 4\<rparr>"

definition sample_config :: SupervisorConfig where
  "sample_config = \<lparr>Workers = [sample_worker 1]\<rparr>"

lemma sample_laws: "gocmd_laws sample"
  by (auto simp: gocmd_laws_def sample_def sample_cmd_def sample_step_def cmd_done_def pcmd_status_def)

lemma sample_config_in64: "\<forall>w\<in>set (Workers sample_config). in64 (wc_MaxRestarts w)"
  by (simp add: sample_config_def sample_worker_def in64_def)

text \<open>A full life: the process starts, a signal arrives, the process is stopped, exits and is reported.\<close>

definition pcmd_at :: "bool \<Rightarrow> bool \<Rightarrow> pcmd" where
  "pcmd_at exited stopped =
     \<lparr>pc_started = True, pc_pid = 7, pc_exited = exited, pc_stopped = stopped, pc_sent = False\<rparr>"

definition clean_run :: "pcmd label list" where
  "clean_run = [Process 0 (pcmd_at False False), OsSignal, CtxDone [], Process 0 (pcmd_at True True),
     GoRun 1 True, GoRun 0 True, Receive 0]"

lemma clean_run_returns: "map_option loc (exec_run sample sample_config clean_run) = Some (Returned None)"
  by code_simp

text \<open>Prefixes of it: running, and with the report of the end waiting to be received.\<close>

definition started_run :: "pcmd label list" where
  "started_run = take 1 clean_run"

definition reporting_run :: "pcmd label list" where
  "reporting_run = take 6 clean_run"

lemma exec_view: "map_option f (exec_run S config ls) = Some v \<Longrightarrow> \<exists>st. exec_run S config ls = Some st \<and> f st = v"
  by auto

text \<open>What the witnesses look at: the loop, the workers of each pool and the goroutines.\<close>

definition view :: "pcmd sys_state \<Rightarrow> run_loc \<times> bool \<times> (string \<times> (string \<times> addr) list) list \<times> goroutine list" where
  "view st = (loc st, terminating (sup st), map (\<lambda>(n, i). (n, workers (pi_pool i))) (pools (sup st)), gos (wld st))"

definition sample_end :: SupervisorEvent where
  "sample_end = mk_event ProcessEnd ProcessExited ''p-0'' ''p''
     (Some \<lparr>cs_Cmd = ''cmd'', PID = 7, Complete = False, Exit = 0, StopTs = 1\<rparr>)"

lemma started_view:
  "map_option view (exec_run sample sample_config started_run) =
     Some (MainLoop, False, [(''p'', [(''p-0'', 0)])], [StreamLogsLoop 0, WatchExit 0])"
  by code_simp

lemma started_status:
  "map_option (\<lambda>st. map_option (Status_r sample_cmd) (heap (wld st) 0)) (exec_run sample sample_config started_run) =
     Some (Some Running)"
  by code_simp

lemma reporting_view:
  "map_option view (exec_run sample sample_config reporting_run) =
     Some (ShutdownLoop, True, [(''p'', [(''p-0'', 0)])], [SendEvent sample_end, TermTimer 0])"
  by code_simp

lemma reporting_received:
  "map_option (\<lambda>st. map_option loc (exec_label sample (Receive 0) st)) (exec_run sample sample_config reporting_run) =
     Some (Some (Returned None))"
  by code_simp

lemma view_pool:
  assumes "view st = (l, t, [(n, ws)], gs)"
  shows "\<exists>i. pools (sup st) = [(n, i)] \<and> workers (pi_pool i) = ws" "loc st = l" "terminating (sup st) = t" "gos (wld st) = gs"
  using assms by (auto simp: view_def)

lemma started_state:
  obtains st i w where "exec_run sample sample_config started_run = Some st" "reachable sample sample_config st"
    "map_of (pools (sup st)) ''p'' = Some i" "workers (pi_pool i) = [(''p-0'', 0)]" "loc st = MainLoop"
    "gos (wld st) = [StreamLogsLoop 0, WatchExit 0]" "heap (wld st) 0 = Some w" "Status_r sample_cmd w = Running"
proof -
  from exec_view [OF started_view] obtain st where st: "exec_run sample sample_config started_run = Some st"
    and v: "view st = (MainLoop, False, [(''p'', [(''p-0'', 0)])], [StreamLogsLoop 0, WatchExit 0])" by blast
  from started_status st obtain w where w: "heap (wld st) 0 = Some w" "Status_r sample_cmd w = Running" by auto
  from view_pool(1) [OF v] obtain i where "pools (sup st) = [(''p'', i)]" and ws: "workers (pi_pool i) = [(''p-0'', 0)]" by blast
  then have i: "map_of (pools (sup st)) ''p'' = Some i" by simp
  show ?thesis
    by (rule that [OF st exec_run_sound [OF st sample_config_in64] i ws view_pool(2,4) [OF v] w])
qed

lemma reporting_state:
  obtains st st' where "exec_run sample sample_config reporting_run = Some st" "reachable sample sample_config st"
    "terminating (sup st)" "loc st = ShutdownLoop" "gos (wld st) = [] @ SendEvent sample_end # [TermTimer 0]"
    "exec_label sample (Receive 0) st = Some st'"
proof -
  from exec_view [OF reporting_view] obtain st where st: "exec_run sample sample_config reporting_run = Some st"
    and v: "view st = (ShutdownLoop, True, [(''p'', [(''p-0'', 0)])], [SendEvent sample_end, TermTimer 0])" by blast
  from reporting_received st obtain st' where l: "exec_label sample (Receive 0) st = Some st'" by auto
  show ?thesis
    using view_pool [OF v] by (intro that [OF st exec_run_sound [OF st sample_config_in64] _ _ _ l]) simp_all
qed

end
