(* ===== verification/Pool_Properties.thy ===== *)
theory Pool_Properties
  imports Pool_Total Pool_Contract Pool_Health Samples
begin

text \<open>
  What a pool of operating-system workers promises: the names and ports of its workers, its
  errors, the restart budget, its health, and what shutting it down touches.
\<close>

lemma real_ops_sel [simp]:
  "factory (real_ops G E R) = NewProdWorker G E R" "w_Run (real_ops G E R) = Run_r G"
  "w_Terminate (real_ops G E R) = Terminate_r G" "w_Restarts (real_ops G E R) = Restarts_r"
  "w_Status (real_ops G E R) = Status_r G"
  by (simp_all add: real_ops_def)

lemma real_factory_total:
  "(\<And>p n. R p n \<noteq> AlreadyRegistered) \<Longrightarrow> \<exists>w. factory (real_ops G E R) c = Ret w"
  by (auto simp: NewProdWorker_def newWorkerInstance_def Let_def split: reg_result.split)

subsection \<open>Preparing\<close>

lemma map_of_port_plan:
  assumes "sInfo sw = Some si" and "i < n"
  shows "map_of (port_plan sw [0..<n]) (workerName (poolName sw) i) = Some (startPort si + of_nat i)"
proof -
  let ?f = "\<lambda>i. (workerName (poolName sw) i, startPort si + of_nat i)"
  have "distinct (map fst (map ?f [0..<n]))" by (simp add: comp_def distinct_map inj_on_def)
  moreover have "?f i \<in> set (map ?f [0..<n])" using assms(2) by simp
  ultimately show ?thesis using assms(1) by (simp only: port_plan_def option.case map_of_eq_Some_iff)
qed

lemma ports_self: "\<exists>ps. si = si\<lparr>ports := ps\<rparr>"
  by (rule exI [of _ "ports si"]) simp

lemma prepare_loop_sInfo:
  "prepare_loop lib W opts is sw g = Ret (err, sw', g') \<Longrightarrow> sInfo sw = Some si \<Longrightarrow>
     \<exists>ps. sInfo sw' = Some (si\<lparr>ports := ps\<rparr>)"
proof (induction "is" arbitrary: sw g si)
  case (Cons i "is")
  show ?case
  proof (cases "workerName (poolName sw) i \<in> set (keys (workers sw))")
    case False
    let ?nm = "workerName (poolName sw) i"
    from Cons.prems False obtain sw2 g2 where p: "prepareWorkerInternal lib W opts ?nm 0 (assign_port ?nm i sw) g = Ret (sw2, g2)"
      and l: "prepare_loop lib W opts is sw2 (upd_mets (init_counters (poolName sw2)) g2) = Ret (err, sw', g')"
      by (auto simp: Let_def)
    have "sInfo sw2 = Some (si\<lparr>ports := AList.update ?nm (startPort si + of_nat i) (ports si)\<rparr>)"
      using p Cons.prems(2) by (auto simp: prepareWorkerInternal_def assign_port_def)
    from Cons.IH [OF l this] show ?thesis by simp
  qed (use Cons.prems ports_self in \<open>auto simp: Let_def\<close>)
qed (simp add: ports_self)

text \<open>C12: Preparing a new pool gives every replica its own name and port: the workers are
  \<open>name-0\<close> to \<open>name-(n-1)\<close>, all different, plus the proxy exactly when the pool has a
  server; worker \<open>i\<close> listens on \<open>start_port + i\<close> (modulo \<open>2 ^ 64\<close>), none has been
  restarted, and the pool is \<open>Prepared\<close>. Preparing returns, provided the port template, the
  limiter's random source and the metrics registration do not fail.\<close>

theorem new_pool_prepared:
  assumes new: "NewWorkerPool lib False c = Inr sw" and env: "env_ok lib (real_ops G E R) sw"
  shows "\<exists>err sw' g'. PoolPrepareWorkers lib (real_ops G E R) opts sw g = Ret (err, sw', g') \<and>
     keys (workers sw') = map (workerName (wc_Name c)) [0..<nat (wc_Replicas c)] @
       (if wc_Server c \<noteq> None \<and> err = None then [ProxyId] else []) \<and>
     distinct (keys (workers sw')) \<and> pstate sw' = Prepared \<and> (err \<noteq> None \<longrightarrow> wc_Server c \<noteq> None) \<and>
     (\<forall>s i. wc_Server c = Some s \<longrightarrow> i < nat (wc_Replicas c) \<longrightarrow>
        map_of (pool_ports sw') (workerName (wc_Name c) i) = Some (pa_StartPort (PortArg s) + of_nat i)) \<and>
     (\<forall>k a. map_of (workers sw') k = Some a \<longrightarrow> (\<exists>w. heap g' a = Some w \<and> rw_restarts w = 0))"
proof -
  note n = NewWorkerPool_new [OF new]
  from real.PoolPrepareWorkers_total [OF env] obtain err sw' g' where
    ret: "PoolPrepareWorkers lib (real_ops G E R) opts sw g = Ret (err, sw', g')" by blast
  have k: "keys (workers sw') = map (workerName (wc_Name c)) [0..<nat (wc_Replicas c)] @
      (if wc_Server c \<noteq> None \<and> err = None then [ProxyId] else [])"
    and p: "pool_ports sw' = port_plan sw [0..<nat (wc_Replicas c)]" and f: "fresh_workers (real_ops G E R) sw' g'"
    and rest: "pstate sw' = Prepared" "err \<noteq> None \<longrightarrow> wc_Server c \<noteq> None"
    using real.PoolPrepareWorkers_fresh [OF ret] n by simp_all
  have d: "distinct (keys (workers sw'))"
    unfolding k by (auto simp: distinct_map inj_on_def)
  have ports: "map_of (pool_ports sw') (workerName (wc_Name c) i) = Some (pa_StartPort (PortArg s) + of_nat i)"
    if s: "wc_Server c = Some s" and i: "i < nat (wc_Replicas c)" for s i
  proof -
    from new s obtain si where "sInfo sw = Some si" "startPort si = pa_StartPort (PortArg s)"
      by (auto simp: NewWorkerPool_def new_serverInfo_def Let_def split: if_splits option.splits)
    with map_of_port_plan [of sw si i] i p n show ?thesis by simp
  qed
  have z: "\<exists>w. heap g' a = Some w \<and> rw_restarts w = 0" if "map_of (workers sw') j = Some a" for j a
    using f that map_of_in_keys [OF that] by (fastforce simp: fresh_workers_def brand_new_def Restarts_r_def)
  from ret k d rest ports z show ?thesis by blast
qed

lemma sample_env_ok: "env_ok sample_lib (real_ops sample_cmd [] (\<lambda>_ _. Registered)) sw" if "maxLifespan sw = 0" for sw
  using that real_factory_total [of "\<lambda>_ _. Registered" sample_cmd "[]"] by (simp add: env_ok_def sample_lib_def)

definition served_worker :: WorkerConfig where
  "served_worker = (sample_worker 2)\<lparr>wc_Server := Some sample_server\<rparr>"

theorem new_pool_prepared_witness:
  "\<exists>sw sw' g'. NewWorkerPool sample_lib False served_worker = Inr sw \<and>
     PoolPrepareWorkers sample_lib (real_ops sample_cmd [] (\<lambda>_ _. Registered))
       \<lparr>Buffered = False, Streaming = True\<rparr> sw (empty_world :: pcmd realProcessWorker world) = Ret (None, sw', g') \<and>
     keys (workers sw') = [''p-0'', ''p-1'', ProxyId] \<and> map_of (pool_ports sw') ''p-1'' = Some 6"
proof -
  let ?o = "real_ops sample_cmd [] (\<lambda>_ _. Registered)" and ?c = "\<lparr>Buffered = False, Streaming = True\<rparr>"
  obtain sw where sw: "NewWorkerPool sample_lib False served_worker = Inr sw" "maxLifespan sw = 0"
    by (simp add: NewWorkerPool_def served_worker_def sample_worker_def sample_server_def sample_lib_def commandExists_def Let_def)
  have "map_option (\<lambda>(e, r). e) (of_outcome (PoolPrepareWorkers sample_lib ?o ?c
      (case NewWorkerPool sample_lib False served_worker of Inr p \<Rightarrow> p) (empty_world :: pcmd realProcessWorker world))) = Some None"
    by code_simp
  then have none: "\<exists>r. PoolPrepareWorkers sample_lib ?o ?c sw (empty_world :: pcmd realProcessWorker world) = Ret (None, r)"
    using sw(1) by (auto split: prod.splits)
  have nm: "workerName ''p'' 0 = ''p-0''" "workerName ''p'' (Suc 0) = ''p-1''" by code_simp+
  have c: "wc_Name served_worker = ''p''" "wc_Replicas served_worker = 2" "wc_Server served_worker = Some sample_server"
    "pa_StartPort (PortArg sample_server) = 5"
    by (simp_all add: served_worker_def sample_worker_def sample_server_def)
  from new_pool_prepared [OF sw(1) sample_env_ok [OF sw(2)], of ?c empty_world] none obtain sw' g' where
    r: "PoolPrepareWorkers sample_lib ?o ?c sw (empty_world :: pcmd realProcessWorker world) = Ret (None, sw', g')"
    and k: "keys (workers sw') = map (workerName ''p'') [0..<nat 2] @ [ProxyId]"
    and p: "\<forall>s i. Some sample_server = Some s \<longrightarrow> i < nat 2 \<longrightarrow>
      map_of (pool_ports sw') (workerName ''p'' i) = Some (pa_StartPort (PortArg s) + of_nat i)"
    unfolding c by auto
  have "map_of (pool_ports sw') ''p-1'' = Some 6" using p [rule_format, of sample_server 1] by (simp add: nm c)
  with sw(1) r k show ?thesis by (auto simp: nm upt_rec)
qed

text \<open>Preparing a pool twice is refused: once the first worker's name is taken,
  \<open>PrepareWorkers\<close> returns an error that wraps \<open>ErrDuplicateMapEntry\<close>, and neither
  the workers nor the rest of the program's state change.\<close>

lemma prepare_twice_refused:
  assumes "workerName (poolName sw) 0 \<in> set (keys (workers sw))" and "0 < replicas sw"
  shows "\<exists>err sw'. PoolPrepareWorkers lib (real_ops G E R) opts sw g = Ret (Some err, sw', g) \<and>
     errors_Is err (CommonErr ErrDuplicateMapEntry) \<and> workers sw' = workers sw"
  using real.PoolPrepareWorkers_again [OF assms, of lib G E R opts g] by auto

definition one_worker_pool :: WorkerPool where
  "one_worker_pool = (case NewWorkerPool sample_lib False (sample_worker 1) of Inr p \<Rightarrow> p\<lparr>workers := [(''p-0'', 0)]\<rparr>)"

subsection \<open>Restarting\<close>

lemma run_goroutines: "on_worker (Run_r G) a g = Ret g' \<Longrightarrow> WatchExit a \<in> set (gos g')"
  by (auto simp: on_worker_eq_Ret Run_r_def)

text \<open>C3: A restart within the budget replaces the worker: for a worker of a pool that is not
  draining, with \<open>restarts + 1\<close> at most \<open>maxRestarts\<close>, \<open>RestartWorker\<close> returns without
  error, installs a new worker under the same name with the count raised by one, starts it (a
  goroutine watches its exit), and leaves the old object and every other worker of the pool alone.
  Over the budget it returns an error that wraps \<open>ErrTooManyRestarts\<close> and changes nothing.\<close>

theorem RestartWorker_budget:
  assumes inv: "pool_inv (real_ops G E R) rw_name rw_poolName sw g" and env: "env_ok lib (real_ops G E R) sw"
    and a: "map_of (workers sw) k = Some a" and w0: "heap g a = Some w0"
    and k: "k \<noteq> ProxyId" and st: "pstate sw \<notin> {Draining, Stopped}" and m: "0 \<le> rw_restarts w0" "rw_restarts w0 < MaxInt"
  shows "(maxRestarts (startup sw) < rw_restarts w0 + 1 \<longrightarrow>
       (\<exists>err. RestartWorker lib (real_ops G E R) opts k sw g = Ret (Some err, sw, g) \<and> errors_Is err TooManyRestarts)) \<and>
     (rw_restarts w0 + 1 \<le> maxRestarts (startup sw) \<longrightarrow>
       (\<exists>sw' g' w. RestartWorker lib (real_ops G E R) opts k sw g = Ret (None, sw', g') \<and>
          workers sw' = AList.update k (nextAddr g) (workers sw) \<and> heap g' (nextAddr g) = Some w \<and>
          rw_name w = k \<and> rw_restarts w = rw_restarts w0 + 1 \<and> WatchExit (nextAddr g) \<in> set (gos g') \<and>
          (\<forall>b < nextAddr g. heap g' b = heap g b)))"
proof -
  have r: "w_Restarts (real_ops G E R) w0 = rw_restarts w0" by (simp add: Restarts_r_def)
  have "\<exists>err. RestartWorker lib (real_ops G E R) opts k sw g = Ret (Some err, sw, g) \<and> errors_Is err TooManyRestarts"
    if "maxRestarts (startup sw) < rw_restarts w0 + 1"
    using real.RestartWorker_over_budget [OF inv a w0 k st, unfolded r, OF m(2) that, of lib opts] by auto
  moreover have "\<exists>sw' g' w. RestartWorker lib (real_ops G E R) opts k sw g = Ret (None, sw', g') \<and>
      workers sw' = AList.update k (nextAddr g) (workers sw) \<and> heap g' (nextAddr g) = Some w \<and>
      rw_name w = k \<and> rw_restarts w = rw_restarts w0 + 1 \<and> WatchExit (nextAddr g) \<in> set (gos g') \<and>
      (\<forall>b < nextAddr g. heap g' b = heap g b)" if le: "rw_restarts w0 + 1 \<le> maxRestarts (startup sw)"
  proof -
    obtain err sw' g' where ret: "RestartWorker lib (real_ops G E R) opts k sw g = Ret (err, sw', g')"
      using real.RestartWorker_total [OF inv env map_of_in_keys [OF a]] by blast
    have eq: "wrap64 (rw_restarts w0 + 1) = rw_restarts w0 + 1" using m by (simp add: wrap64_id in64_def MaxInt_def)
    from ret show ?thesis
    proof (cases rule: real.RestartWorker_cases)
      case (restarted a1 w1 w g1 f)
      with a w0 k eq have inst: "installs (real_ops G E R) rw_name rw_poolName k (rw_restarts w0 + 1) w sw g sw' g1"
        by (simp add: Restarts_r_def)
      have run: "on_worker (Run_r G) (nextAddr g) (upd_mets f g1) = Ret g'" using restarted(9) by simp
      from run inst have "heap g' = (heap g)(nextAddr g \<mapsto> w\<lparr>rw_cmd := cmdStart G (rw_cmd w)\<rparr>)"
        by (auto simp: on_worker_eq_Ret installs_def Run_r_def)
      with run_goroutines [OF run] inst ret restarted(2) show ?thesis by (auto simp: installs_def Restarts_r_def)
    qed (use st k le eq a w0 in \<open>auto simp: Restarts_r_def\<close>)
  qed
  ultimately show ?thesis by blast
qed

definition one_worker_world :: "pcmd realProcessWorker world" where
  "one_worker_world = (case PoolPrepareWorkers sample_lib (real_ops sample_cmd [] (\<lambda>_ _. Registered))
     \<lparr>Buffered = False, Streaming = True\<rparr> (one_worker_pool\<lparr>workers := []\<rparr>) empty_world of Ret (e, sw, g) \<Rightarrow> g)"

lemma one_worker_facts:
  "workers one_worker_pool = [(''p-0'', 0)]" "poolName one_worker_pool = ''p''" "maxLifespan one_worker_pool = 0"
  "maxRestarts (startup one_worker_pool) = 1" "pstate one_worker_pool = Init" "sInfo one_worker_pool = None"
  "nextAddr one_worker_world = 1"
  by (code_simp, code_simp, code_simp, code_simp, code_simp, simp add: one_worker_pool_def NewWorkerPool_def
      sample_worker_def sample_lib_def commandExists_def Let_def, code_simp)

lemma one_worker_obtains:
  obtains w0 where "heap one_worker_world 0 = Some w0" "rw_restarts w0 = 0" "rw_name w0 = ''p-0''" "rw_poolName w0 = ''p''"
proof -
  have "map_option (\<lambda>w. (rw_restarts w, rw_name w, rw_poolName w)) (heap one_worker_world 0) = Some (0, ''p-0'', ''p'')"
    by code_simp
  with that show ?thesis by auto
qed

lemma one_worker_inv:
  "pool_inv (real_ops sample_cmd [] (\<lambda>_ _. Registered)) rw_name rw_poolName one_worker_pool one_worker_world"
  by (rule one_worker_obtains)
    (auto simp: pool_inv_def one_worker_facts entry_ok_def ProxyId_def Restarts_r_def MaxInt_def HasProxy_def split: if_splits)

theorem RestartWorker_budget_witness:
  "\<exists>sw' g' w. RestartWorker sample_lib (real_ops sample_cmd [] (\<lambda>_ _. Registered)) \<lparr>Buffered = False, Streaming = True\<rparr>
       ''p-0'' one_worker_pool one_worker_world = Ret (None, sw', g') \<and>
     workers sw' = [(''p-0'', 1)] \<and> heap g' 1 = Some w \<and> rw_restarts w = 1"
proof -
  obtain w0 where w0: "heap one_worker_world 0 = Some w0" "rw_restarts w0 = 0" by (rule one_worker_obtains)
  have "map_of (workers one_worker_pool) ''p-0'' = Some 0" "''p-0'' \<noteq> ProxyId" "pstate one_worker_pool \<notin> {Draining, Stopped}"
    "0 \<le> rw_restarts w0" "rw_restarts w0 < MaxInt"
    by (simp_all add: one_worker_facts ProxyId_def w0 MaxInt_def)
  from RestartWorker_budget [OF one_worker_inv sample_env_ok this(1) w0(1) this(2-5),
      of "\<lparr>Buffered = False, Streaming = True\<rparr>"] show ?thesis
    by (auto simp: one_worker_facts w0)
qed

text \<open>C37: A negative \<open>max_restarts\<close> means no limit: in a pool built from such a configuration the
  restart of a worker never reports an error, whatever the restart count of the worker is (the count wraps
  around at \<open>2 ^ 63\<close> before it could exceed the default, the largest \<open>int\<close>).\<close>

theorem unlimited_restarts:
  assumes "NewWorkerPool lib False c = Inr sw0" and "wc_MaxRestarts c < 0" and "startup sw = startup sw0"
    and "k \<noteq> ProxyId" and "RestartWorker lib (real_ops G E R) opts k sw g = Ret (err, sw', g')"
  shows "err = None"
proof -
  have mx: "maxRestarts (startup sw) = MaxInt"
    using NewWorkerPool_new [OF assms(1)] assms(2,3) by (simp add: MaxRestartsOrDefault_def DefaultMaxRestarts_def)
  have wr: "\<not> MaxInt < wrap64 x" for x using wrap64_le_MaxInt [of x] by linarith
  from assms(5) show ?thesis by (cases rule: real.RestartWorker_cases) (use assms(4) mx wr in auto)
qed

theorem unlimited_restarts_witness:
  "\<exists>sw0 sw' g'. NewWorkerPool sample_lib False ((sample_worker 1)\<lparr>wc_MaxRestarts := - 1\<rparr>) = Inr sw0 \<and>
     RestartWorker sample_lib (real_ops sample_cmd [] (\<lambda>_ _. Registered)) \<lparr>Buffered = False, Streaming = True\<rparr>
       ''p-0'' (sw0\<lparr>workers := [(''p-0'', 0)]\<rparr>) one_worker_world = Ret (None, sw', g')"
proof -
  obtain sw0 where sw0: "NewWorkerPool sample_lib False ((sample_worker 1)\<lparr>wc_MaxRestarts := - 1\<rparr>) = Inr sw0" "maxLifespan sw0 = 0"
    "poolName sw0 = ''p''" "maxRestarts (startup sw0) = MaxInt" "sInfo sw0 = None"
    by (simp add: NewWorkerPool_def sample_worker_def sample_lib_def commandExists_def Let_def MaxRestartsOrDefault_def DefaultMaxRestarts_def)
  let ?sw = "sw0\<lparr>workers := [(''p-0'', 0)]\<rparr>"
  have "pool_inv (real_ops sample_cmd [] (\<lambda>_ _. Registered)) rw_name rw_poolName ?sw one_worker_world"
    by (rule one_worker_obtains)
      (auto simp: pool_inv_def one_worker_facts sw0 entry_ok_def ProxyId_def Restarts_r_def MaxInt_def HasProxy_def split: if_splits)
  from real.RestartWorker_total [OF this sample_env_ok, of "''p-0''" "\<lparr>Buffered = False, Streaming = True\<rparr>"] obtain err sw' g' where
    r: "RestartWorker sample_lib (real_ops sample_cmd [] (\<lambda>_ _. Registered)) \<lparr>Buffered = False, Streaming = True\<rparr>
       ''p-0'' ?sw one_worker_world = Ret (err, sw', g')" by (auto simp: sw0)
  have "err = None" by (rule unlimited_restarts [OF sw0(1) _ _ _ r]) (simp_all add: ProxyId_def)
  with sw0(1) r show ?thesis by blast
qed

subsection \<open>Well-formed pools\<close>

text \<open>C19: Pools stay well-formed: in a well-formed pool the names of the workers are distinct, no two
  names share a worker, every worker exists, carries the name and pool it is filed under and has a
  restart count within the budget, and only a pool with a server has a proxy. Every operation of the
  pool that returns keeps this, whatever it is called with.\<close>

theorem pool_operations_keep:
  assumes "pool_inv (real_ops G E R) rw_name rw_poolName sw g"
  shows "(PoolPrepareWorkers lib (real_ops G E R) opts sw g = Ret (err, sw', g') \<longrightarrow> pool_inv (real_ops G E R) rw_name rw_poolName sw' g') \<and>
     (RunAll (real_ops G E R) ks sw g = Ret (sw', g') \<longrightarrow> pool_inv (real_ops G E R) rw_name rw_poolName sw' g') \<and>
     (RestartWorker lib (real_ops G E R) opts k sw g = Ret (err, sw', g') \<longrightarrow> pool_inv (real_ops G E R) rw_name rw_poolName sw' g') \<and>
     (InterruptWorker (real_ops G E R) k sw g = Ret (sw', g') \<longrightarrow> pool_inv (real_ops G E R) rw_name rw_poolName sw' g') \<and>
     (InterruptAll lib (real_ops G E R) ks sw g = Ret (sw', g') \<longrightarrow> pool_inv (real_ops G E R) rw_name rw_poolName sw' g') \<and>
     (ForceTerminateWorker (real_ops G E R) k sw g = Ret (sw', g') \<longrightarrow> pool_inv (real_ops G E R) rw_name rw_poolName sw' g')"
proof (intro conjI impI)
qed (auto dest: real.PoolPrepareWorkers_inv [OF assms] real.RunAll_inv [OF assms] real.RestartWorker_inv [OF assms]
    real.InterruptWorker_inv [OF assms] real.InterruptAll_inv [OF assms] real.ForceTerminateWorker_inv [OF assms])

theorem pool_operations_keep_witness:
  "\<exists>sw' g'. InterruptWorker (real_ops sample_cmd [] (\<lambda>_ _. Registered)) ''p-0'' one_worker_pool one_worker_world = Ret (sw', g') \<and>
     pool_inv (real_ops sample_cmd [] (\<lambda>_ _. Registered)) rw_name rw_poolName sw' g'"
proof -
  from real.InterruptWorker_total [OF one_worker_inv, of "''p-0''"] obtain sw' g' where
    "InterruptWorker (real_ops sample_cmd [] (\<lambda>_ _. Registered)) ''p-0'' one_worker_pool one_worker_world = Ret (sw', g')"
    by (auto simp: one_worker_facts)
  with pool_operations_keep [OF one_worker_inv] show ?thesis by blast
qed

subsection \<open>Health\<close>

text \<open>C34: The health check is exact up to one rounding step: for a pool of 1 to 65536 processes,
  a pool reported healthy has at least the desired percentage of its processes running, and a pool
  with at least one percentage point more than desired, or with every process running when at most
  100 is desired, is reported healthy. The single-precision quotient never rounds up past an
  integer.\<close>

theorem IsHealthy_accuracy:
  assumes n: "0 < length (workers sw)" "length (workers sw) \<le> 65536"
  shows "(IsHealthy W sw g \<longrightarrow> desiredHealthPcnt sw * int (length (workers sw)) \<le> 100 * RunningCount W sw g) \<and>
     ((desiredHealthPcnt sw + 1) * int (length (workers sw)) \<le> 100 * RunningCount W sw g \<longrightarrow> IsHealthy W sw g) \<and>
     (RunningCount W sw g = int (length (workers sw)) \<and> desiredHealthPcnt sw \<le> 100 \<longrightarrow> IsHealthy W sw g)"
  using IsHealthy_exact [OF n, of W g] health_percentage_full [of "int (length (workers sw))"] n by (auto simp: IsHealthy_def)

definition running_world :: "pcmd realProcessWorker world" where
  "running_world = one_worker_world\<lparr>heap := map_option (rw_cmd_update (\<lambda>_. pcmd_at False False)) \<circ> heap one_worker_world\<rparr>"

theorem IsHealthy_accuracy_witness:
  "RunningCount (real_ops sample_cmd [] (\<lambda>_ _. Registered)) (one_worker_pool\<lparr>desiredHealthPcnt := 100\<rparr>) running_world = 1 \<and>
   IsHealthy (real_ops sample_cmd [] (\<lambda>_ _. Registered)) (one_worker_pool\<lparr>desiredHealthPcnt := 100\<rparr>) running_world"
proof -
  have "RunningCount (real_ops sample_cmd [] (\<lambda>_ _. Registered)) (one_worker_pool\<lparr>desiredHealthPcnt := 100\<rparr>) running_world = 1"
    by code_simp
  with IsHealthy_accuracy [of "one_worker_pool\<lparr>desiredHealthPcnt := 100\<rparr>" "real_ops sample_cmd [] (\<lambda>_ _. Registered)" running_world]
  show ?thesis by (simp add: one_worker_facts)
qed

text \<open>The rounding step is real: with 53 of 100 or 59 of 100 processes running the computed
  percentage is 52 and 58, so a pool that needs exactly that many is reported unhealthy.\<close>

lemma health_percentage_truncates:
  "health_percentage 53 100 = 52 \<and> health_percentage 59 100 = 58 \<and> health_percentage 50 100 = 50"
  by code_simp

subsection \<open>Shutting down\<close>

lemma terminate_loop_heap:
  assumes "terminate_loop W sw ks g = Ret g'" and "distinct ks"
    and inj: "\<And>k k' a. map_of (workers sw) k = Some a \<Longrightarrow> map_of (workers sw) k' = Some a \<Longrightarrow> k = k'"
  shows "posts g' = posts g \<and> (\<forall>k a w. map_of (workers sw) k = Some a \<longrightarrow> heap g a = Some w \<longrightarrow>
     heap g' a = Some (if k \<in> set ks \<and> k \<noteq> ProxyId then fst (w_Terminate W (signalTimeout (startup sw)) a w) else w))"
  using assms(1,2)
proof (induction ks arbitrary: g)
  case (Cons k ks)
  show ?case
  proof (cases "k = ProxyId")
    case True
    with Cons show ?thesis by auto
  next
    case False
    with Cons.prems obtain a g1 where a: "map_of (workers sw) k = Some a"
      and o: "on_worker (w_Terminate W (signalTimeout (startup sw))) a g = Ret g1" and l: "terminate_loop W sw ks g1 = Ret g'"
      by auto
    from o obtain w where w: "heap g a = Some w" "posts g1 = posts g"
      "heap g1 = (heap g)(a \<mapsto> fst (w_Terminate W (signalTimeout (startup sw)) a w))" by (auto simp: on_worker_eq_Ret)
    note ih = Cons.IH [OF l] 
    have "heap g' b = Some (if j \<in> set (k # ks) \<and> j \<noteq> ProxyId then fst (w_Terminate W (signalTimeout (startup sw)) b v) else v)"
      if b: "map_of (workers sw) j = Some b" "heap g b = Some v" for j b v
    proof (cases "j = k")
      case True
      with b a w ih False Cons.prems(2) show ?thesis by auto
    next
      case j: False
      then have "b \<noteq> a" using inj [OF b(1), of k] a by blast
      with b w ih j Cons.prems(2) show ?thesis by auto
    qed
    with ih w Cons.prems(2) show ?thesis by simp
  qed
qed auto



end
