(* ===== verification/Config_Properties.thy ===== *)
theory Config_Properties
  imports Pool_Properties
begin

text \<open>
  From a configuration to running pools: what validation accepts, and that an accepted
  configuration gives the pools it describes.
\<close>

subsection \<open>Validation\<close>

text \<open>Validating a supervisor section reports the error of the first invalid worker and
  nothing else: the loop over the workers equals looking up the first worker whose own validation
  fails.\<close>

lemma IsValid_sup_first_error:
  "IsValid_sup parse s =
     (case List.find (\<lambda>w. IsValid_w parse w \<noteq> None) (Workers s) of None \<Rightarrow> None | Some w \<Rightarrow> IsValid_w parse w)"
proof -
  have "valid_loop parse ws =
      (case List.find (\<lambda>w. IsValid_w parse w \<noteq> None) ws of None \<Rightarrow> None | Some w \<Rightarrow> IsValid_w parse w)" for ws
    by (induction ws) (auto split: option.splits)
  then show ?thesis by (simp add: IsValid_sup_def)
qed

lemma valid_loop_None_iff: "valid_loop parse ws = None \<longleftrightarrow> (\<forall>w\<in>set ws. IsValid_w parse w = None)"
  by (induction ws) (auto split: option.splits)

lemma new_pool_exists:
  assumes "IsValid_w (TmplParse lib) c = None" and "LookPath lib (wc_Exec c)"
  shows "\<exists>sw. NewWorkerPool lib False c = Inr sw"
proof (cases "wc_Server c")
  case None
  with assms show ?thesis
    by (auto simp: NewWorkerPool_def commandExists_def IsValid_w_None_iff Let_def split: option.splits)
next
  case (Some s)
  with assms show ?thesis
    by (auto simp: NewWorkerPool_def commandExists_def IsValid_w_None_iff IsValid_s_None_iff Let_def split: option.splits)
qed

text \<open>A valid worker section whose executable is found always gives a pool: none of the errors
  of \<open>NewWorkerPool\<close> is left, and the pool has the configured name, replicas, restart budget and
  signal timeout, and a proxy exactly when a server is configured.\<close>

lemma valid_worker_gives_pool:
  assumes "IsValid_w (TmplParse lib) c = None" and "LookPath lib (wc_Exec c)"
  shows "\<exists>sw. NewWorkerPool lib False c = Inr sw \<and> poolName sw = wc_Name c \<and> replicas sw = wc_Replicas c \<and>
     maxRestarts (startup sw) = MaxRestartsOrDefault (Some c) \<and>
     signalTimeout (startup sw) = SignalTimeoutOrDefault (Some c) \<and> (HasProxy sw \<longleftrightarrow> wc_Server c \<noteq> None)"
  using new_pool_exists [OF assms] NewWorkerPool_new by blast

lemma served_worker_valid: "IsValid_w (TmplParse sample_lib) served_worker = None"
  by (simp add: IsValid_w_None_iff IsValid_s_None_iff served_worker_def sample_worker_def sample_server_def sample_lib_def)



subsection \<open>Creating the pools\<close>

text \<open>A file system that creates, opens and writes what it is asked to.\<close>

definition fs_ok :: "golib \<Rightarrow> bool" where
  "fs_ok lib \<longleftrightarrow> (\<forall>p. FsMkdir lib p = None \<and> FsOpen lib p = None \<and> FsWrite lib p = None)"

lemma render_ok: "fs_ok lib \<Longrightarrow> \<exists>g'. render lib e c txt g = (None, g')"
  by (auto simp: fs_ok_def render_def getWriterOrDefault_def createEnvoyDir_def write_text_def Let_def split: option.splits)

lemma prepareProxy_ok:
  assumes "env_ok lib W sw" and "HasProxy sw" and "fs_ok lib"
  shows "\<exists>sw' g'. prepareProxy lib W opts sw g = Ret (None, sw', g')"
proof -
  obtain si where si: "sInfo sw = Some si" using assms(2) by (auto simp: HasProxy_def)
  obtain w where w: "factory W (proxy_config opts sw si) = Ret w" using assms(1) unfolding env_ok_def by blast
  obtain g1 where "RenderClustersToWriter lib (envoyGen si) \<lparr>PortRange = portRange sw si,
      co_LoadBalanceAlgorithm = loadBalanceAlgorithm si, co_HealthCheckPath = healthCheckPath si\<rparr> g = (None, g1)"
    unfolding render_ops using render_ok [OF assms(3)] by blast
  moreover obtain g2 where "RenderListenersToWriter lib (envoyGen si) \<lparr>lo_Port = proxyListenerPort si\<rparr> g1 = (None, g2)"
    unfolding render_ops using render_ok [OF assms(3)] by blast
  moreover obtain g3 where "RenderBootstrapConfig lib (envoyGen si) \<lparr>bo_Port = proxyAdminPort si\<rparr> g2 = (None, g3)"
    unfolding render_ops using render_ok [OF assms(3)] by blast
  ultimately show ?thesis using si w by (simp add: prepareProxy_def alloc_def)
qed

lemma new_pool_ok:
  assumes new: "NewWorkerPool lib False c = Inr sw" and env: "env_ok lib (real_ops G E R) sw" and fs: "fs_ok lib"
  shows "\<exists>sw' g'. PoolPrepareWorkers lib (real_ops G E R) opts sw g = Ret (None, sw', g') \<and>
     (HasProxy sw' \<longleftrightarrow> wc_Server c \<noteq> None)"
proof -
  let ?W = "real_ops G E R" and ?is = "[0..<nat (replicas sw)]"
  note n = NewWorkerPool_new [OF new]
  from env prepare_loop_total [of lib ?W "sw\<lparr>pstate := Prepared\<rparr>" opts ?is g] obtain e1 sw1 g1 where
    l: "prepare_loop lib ?W opts ?is (sw\<lparr>pstate := Prepared\<rparr>) g = Ret (e1, sw1, g1)" by auto
  have e1: "e1 = None" using real.prepare_loop_fresh_workers [OF l] n by simp
  have px: "HasProxy sw1 \<longleftrightarrow> wc_Server c \<noteq> None" using real.prepare_loop_fields [OF l] n by simp
  show ?thesis
  proof (cases "HasProxy sw1")
    case True
    have "env_ok lib ?W sw1" using real.prepare_loop_env [OF l] env by simp
    from prepareProxy_ok [OF this True fs] obtain sw' g' where
      p: "prepareProxy lib ?W \<lparr>Buffered = False, Streaming = False\<rparr> sw1 g1 = Ret (None, sw', g')" by blast
    have "HasProxy sw'" using real.prepareProxy_spec [OF p] True by (auto simp: installs_def)
    with l e1 p px True show ?thesis by (simp add: PoolPrepareWorkers_def HasProxy_def)
  next
    case False
    with l e1 px show ?thesis by (simp add: PoolPrepareWorkers_def HasProxy_def)
  qed
qed

definition processes :: "WorkerConfig \<Rightarrow> int" where
  "processes c = wc_Replicas c + (if wc_Server c \<noteq> None then 1 else 0)"

lemma create_loop_result:
  assumes fs: "fs_ok lib"
    and "\<And>c. c \<in> set ws \<Longrightarrow> \<exists>sw. NewWorkerPool lib False c = Inr sw \<and> env_ok lib (real_ops G E R) sw"
    and "distinct (keys ps)"
  shows "\<exists>ps' tot' err g'. create_loop lib (real_ops G E R) opts ws ps tot g = Ret ((ps', tot', err), g') \<and>
     (distinct (keys ps @ map wc_Name ws) \<longrightarrow>
        err = None \<and> keys ps' = keys ps @ map wc_Name ws \<and> tot' = tot + (\<Sum>c\<leftarrow>ws. processes c)) \<and>
     (\<not> distinct (keys ps @ map wc_Name ws) \<longrightarrow> (\<exists>e. err = Some e \<and> errors_Is e (SupervisorErr errDuplicateWorkerName)))"
  using assms(2,3)
proof (induction ws arbitrary: ps tot g)
  case (Cons c ws)
  show ?case
  proof (cases "wc_Name c \<in> set (keys ps)")
    case True
    then show ?thesis by (simp add: Let_def)
  next
    case False
    from Cons.prems(1) [of c] obtain sw where sw: "NewWorkerPool lib False c = Inr sw" "env_ok lib (real_ops G E R) sw" by auto
    from new_pool_ok [OF sw fs, of opts g] obtain sw' g' where
      p: "PoolPrepareWorkers lib (real_ops G E R) opts sw g = Ret (None, sw', g')" "HasProxy sw' \<longleftrightarrow> wc_Server c \<noteq> None" by blast
    let ?px = "if HasProxy sw' then 1 else 0 :: int"
    let ?n = "wc_Replicas c + ?px" and ?g = "if HasProxy sw' then upd_mets SetProxyModeGauge g' else g'"
    let ?ps = "AList.update (wc_Name c) \<lparr>pi_pool = sw', runningProcesses = ?n, totalProcesses = ?n\<rparr> ps"
    have k: "keys ?ps = keys ps @ [wc_Name c]" using False by (rule keys_update_notin)
    have eq: "create_loop lib (real_ops G E R) opts (c # ws) ps tot g =
        create_loop lib (real_ops G E R) opts ws ?ps (tot + wc_Replicas c + ?px) ?g"
      using False sw(1) p(1) by (simp add: Let_def)
    have prem: "\<And>d. d \<in> set ws \<Longrightarrow> \<exists>sw. NewWorkerPool lib False d = Inr sw \<and> env_ok lib (real_ops G E R) sw"
      and dps: "distinct (keys ?ps)" using Cons.prems by simp_all
    from Cons.IH [OF prem dps, of "tot + wc_Replicas c + ?px" ?g] obtain ps' tot' err h where
      r: "create_loop lib (real_ops G E R) opts ws ?ps (tot + wc_Replicas c + ?px) ?g = Ret ((ps', tot', err), h)"
      "distinct (keys ?ps @ map wc_Name ws) \<longrightarrow> err = None \<and> keys ps' = keys ?ps @ map wc_Name ws \<and>
         tot' = tot + wc_Replicas c + ?px + (\<Sum>c\<leftarrow>ws. processes c)"
      "\<not> distinct (keys ?ps @ map wc_Name ws) \<longrightarrow> (\<exists>e. err = Some e \<and> errors_Is e (SupervisorErr errDuplicateWorkerName))"
      by blast
    have "tot + wc_Replicas c + ?px + (\<Sum>c\<leftarrow>ws. processes c) = tot + (\<Sum>c\<leftarrow>c # ws. processes c)"
      using p(2) by (simp add: processes_def)
    with r show ?thesis unfolding eq k by simp
  qed
qed simp

lemma pools_created:
  assumes "fs_ok lib"
    and "\<forall>c\<in>set (Workers (sconfig s)). IsValid_w (TmplParse lib) c = None \<and> LookPath lib (wc_Exec c) \<and>
           (\<forall>sw. NewWorkerPool lib False c = Inr sw \<longrightarrow> env_ok lib (real_ops G E R) sw)"
  shows "\<exists>ps tot err g'. createAndPreparePools lib (real_ops G E R) s g = Ret ((ps, tot, err), g') \<and>
     (distinct (map wc_Name (Workers (sconfig s))) \<longrightarrow> err = None \<and> keys ps = map wc_Name (Workers (sconfig s)) \<and>
        tot = (\<Sum>c\<leftarrow>Workers (sconfig s). wc_Replicas c + (if wc_Server c \<noteq> None then 1 else 0))) \<and>
     (\<not> distinct (map wc_Name (Workers (sconfig s))) \<longrightarrow>
        (\<exists>e. err = Some e \<and> errors_Is e (SupervisorErr errDuplicateWorkerName)))"
proof -
  have "\<exists>sw. NewWorkerPool lib False c = Inr sw \<and> env_ok lib (real_ops G E R) sw" if "c \<in> set (Workers (sconfig s))" for c
  proof -
    from assms(2) that have v: "IsValid_w (TmplParse lib) c = None" "LookPath lib (wc_Exec c)"
      and env: "\<And>sw. NewWorkerPool lib False c = Inr sw \<Longrightarrow> env_ok lib (real_ops G E R) sw" by simp_all
    from new_pool_exists [OF v] env show ?thesis by blast
  qed
  from create_loop_result [OF assms(1) this, where ps = "[]" and opts = "cmdOpts s" and tot = 0 and g = g] show ?thesis
    by (simp add: createAndPreparePools_def processes_def)
qed

text \<open>C20: A valid configuration starts: when every worker section is valid, its executable is found,
  and the calls the pools make succeed, creating and preparing the pools succeeds exactly when the
  names are pairwise different, and then there is one pool per section, in order, and the number of
  processes is the replicas plus one proxy per server. When two sections share a name the error is
  \<open>errDuplicateWorkerName\<close>.\<close>

theorem valid_config_creates_pools:
  assumes "fs_ok lib"
    and "\<forall>c\<in>set (Workers (sconfig s)). IsValid_w (TmplParse lib) c = None \<and> LookPath lib (wc_Exec c) \<and>
           (\<forall>sw. NewWorkerPool lib False c = Inr sw \<longrightarrow> env_ok lib (real_ops G E R) sw)"
  shows "\<exists>ps tot err g'. createAndPreparePools lib (real_ops G E R) s g = Ret ((ps, tot, err), g') \<and>
     (distinct (map wc_Name (Workers (sconfig s))) \<longrightarrow> err = None \<and> keys ps = map wc_Name (Workers (sconfig s)) \<and>
        tot = (\<Sum>c\<leftarrow>Workers (sconfig s). wc_Replicas c + (if wc_Server c \<noteq> None then 1 else 0))) \<and>
     (\<not> distinct (map wc_Name (Workers (sconfig s))) \<longrightarrow>
        (\<exists>e. err = Some e \<and> errors_Is e (SupervisorErr errDuplicateWorkerName)))"
  using pools_created [OF assms] .

lemma served_env_ok:
  "NewWorkerPool sample_lib False served_worker = Inr sw \<Longrightarrow> env_ok sample_lib (real_ops sample_cmd [] (\<lambda>_ _. Registered)) sw"
  by (rule sample_env_ok)
    (auto simp: NewWorkerPool_def served_worker_def sample_worker_def sample_lib_def commandExists_def Let_def
       sample_server_def)

theorem valid_config_creates_pools_witness:
  "\<exists>ps g'. createAndPreparePools sample_lib (real_ops sample_cmd [] (\<lambda>_ _. Registered))
     \<lparr>terminating = False, pools = [], sconfig = \<lparr>Workers = [served_worker]\<rparr>, cmdOpts = \<lparr>Buffered = False, Streaming = True\<rparr>\<rparr>
     empty_world = Ret ((ps, 3, None), g') \<and> keys ps = [''p'']"
proof -
  have "fs_ok sample_lib" by (simp add: fs_ok_def sample_lib_def)
  moreover have "LookPath sample_lib (wc_Exec served_worker)" by (simp add: sample_lib_def)
  moreover have "wc_Name served_worker = ''p''" "wc_Replicas served_worker = 2" "wc_Server served_worker \<noteq> None"
    by (simp_all add: served_worker_def sample_worker_def)
  ultimately show ?thesis
    using valid_config_creates_pools [of sample_lib "\<lparr>terminating = False, pools = [], sconfig = \<lparr>Workers = [served_worker]\<rparr>,
      cmdOpts = \<lparr>Buffered = False, Streaming = True\<rparr>\<rparr>" sample_cmd "[]" "\<lambda>_ _. Registered" empty_world]
      served_worker_valid served_env_ok by auto
qed

end
