(* ===== verification/Envoy_Properties.thy ===== *)
theory Envoy_Properties
  imports Config_Properties
begin

text \<open>
  The proxy's configuration: reading the endpoints back from the rendered cluster file, and
  that the bootstrap file names the files the pool has written.
\<close>

subsection \<open>Lines\<close>

abbreviation nl :: char where
  "nl \<equiv> CHR 0x0A"

lemma split_on_nonempty [simp]: "split_on c s \<noteq> []"
  by (induction s) (auto split: list.splits)

lemma split_on_append: "split_on c (s @ c # t) = split_on c s @ split_on c t"
proof (induction s)
  case (Cons x s)
  then show ?case by (cases "split_on c s") (auto split: list.splits)
qed simp

lemma split_on_plain: "c \<notin> set s \<Longrightarrow> split_on c s = [s]"
  by (induction s) auto

lemma split_on_unlines: "\<forall>l\<in>set ls. nl \<notin> set l \<Longrightarrow> split_on nl (unlines ls) = ls @ [[]]"
proof (induction ls)
  case (Cons l ls)
  have "unlines (l # ls) = l @ nl # unlines ls" by (simp add: unlines_def)
  with Cons show ?case by (simp add: split_on_append split_on_plain)
qed (simp add: unlines_def)

text \<open>A reader for the cluster file: the numbers of its \<open>port_value\<close> lines.\<close>

definition strip_prefix :: "string \<Rightarrow> string \<Rightarrow> string option" where
  "strip_prefix pre s = (if take (length pre) s = pre then Some (drop (length pre) s) else None)"

definition port_value_prefix :: string where
  "port_value_prefix = ''                    port_value: ''"

definition read_ports :: "string \<Rightarrow> nat list" where
  "read_ports txt = map readNat (List.map_filter (strip_prefix port_value_prefix) (split_on nl txt))"

lemma strip_prefix_append [simp]: "strip_prefix pre (pre @ s) = Some s"
  by (simp add: strip_prefix_def)

lemma map_filter_append [simp]: "List.map_filter f (xs @ ys) = List.map_filter f xs @ List.map_filter f ys"
  by (induction xs) (auto simp: List.map_filter_simps split: option.split)

lemma show_u64_no_nl: "nl \<notin> set (show_u64 p)"
  using set_showNat [of "unat p"] by (auto simp: show_u64_def)

lemma exec_lines_no_nl:
  assumes "\<And>f. nl \<notin> set (fld f)"
    and "\<And>x. x \<in> set t \<Longrightarrow> (case x of L s \<Rightarrow> nl \<notin> set s | LF a f b \<Rightarrow> nl \<notin> set a \<and> nl \<notin> set b
           | LRange body pre \<Rightarrow> (\<forall>s\<in>set body. nl \<notin> set s) \<and> nl \<notin> set pre)"
  shows "\<forall>l\<in>set (exec_lines fld ps t). nl \<notin> set l"
proof -
  have "nl \<notin> set l" if "x \<in> set t" "l \<in> set (exec_line fld ps x)" for x l
    using assms(2) [OF that(1)] that(2) assms(1) show_u64_no_nl by (cases x) auto
  then show ?thesis by (auto simp: exec_lines_def)
qed

lemma read_range:
  "List.map_filter (strip_prefix port_value_prefix)
     (exec_line fld ps (LRange [''            - endpoint:'', ''                address:'',
        ''                  socket_address:'', ''                    address: 0.0.0.0''] port_value_prefix)) =
   map show_u64 ps"
  by (induction ps)
    (auto simp: List.map_filter_simps strip_prefix_def port_value_prefix_def)

lemma cluster_lines_no_nl:
  assumes "nl \<notin> set (co_LoadBalanceAlgorithm opt)" and "nl \<notin> set (co_HealthCheckPath opt)"
  shows "\<forall>l\<in>set (exec_lines (cluster_field opt) ps envoyClusterConfigTemplate). nl \<notin> set l"
  by (rule exec_lines_no_nl) (use assms in \<open>auto simp: cluster_field_def envoyClusterConfigTemplate_def\<close>)

lemma cluster_template_split:
  "\<exists>pre. envoyClusterConfigTemplate = pre @ [LRange [''            - endpoint:'', ''                address:'',
        ''                  socket_address:'', ''                    address: 0.0.0.0''] port_value_prefix] \<and>
     List.map_filter (strip_prefix port_value_prefix) (exec_lines fld ps pre) = []"
  by (rule exI [of _ "butlast envoyClusterConfigTemplate"])
    (simp add: envoyClusterConfigTemplate_def exec_lines_def List.map_filter_simps strip_prefix_def port_value_prefix_def)

text \<open>C21: The endpoints survive the round trip through the cluster file: reading the
  \<open>port_value\<close> lines of the rendered file gives back exactly the ports it was rendered from, in
  order, for every list of ports and every algorithm name and health-check path without a line
  break.\<close>

theorem cluster_ports_roundtrip:
  assumes "nl \<notin> set (co_LoadBalanceAlgorithm opt)" and "nl \<notin> set (co_HealthCheckPath opt)"
  shows "read_ports (cluster_text opt) = map unat (PortRange opt)"
proof -
  obtain pre where pre: "envoyClusterConfigTemplate = pre @ [LRange [''            - endpoint:'', ''                address:'',
        ''                  socket_address:'', ''                    address: 0.0.0.0''] port_value_prefix]"
    and none: "List.map_filter (strip_prefix port_value_prefix) (exec_lines (cluster_field opt) (PortRange opt) pre) = []"
    using cluster_template_split by blast
  have e: "strip_prefix port_value_prefix [] = None" by (simp add: strip_prefix_def port_value_prefix_def)
  have "read_ports (cluster_text opt) = map readNat (List.map_filter (strip_prefix port_value_prefix)
      (exec_lines (cluster_field opt) (PortRange opt) envoyClusterConfigTemplate))"
    unfolding read_ports_def cluster_text_def split_on_unlines [OF cluster_lines_no_nl [OF assms]] by (simp add: e List.map_filter_simps)
  also have "\<dots> = map readNat (map show_u64 (PortRange opt))"
    using none read_range [of "cluster_field opt" "PortRange opt"] by (simp add: pre exec_lines_def)
  finally show ?thesis by (simp add: show_u64_def)
qed

theorem cluster_ports_roundtrip_witness:
  "read_ports (cluster_text \<lparr>PortRange = [9000, 9001], co_LoadBalanceAlgorithm = ''RANDOM'', co_HealthCheckPath = ''/health''\<rparr>) = [9000, 9001]"
  using cluster_ports_roundtrip [of "\<lparr>PortRange = [9000, 9001], co_LoadBalanceAlgorithm = ''RANDOM'', co_HealthCheckPath = ''/health''\<rparr>"]
  by simp

subsection \<open>The files of a pool\<close>

lemma clean_elems_last:
  assumes "f \<noteq> ''''" "f \<noteq> ''.''" "f \<noteq> ''..''"
  shows "\<exists>es. clean_elems r st (xs @ [f]) = es @ [f]"
  by (induction r st xs rule: clean_elems.induct) (use assms in auto)

lemma join_with_last: "\<exists>q. join_with s (es @ [f]) = q @ f"
proof (induction es)
  case (Cons e es)
  then obtain q where "join_with s (es @ [f]) = q @ f" by blast
  then have "join_with s ((e # es) @ [f]) = (e @ s @ q) @ f" by (cases es) simp_all
  then show ?case by blast
qed simp

lemma path_Clean_last:
  assumes f: "f \<noteq> ''''" "f \<noteq> ''.''" "f \<noteq> ''..''" "CHR ''/'' \<notin> set f" and p: "p = [] \<or> last p = CHR ''/''"
  shows "\<exists>q. path_Clean (p @ f) = q @ f"
proof -
  have "\<exists>xs. split_on (CHR ''/'') (p @ f) = xs @ [f]"
  proof (cases "p = []")
    case False
    then have "p = butlast p @ [CHR ''/'']" using p by (metis append_butlast_last_id)
    then have "p @ f = butlast p @ CHR ''/'' # f" by (metis append.assoc append_Cons append_Nil)
    then show ?thesis by (simp only: split_on_append split_on_plain [OF f(4)]) blast
  qed (simp add: split_on_plain [OF f(4)])
  then obtain xs where xs: "split_on (CHR ''/'') (p @ f) = xs @ [f]" by blast
  let ?r = "p @ f \<noteq> [] \<and> hd (p @ f) = CHR ''/''"
  obtain es where es: "clean_elems ?r [] (xs @ [f]) = es @ [f]" using clean_elems_last [OF f(1-3)] by blast
  obtain q where q: "join_with ''/'' (es @ [f]) = q @ f" using join_with_last by blast
  have "path_Clean (p @ f) = (if ?r then CHR ''/'' # q @ f else q @ f)"
    unfolding path_Clean_def Let_def xs es q using f(1) by simp
  then show ?thesis by (metis append_Cons)
qed

lemma path_Join_last:
  assumes f: "f \<noteq> ''''" "f \<noteq> ''.''" "f \<noteq> ''..''" "CHR ''/'' \<notin> set f"
  shows "\<exists>q. path_Join [p, f] = q @ f"
proof (cases "p = []")
  case True
  with path_Clean_last [OF f, of "[]"] f(1) show ?thesis by (simp add: path_Join_def Let_def)
next
  case False
  with path_Clean_last [OF f, of "p @ ''/''"] f(1) show ?thesis by (simp add: path_Join_def Let_def)
qed

lemma config_paths_distinct:
  "path_Join [p, envoyClusterConfig] \<noteq> path_Join [p, envoyListenersConfig]"
  "path_Join [p, envoyBootstrapConfig] \<noteq> path_Join [p, envoyClusterConfig]"
  "path_Join [p, envoyBootstrapConfig] \<noteq> path_Join [p, envoyListenersConfig]"
proof -
  obtain a b c where abc: "path_Join [p, envoyClusterConfig] = a @ ''clusters.yaml''"
    "path_Join [p, envoyListenersConfig] = b @ ''listeners.yaml''"
    "path_Join [p, envoyBootstrapConfig] = c @ ''envoy_starting_config.yaml''"
    unfolding envoyClusterConfig_def envoyListenersConfig_def envoyBootstrapConfig_def
    using path_Join_last [of "''clusters.yaml''" p] path_Join_last [of "''listeners.yaml''" p]
      path_Join_last [of "''envoy_starting_config.yaml''" p] by auto
  show "path_Join [p, envoyClusterConfig] \<noteq> path_Join [p, envoyListenersConfig]"
    "path_Join [p, envoyBootstrapConfig] \<noteq> path_Join [p, envoyClusterConfig]"
    "path_Join [p, envoyBootstrapConfig] \<noteq> path_Join [p, envoyListenersConfig]"
    unfolding abc by (auto dest: arg_cong [where f = rev])
qed

lemma render_writes:
  assumes "fs_ok lib" and "eg_wr e = None"
  shows "\<exists>g'. render lib e c txt g = (None, g') \<and>
     map_of (files g') = (map_of (files g))(path_Join [pathPrefix e, config_file c] \<mapsto> txt)"
  using assms
  by (auto simp: fs_ok_def render_def getWriterOrDefault_def createEnvoyDir_def write_text_def Let_def split: option.splits)

text \<open>C22: The proxy starts from consistent files: when the file system answers, preparing the proxy
  writes the cluster file with one endpoint per replica on the ports the pool hands to its workers,
  the listener file, and a bootstrap file that names exactly those two files; later writes do not
  overwrite earlier ones, whatever the directory is.\<close>

theorem prepareProxy_files:
  assumes si: "sInfo sw = Some si" and wr: "eg_wr (envoyGen si) = None" and fs: "fs_ok lib" and env: "env_ok lib W sw"
    and dir: "dir = pathPrefix (envoyGen si)"
  shows "\<exists>sw' g'. prepareProxy lib W opts sw g = Ret (None, sw', g') \<and>
     map_of (files g') (path_Join [dir, ''clusters.yaml'']) =
       Some (cluster_text \<lparr>PortRange = map (\<lambda>i. startPort si + of_nat i) [0..<nat (replicas sw)],
               co_LoadBalanceAlgorithm = loadBalanceAlgorithm si, co_HealthCheckPath = healthCheckPath si\<rparr>) \<and>
     map_of (files g') (path_Join [dir, ''listeners.yaml'']) = Some (listener_text \<lparr>lo_Port = proxyListenerPort si\<rparr>) \<and>
     map_of (files g') (path_Join [dir, ''envoy_starting_config.yaml'']) =
       Some (bootstrap_text \<lparr>CdsPath = path_Join [dir, ''clusters.yaml''], LdsPath = path_Join [dir, ''listeners.yaml''],
               bi_Port = proxyAdminPort si\<rparr>)"
proof -
  let ?c = "\<lparr>PortRange = portRange sw si, co_LoadBalanceAlgorithm = loadBalanceAlgorithm si,
              co_HealthCheckPath = healthCheckPath si\<rparr>"
  obtain w where w: "factory W (proxy_config opts sw si) = Ret w" using env unfolding env_ok_def by blast
  obtain g1 where g1: "RenderClustersToWriter lib (envoyGen si) ?c g = (None, g1)"
    "map_of (files g1) = (map_of (files g))(path_Join [dir, envoyClusterConfig] \<mapsto> cluster_text ?c)"
    unfolding render_ops dir using render_writes [OF fs wr, of Cluster] by (auto simp: config_file_def)
  obtain g2 where g2: "RenderListenersToWriter lib (envoyGen si) \<lparr>lo_Port = proxyListenerPort si\<rparr> g1 = (None, g2)"
    "map_of (files g2) = (map_of (files g1))(path_Join [dir, envoyListenersConfig] \<mapsto> listener_text \<lparr>lo_Port = proxyListenerPort si\<rparr>)"
    unfolding render_ops dir using render_writes [OF fs wr, of Listener] by (auto simp: config_file_def)
  obtain g3 where g3: "RenderBootstrapConfig lib (envoyGen si) \<lparr>bo_Port = proxyAdminPort si\<rparr> g2 = (None, g3)"
    "map_of (files g3) = (map_of (files g2))(path_Join [dir, envoyBootstrapConfig] \<mapsto>
       bootstrap_text \<lparr>CdsPath = path_Join [dir, envoyClusterConfig], LdsPath = path_Join [dir, envoyListenersConfig],
         bi_Port = proxyAdminPort si\<rparr>)"
    unfolding render_ops dir using render_writes [OF fs wr, of Bootstrap] by (auto simp: config_file_def)
  obtain sw' where "prepareProxy lib W opts sw g = Ret (None, sw', spawn (StreamLogsLoop (nextAddr g3)) (snd (alloc w g3)))"
    using si w g1(1) g2(1) g3(1) by (simp add: prepareProxy_def alloc_def)
  moreover have "files (spawn (StreamLogsLoop (nextAddr g3)) (snd (alloc w g3))) = files g3" by (simp add: alloc_def)
  ultimately show ?thesis
    using config_paths_distinct [of dir]
    by (auto simp: g3(2) g2(2) g1(2) portRange_def envoyClusterConfig_def envoyListenersConfig_def envoyBootstrapConfig_def)
qed

theorem prepareProxy_files_witness:
  "\<exists>sw si sw' g'. NewWorkerPool sample_lib False served_worker = Inr sw \<and> sInfo sw = Some si \<and>
     prepareProxy sample_lib (real_ops sample_cmd [] (\<lambda>_ _. Registered)) \<lparr>Buffered = False, Streaming = False\<rparr> sw empty_world = Ret (None, sw', g') \<and>
     map_of (files g') (path_Join [''./envoy'', ''listeners.yaml'']) = Some (listener_text \<lparr>lo_Port = 4\<rparr>)"
proof -
  obtain sw si where sw: "NewWorkerPool sample_lib False served_worker = Inr sw" "sInfo sw = Some si" "eg_wr (envoyGen si) = None"
    "pathPrefix (envoyGen si) = ''./envoy''" "proxyListenerPort si = 4"
    by (simp add: NewWorkerPool_def served_worker_def sample_worker_def sample_server_def sample_lib_def commandExists_def
        new_serverInfo_def ProxyPathPrefixOrDefault_def ProxyListenerPortOrDefault_def Let_def)
  have "fs_ok sample_lib" by (simp add: fs_ok_def sample_lib_def)
  from prepareProxy_files [OF sw(2,3) this served_env_ok [OF sw(1)] sw(4) [symmetric],
      of "\<lparr>Buffered = False, Streaming = False\<rparr>" empty_world] sw(1,2,5) show ?thesis by auto
qed

end
