(* ===== verification/System_Invariant.thy ===== *)
theory System_Invariant
  imports System
begin

text \<open>
  The invariant of the whole program: every process that has been started and whose end the
  supervisor has not counted yet has exactly one goroutine that will report it, and
  \<open>runningProcesses\<close> is the number of those. The state of the pools enters only through
  their \<open>shape\<close>: the workers of a pool and its count.
\<close>

type_synonym shape = "string \<Rightarrow> ((string \<times> addr) list \<times> int) option"

definition shape_of :: "WorkerPool Supervisor \<Rightarrow> shape" where
  "shape_of s n = map_option (\<lambda>i. (workers (pi_pool i), runningProcesses i)) (map_of (pools s) n)"

definition cur :: "shape \<Rightarrow> string \<Rightarrow> string \<Rightarrow> addr \<Rightarrow> bool" where
  "cur sh n k a \<longleftrightarrow> (\<exists>ws r. sh n = Some (ws, r) \<and> map_of ws k = Some a)"

definition known :: "shape \<Rightarrow> string \<Rightarrow> string \<Rightarrow> bool" where
  "known sh n k \<longleftrightarrow> (\<exists>ws r. sh n = Some (ws, r) \<and> k \<in> set (keys ws))"

fun ends :: "string \<Rightarrow> string \<Rightarrow> goroutine \<Rightarrow> bool" where
  "ends n k (SendEvent e) \<longleftrightarrow> ev_Type e = ProcessEnd \<and> ev_Pool e = n \<and> ev_Id e = k"
| "ends n k _ \<longleftrightarrow> False"

text \<open>How many goroutines are going to report the end of the process of \<open>k\<close> in pool \<open>n\<close>.\<close>

definition tok :: "goroutine list \<Rightarrow> string \<Rightarrow> string \<Rightarrow> addr \<Rightarrow> nat" where
  "tok gs n k a = length (filter (\<lambda>x. x = WatchExit a \<or> ends n k x) gs)"

definition lim_ok :: "'c realProcessWorker \<Rightarrow> bool" where
  "lim_ok w \<longleftrightarrow> rw_memory w = None \<and>
     (\<forall>t. rw_lifespan w = Some t \<longrightarrow> tl_workerName t = rw_name w \<and> tl_workerPool t = rw_poolName w)"

fun go_ok :: "shape \<Rightarrow> 'c sys_world \<Rightarrow> goroutine \<Rightarrow> bool" where
  "go_ok sh g (WatchExit a) \<longleftrightarrow> (\<exists>n k. cur sh n k a)"
| "go_ok sh g (SendEvent e) \<longleftrightarrow> known sh (ev_Pool e) (ev_Id e) \<and> (ev_Type e = ProcessEnd \<longrightarrow> ev_Cmd e \<noteq> None)"
| "go_ok sh g (SendLimitEvent e) \<longleftrightarrow> known sh (ev_Pool e) (ev_Id e) \<and> ev_Type e \<noteq> ProcessEnd"
| "go_ok sh g (TermTimer a) \<longleftrightarrow> heap g a \<noteq> None"
| "go_ok sh g (RunMonitor l a) \<longleftrightarrow> heap g a \<noteq> None"
| "go_ok sh g (LimitTimer l a) \<longleftrightarrow> heap g a \<noteq> None"
| "go_ok sh g (StreamLogsLoop a) \<longleftrightarrow> True"
| "go_ok sh g (ExitTimer a) \<longleftrightarrow> False"

definition finished :: "'c gocmd \<Rightarrow> 'c sys_world \<Rightarrow> addr \<Rightarrow> bool" where
  "finished G g a \<longleftrightarrow> (\<exists>w. heap g a = Some w \<and> cmd_done G (rw_cmd w))"

definition live_count :: "goroutine list \<Rightarrow> string \<Rightarrow> (string \<times> addr) list \<Rightarrow> int" where
  "live_count gs n ws = (\<Sum>ka\<leftarrow>ws. int (tok gs n (fst ka) (snd ka)))"

definition heap_ok :: "shape \<Rightarrow> 'c sys_world \<Rightarrow> bool" where
  "heap_ok sh g \<longleftrightarrow>
     (\<forall>a w. heap g a = Some w \<longrightarrow> a < nextAddr g \<and> known sh (rw_poolName w) (rw_name w) \<and> lim_ok w)"

definition owners_ok :: "shape \<Rightarrow> 'c sys_world \<Rightarrow> bool" where
  "owners_ok sh g \<longleftrightarrow>
     (\<forall>n ws r. sh n = Some (ws, r) \<longrightarrow> distinct (keys ws)) \<and>
     (\<forall>n k a. cur sh n k a \<longrightarrow> (\<exists>w. heap g a = Some w \<and> rw_name w = k \<and> rw_poolName w = n))"

text \<open>\<open>U\<close> are the workers nobody watches: not started yet, or their end is being handled.\<close>

definition watch_ok ::
  "'c gocmd \<Rightarrow> (string \<times> string) set \<Rightarrow> 'c sys_world \<Rightarrow> string \<Rightarrow> string \<Rightarrow> addr \<Rightarrow> bool" where
  "watch_ok G U g n k a \<longleftrightarrow>
     (if (n, k) \<in> U then tok (gos g) n k a = 0
      else tok (gos g) n k a \<le> 1 \<and> (WatchExit a \<notin> set (gos g) \<longrightarrow> finished G g a))"

definition live_ok :: "'c gocmd \<Rightarrow> (string \<times> string) set \<Rightarrow> shape \<Rightarrow> 'c sys_world \<Rightarrow> bool" where
  "live_ok G U sh g \<longleftrightarrow> (\<forall>n k a. cur sh n k a \<longrightarrow> watch_ok G U g n k a)"

definition counts_ok :: "(string \<Rightarrow> int) \<Rightarrow> shape \<Rightarrow> 'c sys_world \<Rightarrow> bool" where
  "counts_ok d sh g \<longleftrightarrow> (\<forall>n ws r. sh n = Some (ws, r) \<longrightarrow> r = live_count (gos g) n ws + d n)"

text \<open>\<open>d\<close> counts the workers of a pool in \<open>U\<close> that \<open>runningProcesses\<close> still includes.\<close>

definition core ::
  "'c gocmd \<Rightarrow> (string \<times> string) set \<Rightarrow> (string \<Rightarrow> int) \<Rightarrow> shape \<Rightarrow> 'c sys_world \<Rightarrow> bool" where
  "core G U d sh g \<longleftrightarrow>
     heap_ok sh g \<and> owners_ok sh g \<and> (\<forall>x\<in>set (gos g). go_ok sh g x) \<and> live_ok G U sh g \<and> counts_ok d sh g"

lemma coreD:
  assumes "core G U d sh g"
  shows "heap_ok sh g" "owners_ok sh g" "x \<in> set (gos g) \<Longrightarrow> go_ok sh g x"
    "cur sh n k a \<Longrightarrow> watch_ok G U g n k a" "sh n = Some (ws, r) \<Longrightarrow> r = live_count (gos g) n ws + d n"
  using assms by (simp_all add: core_def live_ok_def counts_ok_def)

subsection \<open>Tokens\<close>

lemma tok_append [simp]: "tok (gs @ gs') n k a = tok gs n k a + tok gs' n k a"
  by (simp add: tok_def)

lemma tok_Nil [simp]: "tok [] n k a = 0"
  by (simp add: tok_def)

lemma tok_Cons [simp]: "tok (x # gs) n k a = (if x = WatchExit a \<or> ends n k x then 1 else 0) + tok gs n k a"
  by (simp add: tok_def)

lemma tok_WatchExit: "WatchExit a \<in> set gs \<Longrightarrow> 1 \<le> tok gs n k a"
  by (induction gs) auto

lemma live_count_cong:
  "(\<And>k a. (k, a) \<in> set ws \<Longrightarrow> tok gs' n k a = tok gs n k a) \<Longrightarrow> live_count gs' n ws = live_count gs n ws"
  unfolding live_count_def by (rule arg_cong [where f = sum_list]) (auto intro: map_cong)

lemma sum_no_key: "k \<notin> set (keys ws) \<Longrightarrow> (\<Sum>ka\<leftarrow>ws. if fst ka = k then 1 else 0 :: int) = 0"
  by (induction ws) auto

lemma sum_one_key:
  "distinct (keys ws) \<Longrightarrow> k \<in> set (keys ws) \<Longrightarrow> (\<Sum>ka\<leftarrow>ws. if fst ka = k then 1 else 0 :: int) = 1"
  by (induction ws) (auto simp: sum_no_key)

lemma sum_update_key:
  fixes f :: "'k \<times> 'v \<Rightarrow> int"
  assumes "distinct (keys ws)" and "map_of ws k = Some a"
  shows "(\<Sum>ka\<leftarrow>AList.update k b ws. f ka) = (\<Sum>ka\<leftarrow>ws. f ka) - f (k, a) + f (k, b)"
  using assms by (induction ws) (auto simp: keys_def)

lemma cur_known: "cur sh n k a \<Longrightarrow> known sh n k"
  by (auto simp: cur_def known_def map_of_in_keys)

lemma cur_fun: "cur sh n k a \<Longrightarrow> cur sh n k b \<Longrightarrow> a = b"
  by (auto simp: cur_def)

lemma known_cur: "known sh n k \<Longrightarrow> \<exists>a. cur sh n k a"
  by (auto simp: cur_def known_def in_keys_map_of)

lemma owners_inj: "owners_ok sh g \<Longrightarrow> cur sh n k a \<Longrightarrow> cur sh n' k' a \<Longrightarrow> n = n' \<and> k = k'"
  unfolding owners_ok_def by (metis option.inject)

lemma owners_distinct: "owners_ok sh g \<Longrightarrow> sh n = Some (ws, r) \<Longrightarrow> distinct (keys ws)"
  unfolding owners_ok_def by blast

lemma cur_of_mem: "owners_ok sh g \<Longrightarrow> sh n = Some (ws, r) \<Longrightarrow> (k, a) \<in> set ws \<Longrightarrow> cur sh n k a"
  by (drule (1) owners_distinct) (auto simp: cur_def keys_def)

lemma owners_ok_upd:
  assumes ok: "owners_ok sh g" and w: "heap g a = Some w" and w': "rw_name w' = rw_name w" "rw_poolName w' = rw_poolName w"
    and g': "heap g' = (heap g)(a \<mapsto> w')"
  shows "owners_ok sh g'"
proof -
  have "\<exists>v. heap g' b = Some v \<and> rw_name v = k \<and> rw_poolName v = n" if "cur sh n k b" for n k b
  proof -
    from ok that obtain v where "heap g b = Some v" "rw_name v = k" "rw_poolName v = n" unfolding owners_ok_def by blast
    with w w' g' show ?thesis by (cases "b = a") auto
  qed
  with ok show ?thesis by (simp add: owners_ok_def)
qed

lemma go_ok_mono:
  assumes "go_ok sh g x" and "\<And>a. heap g a \<noteq> None \<Longrightarrow> heap g' a \<noteq> None"
  shows "go_ok sh g' x"
  using assms(1) by (cases x) (simp_all add: assms(2) del: not_None_eq)

subsection \<open>Changes that leave the tokens alone\<close>

definition soft :: "'c gocmd \<Rightarrow> 'c realProcessWorker \<Rightarrow> 'c realProcessWorker \<Rightarrow> bool" where
  "soft G w w' \<longleftrightarrow> rw_name w' = rw_name w \<and> rw_poolName w' = rw_poolName w \<and> (lim_ok w \<longrightarrow> lim_ok w') \<and>
     (cmd_done G (rw_cmd w) \<longrightarrow> cmd_done G (rw_cmd w'))"

fun calm_go :: "'c sys_world \<Rightarrow> goroutine \<Rightarrow> bool" where
  "calm_go g (TermTimer a) \<longleftrightarrow> heap g a \<noteq> None"
| "calm_go g (LimitTimer l a) \<longleftrightarrow> heap g a \<noteq> None"
| "calm_go g (SendEvent e) \<longleftrightarrow> ev_Type e \<noteq> ProcessEnd \<and>
     (\<exists>a w. heap g a = Some w \<and> ev_Id e = rw_name w \<and> ev_Pool e = rw_poolName w)"
| "calm_go g (SendLimitEvent e) \<longleftrightarrow> ev_Type e \<noteq> ProcessEnd \<and>
     (\<exists>a w. heap g a = Some w \<and> ev_Id e = rw_name w \<and> ev_Pool e = rw_poolName w)"
| "calm_go g _ \<longleftrightarrow> False"

text \<open>
  \<open>calm\<close>: no worker is created or forgotten, workers change softly, and the goroutines
  are the old ones without some that report no end, plus new ones that report no end.
\<close>

definition calm :: "'c gocmd \<Rightarrow> 'c sys_world \<Rightarrow> 'c sys_world \<Rightarrow> bool" where
  "calm G g g' \<longleftrightarrow>
     nextAddr g' = nextAddr g \<and>
     (\<forall>a. rel_option (soft G) (heap g a) (heap g' a)) \<and>
     (\<forall>n k a. tok (gos g') n k a = tok (gos g) n k a) \<and>
     (\<forall>a. WatchExit a \<in> set (gos g) \<longrightarrow> WatchExit a \<in> set (gos g')) \<and>
     (\<forall>x\<in>set (gos g'). x \<in> set (gos g) \<or> calm_go g x)"

lemma soft_refl [simp]: "soft G w w"
  by (simp add: soft_def)

lemma soft_trans: "soft G w w1 \<Longrightarrow> soft G w1 w2 \<Longrightarrow> soft G w w2"
  by (simp add: soft_def)

lemma calm_heapD:
  assumes "calm G g g'" and "heap g' a = Some w'"
  shows "\<exists>w. heap g a = Some w \<and> soft G w w'"
  using assms unfolding calm_def by (metis option_rel_Some2)

lemma calm_heap:
  assumes "calm G g g'" and "heap g a = Some w"
  shows "\<exists>w'. heap g' a = Some w' \<and> soft G w w'"
  using assms unfolding calm_def by (metis option_rel_Some1)

lemma calm_go_calm:
  assumes "calm G g g'" and "calm_go g' x"
  shows "calm_go g x"
proof (cases x)
  case (SendEvent e)
  with assms(2) obtain a w where a: "heap g' a = Some w" "ev_Id e = rw_name w" "ev_Pool e = rw_poolName w"
    and ne: "ev_Type e \<noteq> ProcessEnd" by auto
  from calm_heapD [OF assms(1) a(1)] a ne SendEvent show ?thesis by (auto simp: soft_def)
next
  case (SendLimitEvent e)
  with assms(2) obtain a w where a: "heap g' a = Some w" "ev_Id e = rw_name w" "ev_Pool e = rw_poolName w"
    and ne: "ev_Type e \<noteq> ProcessEnd" by auto
  from calm_heapD [OF assms(1) a(1)] a ne SendLimitEvent show ?thesis by (auto simp: soft_def)
qed (use assms calm_heapD [OF assms(1)] in auto)

lemma calm_refl [simp]: "calm G g g"
  by (auto simp: calm_def intro: option.rel_refl)

lemma calm_trans:
  assumes "calm G g g1" and "calm G g1 g2"
  shows "calm G g g2"
proof -
  have "rel_option (soft G) (heap g a) (heap g2 a)" for a
  proof (cases "heap g a")
    case None
    then have "heap g1 a = None" using calm_heapD [OF assms(1), of a] by (cases "heap g1 a") auto
    then have "heap g2 a = None" using calm_heapD [OF assms(2), of a] by (cases "heap g2 a") auto
    with None show ?thesis by simp
  next
    case (Some w)
    from calm_heap [OF assms(1) this] obtain w1 where "heap g1 a = Some w1" "soft G w w1" by blast
    with calm_heap [OF assms(2), of a w1] Some show ?thesis by (auto intro: soft_trans)
  qed
  moreover have "x \<in> set (gos g) \<or> calm_go g x" if "x \<in> set (gos g2)" for x
  proof -
    from assms(2) that have "x \<in> set (gos g1) \<or> calm_go g1 x" by (simp add: calm_def)
    with assms(1) calm_go_calm [OF assms(1)] show ?thesis by (auto simp: calm_def)
  qed
  ultimately show ?thesis
    using assms(1) [unfolded calm_def] assms(2) [unfolded calm_def]
    by (intro calm_def [THEN iffD2] conjI allI ballI impI) simp_all
qed

lemma go_ok_calm:
  assumes ok: "go_ok sh g x \<or> heap_ok sh g \<and> calm_go g x" and q: "calm G g g'"
  shows "go_ok sh g' x"
proof -
  have h: "heap g a = Some w \<Longrightarrow> \<exists>w'. heap g' a = Some w'" for a w using calm_heap [OF q] by blast
  show ?thesis using ok by (cases x) (auto simp: heap_ok_def dest: h)
qed

lemma core_calm:
  assumes c: "core G U d sh g" and q: "calm G g g'"
  shows "core G U d sh g'"
proof -
  have tok: "tok (gos g') n k a = tok (gos g) n k a" for n k a using q by (simp add: calm_def)
  have "heap_ok sh g'"
    unfolding heap_ok_def
  proof (intro allI impI)
    fix a w' assume w': "heap g' a = Some w'"
    from calm_heapD [OF q w'] obtain w where w: "heap g a = Some w" "soft G w w'" by blast
    with c q show "a < nextAddr g' \<and> known sh (rw_poolName w') (rw_name w') \<and> lim_ok w'"
      by (simp add: core_def heap_ok_def soft_def calm_def)
  qed
  moreover have "owners_ok sh g'"
    using c calm_heap [OF q] unfolding core_def owners_ok_def soft_def by metis
  moreover have "\<forall>x\<in>set (gos g'). go_ok sh g' x"
    using c q go_ok_calm [OF _ q] unfolding core_def calm_def by blast
  moreover have "live_ok G U sh g'"
    unfolding live_ok_def
  proof (intro allI impI)
    fix n k a assume "cur sh n k a"
    then have l: "watch_ok G U g n k a" by (rule coreD(4) [OF c])
    have "finished G g' a" if "finished G g a"
      using that calm_heap [OF q] by (force simp: finished_def soft_def)
    moreover have "WatchExit a \<in> set (gos g')" if "WatchExit a \<in> set (gos g)" using that q by (simp add: calm_def)
    ultimately show "watch_ok G U g' n k a"
      using l tok [of n k a] by (auto simp: watch_ok_def split: if_splits)
  qed
  moreover have "counts_ok d sh g'"
    using c live_count_cong [of _ "gos g'" _ "gos g"] tok by (simp add: core_def counts_ok_def)
  ultimately show ?thesis by (simp add: core_def)
qed

subsection \<open>Calm operations\<close>

lemma calm_same: "heap g' = heap g \<Longrightarrow> nextAddr g' = nextAddr g \<Longrightarrow> gos g' = gos g \<Longrightarrow> calm G g g'"
  by (auto simp: calm_def intro: option.rel_refl)

lemma calm_worker:
  assumes "heap g a = Some w" and "soft G w w'" and "heap g' = (heap g)(a \<mapsto> w')" and "nextAddr g' = nextAddr g"
    and "\<And>n k b. tok (gos g') n k b = tok (gos g) n k b"
    and "\<And>b. WatchExit b \<in> set (gos g) \<Longrightarrow> WatchExit b \<in> set (gos g')"
    and "\<And>x. x \<in> set (gos g') \<Longrightarrow> x \<in> set (gos g) \<or> calm_go g x"
  shows "calm G g g'"
  using assms by (auto simp: calm_def intro: option.rel_refl)

lemma calm_on_worker:
  assumes "on_worker f a g = Ret g'" and "\<And>w. soft G w (fst (f a w))"
    and "\<And>w x. heap g a = Some w \<Longrightarrow> x \<in> set (concat (map go_of (snd (f a w)))) \<Longrightarrow> calm_go g x"
  shows "calm G g g'"
proof -
  from assms(1) obtain w where w: "heap g a = Some w"
    and g': "g' = apply_effects (snd (f a w)) (g\<lparr>heap := (heap g)(a \<mapsto> fst (f a w))\<rparr>)"
    by (auto simp: on_worker_eq_Ret)
  define zs where "zs = concat (map go_of (snd (f a w)))"
  have zs: "calm_go g x" if "x \<in> set zs" for x using assms(3) [OF w, of x] that by (simp add: zs_def)
  have "calm_go g x \<Longrightarrow> \<not> ends n k x \<and> x \<noteq> WatchExit b" for x n k b by (cases x) auto
  with zs have "tok zs n k b = 0" for n k b by (auto simp: tok_def filter_empty_conv)
  with w zs show ?thesis
    by (intro calm_worker [where a = a and w' = "fst (f a w)", OF w assms(2)]) (auto simp: g' zs_def [symmetric])
qed

lemma calm_Terminate:
  assumes "gocmd_laws S" and "on_worker (Terminate_r (s_cmd S) d) a g = Ret g'"
  shows "calm (s_cmd S) g g'"
  using assms(2)
proof (rule calm_on_worker)
  show "soft (s_cmd S) w (fst (Terminate_r (s_cmd S) d a w))" for w
    using assms(1) by (auto simp: Terminate_r_def Let_def soft_def lim_ok_def gocmd_laws_def)
  show "calm_go g x" if "heap g a = Some w" "x \<in> set (concat (map go_of (snd (Terminate_r (s_cmd S) d a w))))" for w x
    using that by (auto simp: Terminate_r_def Let_def split: if_splits)
qed

lemma calm_Force:
  assumes "on_worker (ForceTerminateWorker_r G) a g = Ret g'"
  shows "calm G g g'"
  using assms by (rule calm_on_worker) (simp_all add: ForceTerminateWorker_r_def)

lemma sys_ops_sel [simp]:
  "w_Run (sys_ops S) = Run_r (s_cmd S)" "w_Terminate (sys_ops S) = Terminate_r (s_cmd S)"
  "w_ForceTerminateWorker (sys_ops S) = ForceTerminateWorker_r (s_cmd S)"
  "w_WaitForWorkerToCleanBuffer (sys_ops S) = WaitForWorkerToCleanBuffer_r (s_cmd S)"
  "w_Status (sys_ops S) = Status_r (s_cmd S)" "w_Restarts (sys_ops S) = Restarts_r"
  "factory (sys_ops S) = NewProdWorker (s_cmd S) (s_environ S) (s_register S)"
  by (simp_all add: sys_ops_def real_ops_def)

lemma calm_terminate_loop:
  assumes "gocmd_laws S"
  shows "terminate_loop (sys_ops S) sw ks g = Ret g' \<Longrightarrow> calm (s_cmd S) g g'"
proof (induction ks arbitrary: g)
  case (Cons k ks)
  then show ?case
    by (auto split: if_splits dest!: calm_Terminate [OF assms] intro: calm_trans)
qed simp

lemma calm_InterruptAll:
  assumes "gocmd_laws S" and "InterruptAll lib (sys_ops S) ks sw g = Ret (sw', g')"
  shows "calm (s_cmd S) g g' \<and> workers sw' = workers sw"
proof -
  let ?g1 = "case sInfo sw of None \<Rightarrow> g | Some si \<Rightarrow> snd (proxyDrain lib si g)"
  from assms(2) have "terminate_loop (sys_ops S) sw' ks ?g1 = Ret g'" and w: "workers sw' = workers sw"
    by (auto simp: InterruptAll_def Let_def)
  moreover have "calm (s_cmd S) g ?g1"
    by (rule calm_same) (simp_all add: proxyDrain_def split: option.split)
  ultimately show ?thesis using calm_terminate_loop [OF assms(1)] calm_trans by blast
qed

lemma calm_InterruptWorker:
  "gocmd_laws S \<Longrightarrow> InterruptWorker (sys_ops S) k sw g = Ret (sw', g') \<Longrightarrow> calm (s_cmd S) g g' \<and> sw' = sw"
  by (auto simp: InterruptWorker_def dest: calm_Terminate)

lemma calm_ForceTerminateWorker:
  assumes "ForceTerminateWorker (sys_ops S) k sw g = Ret (sw', g')"
  shows "calm (s_cmd S) g g' \<and> sw' = sw"
proof -
  have "calm (s_cmd S) g (upd_mets (count_sigkill (poolName sw)) g)" by (rule calm_same) simp_all
  with assms show ?thesis by (auto simp: ForceTerminateWorker_def dest!: calm_Force intro: calm_trans)
qed

subsection \<open>Goroutines and processes\<close>

lemma lim_ok_set_limiter:
  assumes "lim_ok w" and "limiter_of l w = Some t" and "tl_workerName t' = tl_workerName t" "tl_workerPool t' = tl_workerPool t"
  shows "lim_ok (set_limiter l t' w)"
  using assms by (cases l) (auto simp: lim_ok_def)

lemma soft_set_limiter:
  assumes "limiter_of l w = Some t" and "tl_workerName t' = tl_workerName t" "tl_workerPool t' = tl_workerPool t"
  shows "soft G w (set_limiter l t' w)"
  using assms lim_ok_set_limiter [of w l t t'] by (cases l) (auto simp: soft_def)

lemma limiter_names [simp]:
  "tl_workerName (fst (Monitor t)) = tl_workerName t" "tl_workerPool (fst (Monitor t)) = tl_workerPool t"
  "tl_workerName (fst (limiter_fires t)) = tl_workerName t" "tl_workerPool (fst (limiter_fires t)) = tl_workerPool t"
  "tl_workerName (limiter_cancelled t) = tl_workerName t" "tl_workerPool (limiter_cancelled t) = tl_workerPool t"
  "ev_Id (snd (limiter_fires t)) = tl_workerName t" "ev_Pool (snd (limiter_fires t)) = tl_workerPool t"
  "ev_Type (snd (limiter_fires t)) = ProcessExceededLimit"
  by (simp_all add: Monitor_def limiter_fires_def limiter_cancelled_def)

lemma go_step_soft:
  assumes "go_step G x w w' zs" and "\<And>a. x \<noteq> WatchExit a" and "lim_ok w" and "heap g a = Some w" and "go_addr x = Some a"
  shows "soft G w w' \<and> (\<forall>z\<in>set zs. calm_go g z)"
  using assms
proof (cases rule: go_step.cases)
  case (limit_fires l t b)
  then have "tl_workerName t = rw_name w \<and> tl_workerPool t = rw_poolName w"
    using assms(3) by (cases l) (auto simp: lim_ok_def)
  with limit_fires assms(4) show ?thesis by (auto intro: soft_set_limiter)
next
  case (term_sends e b)
  with assms(4) show ?thesis by (force simp: term_timer_fires_def split: if_splits)
next
  case (monitors l t b)
  with assms(4,5) show ?thesis by (auto intro: soft_set_limiter)
next
  case (limit_cancelled l t b)
  then show ?thesis by (auto intro: soft_set_limiter)
next
  case (streams_end b)
  then show ?thesis by (auto simp: soft_def lim_ok_def)
qed auto

lemma calm_goroutine:
  assumes c: "core (s_cmd S) U d sh g" and x: "gos g = xs @ x # ys" and a: "go_addr x = Some a" and w: "heap g a = Some w"
    and st: "go_step (s_cmd S) x w w' zs" and nw: "\<And>a. x \<noteq> WatchExit a"
  shows "calm (s_cmd S) g (g\<lparr>heap := (heap g)(a \<mapsto> w'), gos := xs @ zs @ ys\<rparr>)"
proof -
  have "lim_ok w" using c w by (simp add: core_def heap_ok_def)
  note s = go_step_soft [OF st nw this w a]
  have "calm_go g z \<Longrightarrow> \<not> ends n k z \<and> z \<noteq> WatchExit b" for z n k b by (cases z) auto
  with s have z: "tok zs n k b = 0" for n k b by (auto simp: tok_def filter_empty_conv)
  have "\<not> ends n k x" for n k using a by (cases x) auto
  with nw z s x show ?thesis
    by (intro calm_worker [OF w, where w' = w']) (auto simp: fun_upd_def)
qed

text \<open>The watcher of a process hands its token over to the event it sends.\<close>

lemma core_exit:
  assumes laws: "gocmd_laws S" and c: "core (s_cmd S) U d sh g" and x: "gos g = xs @ WatchExit a # ys"
    and w: "heap g a = Some w" and st: "sendUpdatesToAggrChannel (s_cmd S) w = Some (w', e)"
  shows "core (s_cmd S) U d sh (g\<lparr>heap := (heap g)(a \<mapsto> w'), gos := xs @ SendEvent e # ys\<rparr>)"
    (is "core _ _ _ _ ?g")
proof -
  let ?G = "s_cmd S"
  from st obtain msg c' where m: "cmdRecv ?G (rw_cmd w) = Some (msg, c')" and w': "w' = w\<lparr>rw_cmd := c'\<rparr>"
    and e: "e = mk_event ProcessEnd ProcessExited (rw_name w) (rw_poolName w) (Some msg)"
    by (auto simp: sendUpdatesToAggrChannel_def split: option.splits)
  have fin: "cmd_done ?G c'" using laws m unfolding gocmd_laws_def by blast
  have soft: "soft ?G w w'" using fin by (simp add: w' soft_def lim_ok_def)
  have own: "cur sh (rw_poolName w) (rw_name w) a"
    using c x w unfolding core_def owners_ok_def by fastforce
  have tok: "tok (gos ?g) n k b = tok (gos g) n k b" if "cur sh n k b" for n k b
  proof (cases "b = a")
    case True
    with owners_inj [of sh g n k a] that own c have "n = rw_poolName w" "k = rw_name w" by (auto simp: core_def)
    with True show ?thesis by (simp add: x e)
  next
    case False
    have "(n, k) \<noteq> (rw_poolName w, rw_name w)"
    proof
      assume "(n, k) = (rw_poolName w, rw_name w)"
      with that own False show False by (auto simp: cur_def)
    qed
    with False show ?thesis by (auto simp: x e)
  qed
  have kn: "known sh (rw_poolName w) (rw_name w)" using own by (rule cur_known)
  have "heap_ok sh g" "lim_ok w" "a < nextAddr g" using c w by (simp_all add: core_def heap_ok_def)
  then have "heap_ok sh ?g" using soft kn by (simp add: heap_ok_def soft_def)
  moreover have "owners_ok sh ?g"
  proof (rule owners_ok_upd [OF _ w, of sh w'])
    show "owners_ok sh g" using c by (simp add: core_def)
  qed (use soft in \<open>simp_all add: soft_def\<close>)
  moreover have "go_ok sh ?g y" if "y \<in> set (gos ?g)" for y
  proof (cases "y = SendEvent e")
    case False
    with that c x have "go_ok sh g y" by (simp add: core_def)
    then show ?thesis by (rule go_ok_mono) simp
  qed (simp add: e kn)
  moreover have "live_ok ?G U sh ?g"
    unfolding live_ok_def
  proof (intro allI impI)
    fix n k b assume b: "cur sh n k b"
    note l = coreD(4) [OF c b]
    have "WatchExit b \<in> set (gos ?g)" if "b \<noteq> a" "WatchExit b \<in> set (gos g)" using that by (simp add: x)
    moreover have "finished ?G ?g b" if "b = a \<or> finished ?G g b" using that fin by (auto simp: finished_def w')
    ultimately show "watch_ok ?G U ?g n k b"
      using l tok [OF b] by (cases "(n, k) \<in> U") (auto simp: watch_ok_def simp del: tok_Cons tok_append)
  qed
  moreover have "counts_ok d sh ?g"
    unfolding counts_ok_def
  proof (intro allI impI)
    fix n ws r assume n: "sh n = Some (ws, r)"
    with c have "cur sh n k b" if "(k, b) \<in> set ws" for k b using cur_of_mem [of sh g n ws r k b] n that by (simp add: core_def)
    then have "live_count (gos ?g) n ws = live_count (gos g) n ws" by (intro live_count_cong tok)
    with c n show "r = live_count (gos ?g) n ws + d n" by (simp add: core_def counts_ok_def)
  qed
  ultimately show ?thesis by (simp add: core_def)
qed

lemma core_goroutine:
  assumes "gocmd_laws S" and "core (s_cmd S) U d sh g" and "gos g = xs @ x # ys" and "go_addr x = Some a"
    and "heap g a = Some w" and "go_step (s_cmd S) x w w' zs"
  shows "core (s_cmd S) U d sh (g\<lparr>heap := (heap g)(a \<mapsto> w'), gos := xs @ zs @ ys\<rparr>)"
proof (cases "x = WatchExit a")
  case True
  with assms(6) obtain e where "zs = [SendEvent e]" "sendUpdatesToAggrChannel (s_cmd S) w = Some (w', e)"
    by (auto elim: go_step.cases)
  with core_exit [OF assms(1,2) _ assms(5)] assms(3) True show ?thesis by simp
next
  case False
  then have "\<And>b. x \<noteq> WatchExit b" using assms(4) by auto
  from core_calm [OF assms(2) calm_goroutine [OF assms(2-6) this]] show ?thesis .
qed

lemma calm_process:
  assumes "gocmd_laws S" and "heap g a = Some w" and "s_step S (rw_cmd w) c"
  shows "calm (s_cmd S) g (g\<lparr>heap := (heap g)(a \<mapsto> w\<lparr>rw_cmd := c\<rparr>)\<rparr>)"
  using assms by (intro calm_worker [where w' = "w\<lparr>rw_cmd := c\<rparr>"]) (auto simp: soft_def lim_ok_def gocmd_laws_def)

end
