(* ===== verification/System_Steps.thy ===== *)
theory System_Steps
  imports System_Invariant
begin

text \<open>
  The steps of the supervisor against the invariant: receiving an event takes its token away,
  counting the end or starting a replacement settles the account.
\<close>

subsection \<open>Receiving\<close>

lemma calm_receive:
  assumes "gos g = xs @ x # ys" and "sends x = Some e" and "ev_Type e \<noteq> ProcessEnd"
  shows "calm G g (received x (g\<lparr>gos := xs @ ys\<rparr>))"
proof -
  have x: "\<not> ends n k x" "x \<noteq> WatchExit a" for n k a using assms(2,3) by (cases x; auto)+
  have "heap (received x (g\<lparr>gos := xs @ ys\<rparr>)) = heap g" "nextAddr (received x (g\<lparr>gos := xs @ ys\<rparr>)) = nextAddr g"
    "gos (received x (g\<lparr>gos := xs @ ys\<rparr>)) = xs @ ys" by (cases x; simp)+
  with assms(1) x show ?thesis by (auto simp: calm_def intro: option.rel_refl)
qed

lemma core_receive_end:
  assumes c: "core G {} d sh g" and x: "gos g = xs @ SendEvent e # ys" and e: "ev_Type e = ProcessEnd"
  shows "core G {(ev_Pool e, ev_Id e)} (d(ev_Pool e := d (ev_Pool e) + 1)) sh (g\<lparr>gos := xs @ ys\<rparr>)"
    and "cur sh (ev_Pool e) (ev_Id e) a \<Longrightarrow> finished G (g\<lparr>gos := xs @ ys\<rparr>) a"
proof -
  define n k where "n = ev_Pool e" and "k = ev_Id e"
  let ?g = "g\<lparr>gos := xs @ ys\<rparr>"
  have tok: "tok (gos g) m j b = tok (gos ?g) m j b + (if m = n \<and> j = k then 1 else 0)" for m j b
    using e by (auto simp: x n_def k_def)
  have zero: "tok (gos ?g) n k b = 0 \<and> WatchExit b \<notin> set (gos ?g) \<and> finished G g b" if b: "cur sh n k b" for b
  proof -
    have "tok (gos g) n k b \<le> 1" "WatchExit b \<notin> set (gos g) \<longrightarrow> finished G g b"
      using coreD(4) [OF c b] by (simp_all add: watch_ok_def)
    moreover from this tok [of n k b] have t: "tok (gos ?g) n k b = 0" by simp
    moreover have "WatchExit b \<notin> set (gos ?g)" using t tok_WatchExit [of b "gos ?g" n k] by auto
    ultimately show ?thesis by (auto simp: x)
  qed
  then show "cur sh (ev_Pool e) (ev_Id e) a \<Longrightarrow> finished G ?g a" by (simp add: n_def k_def finished_def)
  have kn: "known sh n k" using coreD(3) [OF c, of "SendEvent e"] by (simp add: x n_def k_def)
  have "live_ok G {(n, k)} sh ?g"
    unfolding live_ok_def
  proof (intro allI impI)
    fix m j b assume b: "cur sh m j b"
    show "watch_ok G {(n, k)} ?g m j b"
    proof (cases "(m, j) = (n, k)")
      case True
      with b zero show ?thesis by (simp add: watch_ok_def)
    next
      case False
      with coreD(4) [OF c b] tok [of m j b] show ?thesis by (auto simp: watch_ok_def x finished_def)
    qed
  qed
  moreover have "counts_ok (d(n := d n + 1)) sh ?g"
    unfolding counts_ok_def
  proof (intro allI impI)
    fix m ws r assume m: "sh m = Some (ws, r)"
    show "r = live_count (gos ?g) m ws + (d(n := d n + 1)) m"
    proof (cases "m = n")
      case False
      then have "live_count (gos g) m ws = live_count (gos ?g) m ws" using tok by (intro live_count_cong) simp
      with coreD(5) [OF c m] False show ?thesis by simp
    next
      case True
      have dist: "distinct (keys ws)" using owners_distinct [OF coreD(2) [OF c] m] .
      have "k \<in> set (keys ws)" using kn m True by (simp add: known_def)
      have "live_count (gos g) n ws = live_count (gos ?g) n ws + (\<Sum>ka\<leftarrow>ws. if fst ka = k then 1 else 0)"
        unfolding live_count_def tok by (simp add: sum_list_addf [symmetric] if_distrib [of int] cong: if_cong)
      also have "(\<Sum>ka\<leftarrow>ws. if fst ka = k then 1 else 0) = (1 :: int)"
        using dist \<open>k \<in> set (keys ws)\<close> by (rule sum_one_key)
      finally show ?thesis using coreD(5) [OF c m] True by simp
    qed
  qed
  moreover have "go_ok sh ?g y" if "y \<in> set (gos ?g)" for y
  proof -
    have "go_ok sh g y" using that coreD(3) [OF c] by (simp add: x)
    then show ?thesis by (rule go_ok_mono) simp
  qed
  ultimately show "core G {(ev_Pool e, ev_Id e)} (d(ev_Pool e := d (ev_Pool e) + 1)) sh ?g"
    using c by (simp add: core_def heap_ok_def owners_ok_def n_def k_def)
qed

subsection \<open>Counting the end of a process\<close>

lemma core_counted:
  assumes c: "core G {(n, k)} d sh g" and n: "sh n = Some (ws, r)"
    and fin: "\<And>a. cur sh n k a \<Longrightarrow> finished G g a"
  shows "core G {} (d(n := d n - 1)) (sh(n \<mapsto> (ws, r - 1))) g"
proof -
  let ?sh = "sh(n \<mapsto> (ws, r - 1))"
  have cu: "cur ?sh = cur sh" "known ?sh = known sh" using n by (auto simp: cur_def known_def fun_eq_iff)
  have "live_ok G {} ?sh g"
    unfolding live_ok_def cu
  proof (intro allI impI)
    fix m j b assume b: "cur sh m j b"
    from coreD(4) [OF c b] fin b show "watch_ok G {} g m j b"
      by (cases "(m, j) = (n, k)") (auto simp: watch_ok_def)
  qed
  moreover have "owners_ok ?sh g" unfolding owners_ok_def cu
    using coreD(2) [OF c] n by (auto simp: owners_ok_def)
  moreover have "go_ok ?sh g x = go_ok sh g x" for x by (cases x) (simp_all add: cu)
  moreover have "counts_ok (d(n := d n - 1)) ?sh g"
    using coreD(5) [OF c] n by (auto simp: counts_ok_def)
  ultimately show ?thesis using c by (simp add: core_def heap_ok_def cu)
qed

subsection \<open>Starting a process\<close>

text \<open>\<open>Run\<close> on a worker nobody watches.\<close>

lemma core_started:
  assumes c: "core G U d sh g" and cur: "cur sh n k a" and U: "(n, k) \<in> U"
    and h: "heap g a = Some w" "heap g' = (heap g)(a \<mapsto> w')" "nextAddr g' = nextAddr g"
    and w': "rw_name w' = rw_name w" "rw_poolName w' = rw_poolName w" "lim_ok w'"
    and gs: "gos g' = gos g @ WatchExit a # zs" "\<forall>z\<in>set zs. \<exists>l. z = RunMonitor l a"
  shows "core G (U - {(n, k)}) (d(n := d n - 1)) sh g'"
proof -
  have own: "m = n \<and> j = k" if "cur sh m j a" for m j using owners_inj [OF coreD(2) [OF c] that cur] .
  have zs: "tok zs m j b = 0" for m j b using gs(2) by (auto simp: tok_def filter_empty_conv)
  have tok: "tok (gos g') m j b = tok (gos g) m j b + (if b = a then 1 else 0)" for m j b
    by (simp add: gs(1) zs)
  have "heap_ok sh g'" using coreD(1) [OF c] h w' by (auto simp: heap_ok_def)
  moreover have "owners_ok sh g'" using coreD(2) [OF c] h(1) w'(1,2) h(2) by (rule owners_ok_upd)
  moreover have "go_ok sh g' x" if "x \<in> set (gos g')" for x
  proof (cases "x \<in> set (gos g)")
    case True
    then show ?thesis using go_ok_mono [OF coreD(3) [OF c True], of g'] h(2) by auto
  next
    case False
    with that gs consider "x = WatchExit a" | l where "x = RunMonitor l a" by auto
    then show ?thesis
    proof cases
      case 1
      have "\<exists>n k. cur sh n k a" using cur by blast
      then show ?thesis unfolding 1 go_ok.simps .
    qed (simp add: h)
  qed
  moreover have "live_ok G (U - {(n, k)}) sh g'"
    unfolding live_ok_def
  proof (intro allI impI)
    fix m j b assume b: "cur sh m j b"
    note l = coreD(4) [OF c b]
    show "watch_ok G (U - {(n, k)}) g' m j b"
    proof (cases "b = a")
      case True
      with own b have "m = n" "j = k" by auto
      with l U True show ?thesis by (simp add: watch_ok_def gs(1) zs)
    next
      case False
      then have "(m, j) \<noteq> (n, k)" using b cur by (auto simp: cur_def)
      with l False show ?thesis by (auto simp: watch_ok_def gs(1) zs finished_def h(2))
    qed
  qed
  moreover have "counts_ok (d(n := d n - 1)) sh g'"
    unfolding counts_ok_def
  proof (intro allI impI)
    fix m ws r assume m: "sh m = Some (ws, r)"
    note mem = cur_of_mem [OF coreD(2) [OF c] m]
    have t: "int (tok (gos g') m (fst ka) (snd ka)) = int (tok (gos g) m (fst ka) (snd ka)) + (if m = n \<and> fst ka = k then 1 else 0)"
      if "ka \<in> set ws" for ka
    proof -
      from that mem [of "fst ka" "snd ka"] have "cur sh m (fst ka) (snd ka)" by simp
      then have "snd ka = a \<longleftrightarrow> m = n \<and> fst ka = k" using own cur_fun [OF _ cur] by blast
      then show ?thesis by (simp add: tok)
    qed
    have "live_count (gos g') m ws = live_count (gos g) m ws + (\<Sum>ka\<leftarrow>ws. if m = n \<and> fst ka = k then 1 else 0)"
      unfolding live_count_def sum_list_addf [symmetric] using t by (intro arg_cong [where f = sum_list] map_cong) auto
    also have "(\<Sum>ka\<leftarrow>ws. if m = n \<and> fst ka = k then 1 else 0) = (if m = n then 1 else 0 :: int)"
    proof (cases "m = n")
      case True
      then have "k \<in> set (keys ws)" using cur m by (auto simp: cur_def map_of_in_keys)
      with True sum_one_key [OF owners_distinct [OF coreD(2) [OF c] m]] show ?thesis by simp
    qed simp
    finally show "r = live_count (gos g') m ws + (d(n := d n - 1)) m" using coreD(5) [OF c m] by simp
  qed
  ultimately show ?thesis by (simp add: core_def)
qed

text \<open>Replacing a worker nobody watches by a fresh one.\<close>

lemma core_replaced:
  assumes c: "core G U d sh g" and n: "sh n = Some (ws, r)" and k: "k \<in> set (keys ws)" and U: "(n, k) \<in> U"
    and h: "heap g' = (heap g)(nextAddr g \<mapsto> w)" "nextAddr g' = Suc (nextAddr g)"
    and w: "rw_name w = k" "rw_poolName w = n" "lim_ok w"
    and gs: "gos g' = gos g @ [StreamLogsLoop (nextAddr g)]"
  shows "core G U d (sh(n \<mapsto> (AList.update k (nextAddr g) ws, r))) g'"
proof -
  let ?A = "nextAddr g"
  let ?sh = "sh(n \<mapsto> (AList.update k ?A ws, r))"
  have kn: "known ?sh = known sh" using n k by (auto simp: known_def fun_eq_iff)
  have cu: "cur ?sh m j b \<longleftrightarrow> (if (m, j) = (n, k) then b = ?A else cur sh m j b)" for m j b
    using n by (auto simp: cur_def)
  have lt: "b < ?A" if "cur sh m j b" for m j b
    using coreD(1,2) [OF c] that unfolding heap_ok_def owners_ok_def by blast
  have noA: "WatchExit ?A \<notin> set (gos g)" using coreD(3) [OF c, of "WatchExit ?A"] lt by fastforce
  obtain a where a: "cur sh n k a" using n k by (auto simp: cur_def in_keys_map_of)
  have za: "tok (gos g) n k a = 0" using coreD(4) [OF c a] U by (simp add: watch_ok_def)
  then have zA: "tok (gos g) n k ?A = 0" "WatchExit a \<notin> set (gos g)"
    using noA tok_WatchExit [of a "gos g" n k] by (auto simp: tok_def filter_empty_conv)
  have tok: "tok (gos g') m j b = tok (gos g) m j b" for m j b by (simp add: gs)
  have "heap_ok ?sh g'"
    using coreD(1) [OF c] w n k unfolding heap_ok_def kn h by (auto simp: known_def less_Suc_eq)
  moreover have "owners_ok ?sh g'"
    unfolding owners_ok_def
  proof (intro conjI allI impI)
    fix m vs q assume "?sh m = Some (vs, q)"
    with owners_distinct [OF coreD(2) [OF c]] n show "distinct (keys vs)" by (auto split: if_splits)
  next
    fix m j b assume "cur ?sh m j b"
    then have "(m, j) = (n, k) \<and> b = ?A \<or> cur sh m j b" by (auto simp: cu split: if_splits)
    then show "\<exists>v. heap g' b = Some v \<and> rw_name v = j \<and> rw_poolName v = m"
      using coreD(2) [OF c] lt w unfolding owners_ok_def h by fastforce
  qed
  moreover have "go_ok ?sh g' x" if x: "x \<in> set (gos g')" for x
  proof (cases "x \<in> set (gos g)")
    case True
    have ok: "go_ok sh g' x" using go_ok_mono [OF coreD(3) [OF c True], of g'] h(1) by auto
    show ?thesis
    proof (cases "\<exists>b. x = WatchExit b")
      case False
      with ok show ?thesis by (cases x) (auto simp: kn)
    next
      case True
      with ok obtain b m j where b: "x = WatchExit b" "cur sh m j b" by auto
      have "(m, j) \<noteq> (n, k)" using b a zA(2) \<open>x \<in> set (gos g)\<close> by (auto simp: cur_def)
      with b show ?thesis by (auto simp: cu)
    qed
  qed (use x gs h in auto)
  moreover have "live_ok G U ?sh g'"
    unfolding live_ok_def
  proof (intro allI impI)
    fix m j b assume "cur ?sh m j b"
    then consider "(m, j) = (n, k)" "b = ?A" | "cur sh m j b" "(m, j) \<noteq> (n, k)" by (auto simp: cu split: if_splits)
    then show "watch_ok G U g' m j b"
    proof cases
      case 1
      then show ?thesis using U zA by (simp add: watch_ok_def tok)
    next
      case 2
      from coreD(4) [OF c 2(1)] lt [OF 2(1)] show ?thesis by (auto simp: watch_ok_def tok gs finished_def h(1))
    qed
  qed
  moreover have "counts_ok d ?sh g'"
    unfolding counts_ok_def
  proof (intro allI impI)
    fix m vs q assume m: "?sh m = Some (vs, q)"
    show "q = live_count (gos g') m vs + d m"
    proof (cases "m = n")
      case False
      with m coreD(5) [OF c, of m vs q] show ?thesis by (simp add: live_count_def tok)
    next
      case True
      with m have eq: "vs = AList.update k ?A ws" "q = r" by auto
      obtain b where b: "map_of ws k = Some b" using k by (auto simp: in_keys_map_of)
      with n a have "b = a" by (auto simp: cur_def)
      with sum_update_key [OF owners_distinct [OF coreD(2) [OF c] n] b, of "\<lambda>ka. int (tok (gos g) n (fst ka) (snd ka))" ?A]
        za zA coreD(5) [OF c n] show ?thesis by (simp add: live_count_def tok eq True)
    qed
  qed
  ultimately show ?thesis by (simp add: core_def)
qed

end
