(* ===== verification/System_Safety.thy ===== *)
theory System_Safety
  imports System_Steps Pool_Health
begin

text \<open>
  The invariant holds in every reachable state of the program, and what follows: \<open>Run\<close>
  returns only when every process has finished, and never with the error of its final check.
\<close>

subsection \<open>Handlers\<close>

lemma update_same: "map_of m k = Some v \<Longrightarrow> AList.update k v m = m"
  by (induction m) auto

lemma set_pool_same: "map_of (pools s) n = Some i \<Longrightarrow> set_pool n (pi_pool i) s = s"
  by (simp add: set_pool_Some update_same)

lemma shape_set_pool:
  "map_of (pools s) n = Some i \<Longrightarrow>
   shape_of (set_pool n p s) = (shape_of s)(n \<mapsto> (workers p, runningProcesses i))"
  by (auto simp: shape_of_def set_pool_Some fun_eq_iff)

lemma shape_pool: "map_of (pools s) n = Some i \<Longrightarrow> shape_of s n = Some (workers (pi_pool i), runningProcesses i)"
  by (simp add: shape_of_def)

definition active :: "WorkerPool Supervisor \<Rightarrow> bool" where
  "active s \<longleftrightarrow> (\<forall>n i. map_of (pools s) n = Some i \<longrightarrow> pstate (pi_pool i) \<notin> {Draining, Stopped})"

lemma active_update:
  "active s \<Longrightarrow> pstate (pi_pool i) \<notin> {Draining, Stopped} \<Longrightarrow> active (s\<lparr>pools := AList.update n i (pools s)\<rparr>)"
  by (auto simp: active_def)

lemma sys_pools_sel [simp]:
  "p_InterruptWorker (sys_pools S) = InterruptWorker (sys_ops S)"
  "p_ForceTerminateWorker (sys_pools S) = ForceTerminateWorker (sys_ops S)"
  "p_WaitForWorkerToCleanBuffer (sys_pools S) = WaitForWorkerToCleanBuffer (sys_ops S)"
  "p_RestartWorker (sys_pools S) = RestartWorker (s_lib S) (sys_ops S)"
  "p_HasProxy (sys_pools S) = HasProxy" "p_RunningCount (sys_pools S) = RunningCount (sys_ops S)"
  "p_IsHealthy (sys_pools S) = IsHealthy (sys_ops S)"
  "p_RunAll (sys_pools S) = (\<lambda>p g. RunAll (sys_ops S) (arrange (s_ordR S p) (workers p)) p g)"
  "p_InterruptAll (sys_pools S) =
     (\<lambda>p g. InterruptAll (s_lib S) (sys_ops S) (arrange (s_ordI S p) (workers p)) p g)"
  by (simp_all add: sys_pools_def)

lemma on_pool_interrupt:
  assumes "gocmd_laws S" and "on_pool (InterruptWorker (sys_ops S) k) n s g = Ret (s', g')"
  shows "calm (s_cmd S) g g' \<and> s' = s"
  using assms(2) by (auto simp: on_pool_def set_pool_same dest!: calm_InterruptWorker [OF assms(1)])

lemma on_pool_force:
  assumes "on_pool (ForceTerminateWorker (sys_ops S) k) n s g = Ret (s', g')"
  shows "calm (s_cmd S) g g' \<and> s' = s"
  using assms by (auto simp: on_pool_def set_pool_same dest!: calm_ForceTerminateWorker)

lemma other_event_calm:
  assumes "gocmd_laws S" and "other_event b (sys_pools S) e s g = Ret (s', g')"
  shows "calm (s_cmd S) g g' \<and> s' = s"
  using assms(2)
  by (auto simp: other_event_def handleProcessNeedsInterrupt_def handleProcessNeedsTermination_def
      handleProcessExceededLimit_def dest: on_pool_interrupt [OF assms(1)] on_pool_force
      split: EventType.splits if_splits)

lemma termination_step:
  assumes laws: "gocmd_laws S"
    and ret: "handleProcessTerminationDuringShutdown (sys_pools S) e s g = Ret (s', g')"
  shows "\<exists>i. map_of (pools s) (ev_Pool e) = Some i \<and> calm (s_cmd S) g g' \<and>
     s' = s\<lparr>pools := AList.update (ev_Pool e) (i\<lparr>runningProcesses := runningProcesses i - 1\<rparr>) (pools s)\<rparr>"
proof -
  from ret obtain i p' where i: "map_of (pools s) (ev_Pool e) = Some i"
    and act: "(if HasProxy (pi_pool i) \<and> runningProcesses i = totalProcesses i
       then InterruptWorker (sys_ops S) ProxyId (pi_pool i) g else Ret (pi_pool i, g)) = Ret (p', g')"
    and s': "s' = s\<lparr>pools := AList.update (ev_Pool e)
       (i\<lparr>runningProcesses := runningProcesses i - 1, pi_pool := p'\<rparr>) (pools s)\<rparr>"
    by (auto simp: handleProcessTerminationDuringShutdown_def Let_def cong: if_cong)
  from act have "calm (s_cmd S) g g' \<and> p' = pi_pool i"
    by (auto split: if_splits dest: calm_InterruptWorker [OF laws])
  with i s' show ?thesis by auto
qed

text \<open>The effect of a restart that succeeds.\<close>

lemma restart_effect:
  assumes "installs (sys_ops S) rw_name rw_poolName k m w sw g sw' g1"
    and "on_worker (Run_r (s_cmd S)) (nextAddr g) (upd_mets f g1) = Ret g'"
  shows "lim_ok w \<and> (\<exists>zs w'. heap g' = (heap g1)(nextAddr g \<mapsto> w') \<and> nextAddr g' = nextAddr g1 \<and>
     rw_name w' = rw_name w \<and> rw_poolName w' = rw_poolName w \<and> lim_ok w' \<and>
     gos g' = gos g1 @ WatchExit (nextAddr g) # zs \<and> (\<forall>z\<in>set zs. \<exists>l. z = RunMonitor l (nextAddr g)))"
proof -
  from assms(1) obtain c where c: "newWorkerInstance (s_cmd S) (s_environ S) (s_register S) c = Ret w" "conf_ok c"
    by (auto simp: installs_def NewProdWorker_def)
  have lw: "lim_ok w" using newWorkerInstance_Ret [OF c(1)] c(2) by (simp add: lim_ok_def conf_ok_def)
  then have "lim_ok (fst (Run_r (s_cmd S) a w))" for a by (simp add: Run_r_def lim_ok_def)
  moreover from assms have "heap g1 (nextAddr g) = Some w" by (simp add: installs_def)
  ultimately show ?thesis using assms(2) lw by (auto simp: on_worker_eq_Ret Run_r_def)
qed

lemma end_step:
  assumes laws: "gocmd_laws S" and i: "map_of (pools s) (ev_Pool e) = Some i" and nm: "poolName (pi_pool i) = ev_Pool e"
    and act: "terminating s \<or> active s"
    and ret: "handleProcessEnd (sys_pools S) e s g = Ret (err, s', g')"
    and c: "core (s_cmd S) {(ev_Pool e, ev_Id e)} d (shape_of s) g"
  shows "(active s \<longrightarrow> active s') \<and>
     (case err of Some er \<Rightarrow> s' = s \<and> calm (s_cmd S) g g'
      | None \<Rightarrow> core (s_cmd S) {} (d(ev_Pool e := d (ev_Pool e) - 1)) (shape_of s') g')"
proof -
  define n k where "n = ev_Pool e" and "k = ev_Id e"
  define g1 where "g1 = upd_mets (DecrementRunningIncrementTerminated n) g"
  have q1: "calm (s_cmd S) g g1" unfolding g1_def by (rule calm_same) simp_all
  show ?thesis
  proof (cases "terminating s")
    case True
    with ret i q1 show ?thesis by (auto simp: handleProcessEnd_def g1_def n_def Let_def split: if_splits)
  next
    case False
    with ret i obtain p' where p: "RestartWorker (s_lib S) (sys_ops S) (cmdOpts s) k (pi_pool i) g1 = Ret (err, p', g')"
      and s': "s' = set_pool n p' s"
      by (auto simp: handleProcessEnd_def g1_def n_def k_def Let_def split: if_splits)
    have i': "map_of (pools s) n = Some i" using i by (simp add: n_def)
    from False act i have st: "pstate (pi_pool i) \<notin> {Draining, Stopped}" "active s" by (auto simp: active_def)
    from p show ?thesis
    proof (cases rule: sys.RestartWorker_cases)
      case draining
      with st show ?thesis by auto
    next
      case (over_budget a w0 msg)
      with q1 i' s' show ?thesis by (simp add: set_pool_same)
    next
      case (proxy_error a w0 er)
      then have "calm (s_cmd S) g1 g'" by (intro calm_same)
      with q1 proxy_error i' s' show ?thesis by (auto simp: set_pool_same intro: calm_trans)
    next
      case (restarted a w0 w g2 f)
      note inst = restarted(5) and run = restarted(9)
      obtain zs w' where lw: "lim_ok w"
        and e: "heap g' = (heap g2)(nextAddr g1 \<mapsto> w')" "nextAddr g' = nextAddr g2" "rw_name w' = rw_name w"
          "rw_poolName w' = rw_poolName w" "lim_ok w'" "gos g' = gos g2 @ WatchExit (nextAddr g1) # zs"
          "\<forall>z\<in>set zs. \<exists>l. z = RunMonitor l (nextAddr g1)"
        using restart_effect [OF inst run [unfolded sys_ops_sel]] by blast
      have c1: "core (s_cmd S) {(n, k)} d (shape_of s) g1" using core_calm [OF c q1] by (simp add: n_def k_def)
      have c2: "core (s_cmd S) {(n, k)} d (shape_of s') g2"
        unfolding s' shape_set_pool [OF i'] using inst
        by (simp add: installs_def)
          (rule core_replaced [OF c1 shape_pool [OF i'] map_of_in_keys [OF restarted(3)]],
            use inst nm lw in \<open>simp_all add: installs_def n_def\<close>)
      have cu: "cur (shape_of s') n k (nextAddr g1)"
        using inst by (simp add: cur_def s' shape_set_pool [OF i'] installs_def)
      have h2: "heap g2 (nextAddr g1) = Some w" using inst by (simp add: installs_def)
      from core_started [OF c2 cu _ h2 e] have "core (s_cmd S) {} (d(n := d n - 1)) (shape_of s') g'" by simp
      moreover have "active s'"
        unfolding s' set_pool_Some [OF i'] using st inst by (intro active_update) (auto simp: installs_def)
      ultimately show ?thesis using restarted(2) by (simp add: n_def)
    qed
  qed
qed

subsection \<open>The invariant of the program\<close>

abbreviation sys_sup_inv :: "'c setting \<Rightarrow> 'c sys_state \<Rightarrow> bool" where
  "sys_sup_inv S \<equiv> sup_inv (prepared_inv (sys_ops S) rw_name rw_poolName) pool_ids poolName"

definition sys_inv :: "'c setting \<Rightarrow> 'c sys_state \<Rightarrow> bool" where
  "sys_inv S st \<longleftrightarrow>
     sys_sup_inv S st \<and> core (s_cmd S) {} (\<lambda>_. 0) (shape_of (sup st)) (wld st) \<and>
     (loc st = MainLoop \<longrightarrow> active (sup st)) \<and>
     (\<forall>err. loc st = Returned err \<longrightarrow> err = None \<and> terminatedProcesses st = allProcesses st)"

lemma sup_inv_world:
  assumes "sys_sup_inv S st" and "evolves (sys_ops S) rw_name rw_poolName (wld st) g" and "gauge (mets g) = gauge (mets (wld st))"
  shows "sys_sup_inv S (st\<lparr>wld := g\<rparr>)"
  using sys_pool.pools_ok_frame [OF _ assms(2,3)] assms(1) by (simp add: sup_inv_def)

lemma sup_inv_row:
  assumes "sys_sup_inv S st" and "map_of (pools (sup st)) n = Some i"
  shows "prepared_inv (sys_ops S) rw_name rw_poolName (pi_pool i) (wld st) \<and> poolName (pi_pool i) = n \<and>
     totalProcesses i = int (card (pool_ids (pi_pool i)))"
  using assms by (simp add: sup_inv_def pools_ok_def pool_row_def)

text \<open>A \<open>ProcessEnd\<close>, in either loop, up to the counters of \<open>Run\<close>.\<close>

lemma end_handled:
  assumes laws: "gocmd_laws S" and inv: "sys_sup_inv S st" and c: "core (s_cmd S) {} (\<lambda>_. 0) (shape_of (sup st)) (wld st)"
    and act: "terminating (sup st) \<or> active (sup st)" and x: "gos (wld st) = xs @ SendEvent e # ys" and e: "ev_Type e = ProcessEnd"
    and ret: "handleProcessEnd (sys_pools S) e (sup st) ((wld st)\<lparr>gos := xs @ ys\<rparr>) = Ret (err, s1, g1)"
  shows "(active (sup st) \<longrightarrow> active s1) \<and>
     (err = None \<longrightarrow> core (s_cmd S) {} (\<lambda>_. 0) (shape_of s1) g1) \<and>
     (err \<noteq> None \<longrightarrow> (\<forall>s2 g2. handleProcessTerminationDuringShutdown (sys_pools S) e s1 g1 = Ret (s2, g2) \<longrightarrow>
        core (s_cmd S) {} (\<lambda>_. 0) (shape_of s2) g2 \<and> (active (sup st) \<longrightarrow> active s2)))"
proof -
  define n k where "n = ev_Pool e" and "k = ev_Id e"
  define g where "g = (wld st)\<lparr>gos := xs @ ys\<rparr>"
  note r = core_receive_end [OF c x e, folded g_def n_def k_def]
  from ret obtain i where i: "map_of (pools (sup st)) n = Some i" by (auto simp: handleProcessEnd_def n_def)
  have nm: "poolName (pi_pool i) = n" using sup_inv_row [OF inv i] by simp
  note s1 = end_step [OF laws, of "sup st" e i g err s1 g1 "(\<lambda>_. 0)(n := 1)", folded n_def k_def, OF i nm act]
  have s1': "active (sup st) \<longrightarrow> active s1"
    "case err of Some er \<Rightarrow> s1 = sup st \<and> calm (s_cmd S) g g1
     | None \<Rightarrow> core (s_cmd S) {} ((\<lambda>_. 0)(n := 0)) (shape_of s1) g1"
    using s1 r(1) ret by (simp_all add: g_def split: option.splits)
  have z: "(\<lambda>_. 0)(n := 0) = (\<lambda>_. 0 :: int)" by auto
  show ?thesis
  proof (cases err)
    case None
    with s1' show ?thesis by (simp add: z)
  next
    case (Some er)
    with s1' have s1eq: "s1 = sup st" and q: "calm (s_cmd S) g g1" by simp_all
    have "core (s_cmd S) {} (\<lambda>_. 0) (shape_of s2) g2 \<and> (active (sup st) \<longrightarrow> active s2)"
      if t: "handleProcessTerminationDuringShutdown (sys_pools S) e s1 g1 = Ret (s2, g2)" for s2 g2
    proof -
      from termination_step [OF laws t] i have q2: "calm (s_cmd S) g1 g2"
        and s2: "s2 = s1\<lparr>pools := AList.update n (i\<lparr>runningProcesses := runningProcesses i - 1\<rparr>) (pools s1)\<rparr>"
        by (auto simp: n_def s1eq)
      have q': "calm (s_cmd S) g g2" using q q2 by (rule calm_trans)
      have fin: "finished (s_cmd S) g2 a" if "cur (shape_of (sup st)) n k a" for a
        using r(2) [OF that] calm_heap [OF q'] by (force simp: finished_def soft_def)
      have sh: "shape_of s2 = (shape_of (sup st))(n \<mapsto> (workers (pi_pool i), runningProcesses i - 1))"
        by (auto simp: s2 s1eq shape_of_def fun_eq_iff)
      have "core (s_cmd S) {(n, k)} ((\<lambda>_. 0)(n := 1)) (shape_of (sup st)) g2"
        using core_calm [OF _ q'] r(1) by simp
      from core_counted [OF this shape_pool [OF i] fin] have "core (s_cmd S) {} (\<lambda>_. 0) (shape_of s2) g2"
        by (simp add: sh z)
      moreover have "active s2" if "active (sup st)"
        unfolding s2 using that i by (intro active_update) (auto simp: s1eq active_def)
      ultimately show ?thesis by simp
    qed
    with s1' Some show ?thesis by simp
  qed
qed

lemma received_sel:
  "heap (received x g) = heap g" "nextAddr (received x g) = nextAddr g" "gos (received x g) = gos g"
  "gauge (mets (received x g)) = gauge (mets g)" "kills (received x g) = kills g"
  by (cases x; simp add: count_limit_def)+

lemma sup_inv_receive:
  assumes "sys_sup_inv S st"
  shows "sys_sup_inv S (st\<lparr>wld := received x ((wld st)\<lparr>gos := gs\<rparr>)\<rparr>)"
  using assms by (rule sup_inv_world) (auto intro: evolves_same_heap simp: received_sel)

text \<open>An event that is not the end of a process.\<close>

lemma core_other_event:
  assumes laws: "gocmd_laws S" and c: "core (s_cmd S) {} (\<lambda>_. 0) (shape_of (sup st)) (wld st)"
    and x: "gos (wld st) = xs @ x # ys" "sends x = Some e" "ev_Type e \<noteq> ProcessEnd"
    and ret: "other_event b (sys_pools S) e (sup st) (received x ((wld st)\<lparr>gos := xs @ ys\<rparr>)) = Ret (s1, g1)"
  shows "s1 = sup st \<and> core (s_cmd S) {} (\<lambda>_. 0) (shape_of s1) g1"
  using other_event_calm [OF laws ret] core_calm [OF c calm_trans [OF calm_receive [OF x]]] by auto

lemma end_sender:
  assumes "core (s_cmd S) U d sh g" and "gos g = xs @ x # ys" and "sends x = Some e" and "ev_Type e = ProcessEnd"
  shows "x = SendEvent e \<and> ev_Cmd e \<noteq> None"
  using coreD(3) [OF assms(1), of x] assms(2-4) by (cases x) auto

lemma recv_main_inv:
  assumes laws: "gocmd_laws S" and inv: "sys_inv S st" and l: "loc st = MainLoop"
    and x: "gos (wld st) = xs @ x # ys" "sends x = Some e"
    and ret: "main_event (sys_pools S) e (st\<lparr>wld := received x ((wld st)\<lparr>gos := xs @ ys\<rparr>)\<rparr>) = Ret st'"
  shows "sys_inv S st'"
proof -
  from inv have sup: "sys_sup_inv S st" and c: "core (s_cmd S) {} (\<lambda>_. 0) (shape_of (sup st)) (wld st)"
    and act: "active (sup st)" using l by (simp_all add: sys_inv_def)
  have sup': "sys_sup_inv S st'" using sys_pool.main_event_ok [OF sup_inv_receive [OF sup] _ ret] l by simp
  have "core (s_cmd S) {} (\<lambda>_. 0) (shape_of (sup st')) (wld st') \<and> active (sup st') \<and> loc st' = MainLoop"
  proof (cases "ev_Type e = ProcessEnd")
    case True
    with end_sender [OF c x] have xe: "x = SendEvent e" by simp
    let ?g = "(wld st)\<lparr>gos := xs @ ys\<rparr>"
    from ret True obtain err s1 g1 where h: "handleProcessEnd (sys_pools S) e (sup st) ?g = Ret (err, s1, g1)"
      by (auto simp: main_event_def xe)
    note e = end_handled [OF laws sup c _ x(1) [unfolded xe] True h]
    show ?thesis
    proof (cases err)
      case None
      with ret True h have "sup st' = s1" "calm (s_cmd S) g1 (wld st')" "loc st' = loc st"
        by (auto simp: main_event_def xe intro!: calm_same)
      with e None act l core_calm show ?thesis by auto
    next
      case (Some er)
      with ret True h have "handleProcessTerminationDuringShutdown (sys_pools S) e s1 g1 = Ret (sup st', wld st')"
        "loc st' = loc st" by (auto simp: main_event_def xe)
      with e Some act l show ?thesis by auto
    qed
  next
    case False
    with ret obtain s1 g1 where o: "other_event False (sys_pools S) e (sup st) (received x ((wld st)\<lparr>gos := xs @ ys\<rparr>)) = Ret (s1, g1)"
      and st': "sup st' = s1" "wld st' = g1" "loc st' = loc st" by (auto simp: main_event_def)
    from core_other_event [OF laws c x False o] st' act l show ?thesis by auto
  qed
  with sup' show ?thesis by (simp add: sys_inv_def)
qed

subsection \<open>When every end has been counted\<close>

lemma live_count_nonneg: "0 \<le> live_count gs n ws"
  by (auto simp: live_count_def intro!: sum_list_nonneg)

lemma all_counted:
  assumes sup: "sys_sup_inv S st" and c: "core (s_cmd S) {} (\<lambda>_. 0) (shape_of (sup st)) (wld st)"
    and eq: "terminatedProcesses st = allProcesses st" and cu: "cur (shape_of (sup st)) n k a"
  shows "finished (s_cmd S) (wld st) a"
proof -
  have d: "distinct (keys (pools (sup st)))" using sup by (simp add: sup_inv_def pools_ok_def)
  have run: "runningProcesses i = live_count (gos (wld st)) m (workers (pi_pool i))" if "map_of (pools (sup st)) m = Some i" for m i
    using coreD(5) [OF c shape_pool [OF that]] by simp
  then have nn: "0 \<le> runningProcesses (snd mi)" if "mi \<in> set (pools (sup st))" for mi
    using that d live_count_nonneg by (cases mi) (simp add: keys_def)
  have "terminated_sum (sup st) = total_sum (sup st) - (\<Sum>mi\<leftarrow>pools (sup st). runningProcesses (snd mi))"
    by (simp add: terminated_sum_def total_sum_def sum_list_subtractf comp_def)
  with sup eq have "(\<Sum>mi\<leftarrow>pools (sup st). runningProcesses (snd mi)) = 0" by (simp add: sup_inv_def)
  with nn have z: "runningProcesses (snd mi) = 0" if "mi \<in> set (pools (sup st))" for mi
    using that by (subst (asm) sum_list_nonneg_eq_0_iff) auto
  from cu obtain i where i: "map_of (pools (sup st)) n = Some i" "map_of (workers (pi_pool i)) k = Some a"
    by (auto simp: cur_def shape_of_def)
  have "live_count (gos (wld st)) n (workers (pi_pool i)) = 0" using run [OF i(1)] z map_of_SomeD [OF i(1)] by fastforce
  then have "tok (gos (wld st)) n k a = 0"
    unfolding live_count_def using map_of_SomeD [OF i(2)] by (subst (asm) sum_list_nonneg_eq_0_iff) auto
  then have "WatchExit a \<notin> set (gos (wld st))" using tok_WatchExit [of a "gos (wld st)" n k] by auto
  with coreD(4) [OF c cu] show ?thesis by (simp add: watch_ok_def)
qed

lemma running_sum_zero:
  assumes d: "distinct (keys (pools s))" "\<And>n i. map_of (pools s) n = Some i \<Longrightarrow> distinct (keys (workers (pi_pool i)))"
    and f: "\<And>n k a. cur (shape_of s) n k a \<Longrightarrow> finished (s_cmd S) g a"
  shows "running_sum (sys_pools S) s g = 0"
proof -
  have "RunningCount (sys_ops S) (pi_pool (snd ni)) g = 0" if "ni \<in> set (pools s)" for ni
  proof -
    obtain n i where ni: "ni = (n, i)" by fastforce
    with that d(1) have i: "map_of (pools s) n = Some i" by (simp add: keys_def)
    have "worker_status (sys_ops S) g (snd ka) \<noteq> Some Running" if "ka \<in> set (workers (pi_pool i))" for ka
    proof -
      have "map_of (workers (pi_pool i)) (fst ka) = Some (snd ka)"
        using d(2) [OF i] that by (cases ka) (simp add: keys_def)
      with i have "cur (shape_of s) n (fst ka) (snd ka)" by (simp add: cur_def shape_of_def)
      from f [OF this] show ?thesis
        by (auto simp: finished_def worker_status_def Status_r_def cmd_done_def)
    qed
    then show ?thesis by (simp add: ni RunningCount_filter filter_empty_conv)
  qed
  then have "running_sum (sys_pools S) s g = (\<Sum>ni\<leftarrow>pools s. 0)"
    unfolding running_sum_def by (intro arg_cong [where f = sum_list] map_cong) auto
  then show ?thesis by simp
qed

lemma Run_finish_clean:
  assumes sup: "sys_sup_inv S st" and c: "core (s_cmd S) {} (\<lambda>_. 0) (shape_of (sup st)) (wld st)"
    and eq: "terminatedProcesses st = allProcesses st"
  shows "Run_finish (sys_pools S) st = st\<lparr>loc := Returned None\<rparr>"
proof -
  have "running_sum (sys_pools S) (sup st) (wld st) = 0"
  proof (rule running_sum_zero)
    show "distinct (keys (pools (sup st)))" using sup by (simp add: sup_inv_def pools_ok_def)
    show "distinct (keys (workers (pi_pool i)))" if "map_of (pools (sup st)) n = Some i" for n i
      using sup_inv_row [OF sup that] by (simp add: prepared_inv_def pool_inv_def)
  qed (rule all_counted [OF sup c eq])
  then show ?thesis by (simp add: Run_finish_def)
qed

lemma recv_shutdown_inv:
  assumes laws: "gocmd_laws S" and inv: "sys_inv S st" and l: "loc st = ShutdownLoop"
    and x: "gos (wld st) = xs @ x # ys" "sends x = Some e"
    and ret: "shutdown_event (sys_pools S) e (st\<lparr>wld := received x ((wld st)\<lparr>gos := xs @ ys\<rparr>)\<rparr>) = Ret st'"
  shows "sys_inv S st'"
proof -
  from inv have sup: "sys_sup_inv S st" and c: "core (s_cmd S) {} (\<lambda>_. 0) (shape_of (sup st)) (wld st)"
    by (simp_all add: sys_inv_def)
  have T: "terminating (sup st)" using sup l by (simp add: sup_inv_def)
  have sup': "sys_sup_inv S st'" using sys_pool.shutdown_event_ok [OF sup_inv_receive [OF sup] _ ret] l by simp
  have fin: "sys_inv S st'" if st': "st' = (if terminatedProcesses st1 = allProcesses st1 then Run_finish (sys_pools S) st1 else st1)"
    and c1: "core (s_cmd S) {} (\<lambda>_. 0) (shape_of (sup st1)) (wld st1)" and l1: "loc st1 = ShutdownLoop" and T1: "terminating (sup st1)" for st1
  proof (cases "terminatedProcesses st1 = allProcesses st1")
    case False
    with st' sup' c1 l1 show ?thesis by (simp add: sys_inv_def)
  next
    case True
    with st' have st'': "st' = Run_finish (sys_pools S) st1" by simp
    have "sys_sup_inv S st1" using sup' l1 T1 unfolding st'' by (simp add: Run_finish_def Let_def sup_inv_def)
    from Run_finish_clean [OF this c1 True] c1 sup' True show ?thesis by (simp add: st'' sys_inv_def)
  qed
  show ?thesis
  proof (cases "ev_Type e = ProcessEnd")
    case True
    with end_sender [OF c x] have xe: "x = SendEvent e" by simp
    let ?g = "(wld st)\<lparr>gos := xs @ ys\<rparr>"
    from ret True obtain err s1 g1 where h: "handleProcessEnd (sys_pools S) e (sup st) ?g = Ret (err, s1, g1)"
      by (auto simp: shutdown_event_def xe)
    have "err \<noteq> None" and s1: "s1 = sup st" using h T by (auto simp: handleProcessEnd_def Let_def split: if_splits)
    with ret True h obtain s2 g2 where t: "handleProcessTerminationDuringShutdown (sys_pools S) e s1 g1 = Ret (s2, g2)"
      and st': "st' = (let st1 = st\<lparr>sup := s2, wld := g2, terminatedProcesses := terminatedProcesses st + 1\<rparr>
                       in if terminatedProcesses st1 = allProcesses st1 then Run_finish (sys_pools S) st1 else st1)"
      by (auto simp: shutdown_event_def Let_def xe)
    have "terminating s2" using termination_step [OF laws t] T by (auto simp: s1)
    with end_handled [OF laws sup c _ x(1) [unfolded xe] True h] T \<open>err \<noteq> None\<close> t
    show ?thesis by (intro fin [OF st' [unfolded Let_def]]) (simp_all add: l)
  next
    case False
    with ret obtain s1 g1 where o: "other_event True (sys_pools S) e (sup st) (received x ((wld st)\<lparr>gos := xs @ ys\<rparr>)) = Ret (s1, g1)"
      and st': "st' = (let st1 = st\<lparr>sup := s1, wld := g1\<rparr>
                       in if terminatedProcesses st1 = allProcesses st1 then Run_finish (sys_pools S) st1 else st1)"
      by (auto simp: shutdown_event_def Let_def)
    from core_other_event [OF laws c x False o] T show ?thesis
      by (intro fin [OF st' [unfolded Let_def]]) (auto simp: l)
  qed
qed

lemma for_pools_InterruptAll:
  assumes laws: "gocmd_laws S"
  shows "for_pools (p_InterruptAll (sys_pools S)) ns s g = Ret (s', g') \<Longrightarrow>
         shape_of s' = shape_of s \<and> calm (s_cmd S) g g'"
proof (induction ns arbitrary: s g)
  case (Cons n ns)
  from Cons.prems obtain i p1 s1 g1 where i: "map_of (pools s) n = Some i"
    and p1: "p_InterruptAll (sys_pools S) (pi_pool i) g = Ret (p1, g1)" and s1: "s1 = set_pool n p1 s"
    and l: "for_pools (p_InterruptAll (sys_pools S)) ns s1 g1 = Ret (s', g')"
    by (auto simp: on_pool_def simp del: sys_pools_sel split: prod.splits)
  have q: "calm (s_cmd S) g g1" "workers p1 = workers (pi_pool i)"
    using p1 calm_InterruptAll [OF laws] by auto
  have "shape_of s1 = shape_of s" using i q(2) by (auto simp: s1 shape_set_pool fun_eq_iff shape_of_def)
  with Cons.IH [OF l] q(1) show ?case by (auto intro: calm_trans)
qed simp

lemma ctx_done_inv:
  assumes laws: "gocmd_laws S" and inv: "sys_inv S st" and l: "loc st = MainLoop"
    and ret: "ctx_done (sys_pools S) ns st = Ret st'"
  shows "sys_inv S st'"
proof -
  from inv have sup: "sys_sup_inv S st" and c: "core (s_cmd S) {} (\<lambda>_. 0) (shape_of (sup st)) (wld st)"
    by (simp_all add: sys_inv_def)
  note ok = sys_pool.ctx_done_ok [OF sup l ret]
  from ret have f: "for_pools (p_InterruptAll (sys_pools S)) ns ((sup st)\<lparr>terminating := True\<rparr>)
      (upd_mets SetSigtermGauge (wld st)) = Ret (sup st', wld st')"
    by (auto simp: ctx_done_def)
  have "calm (s_cmd S) (wld st) (upd_mets SetSigtermGauge (wld st))" by (rule calm_same) simp_all
  with for_pools_InterruptAll [OF laws f] have "calm (s_cmd S) (wld st) (wld st')" and "shape_of (sup st') = shape_of (sup st)"
    by (auto simp: shape_of_def fun_eq_iff intro: calm_trans)
  with core_calm [OF c] ok show ?thesis by (auto simp: sys_inv_def)
qed

subsection \<open>Goroutines and processes leave the supervisor's view alone\<close>

lemma set_limiter_fields [simp]:
  "rw_name (set_limiter l t w) = rw_name w" "rw_poolName (set_limiter l t w) = rw_poolName w"
  "rw_restarts (set_limiter l t w) = rw_restarts w"
  by (cases l; simp)+

lemma go_step_same:
  "go_step G x w w' zs \<Longrightarrow> rw_name w' = rw_name w \<and> rw_poolName w' = rw_poolName w \<and> rw_restarts w' = rw_restarts w"
  by (auto elim!: go_step.cases simp: sendUpdatesToAggrChannel_def split: option.splits)

lemma evolves_one:
  assumes "heap g a = Some w" and "rw_name w' = rw_name w" "rw_poolName w' = rw_poolName w" "rw_restarts w' = rw_restarts w"
    and "heap g' = (heap g)(a \<mapsto> w')" "nextAddr g' = nextAddr g"
  shows "evolves (sys_ops S) rw_name rw_poolName g g'"
  using assms by (auto simp: evolves_def same_worker_def Restarts_r_def)

lemma sys_step_inv:
  assumes laws: "gocmd_laws S"
  shows "sys_step S st st' \<Longrightarrow> sys_inv S st \<Longrightarrow> sys_inv S st'"
proof (induction rule: sys_step.induct)
  case (recv_main st xs x ys e st')
  then show ?case by (blast intro: recv_main_inv [OF laws])
next
  case (recv_shutdown st xs x ys e st')
  then show ?case by (blast intro: recv_shutdown_inv [OF laws])
next
  case (context_done st ns st')
  then show ?case by (blast intro: ctx_done_inv [OF laws])
next
  case (os_signal st)
  then show ?case by (auto simp: sys_inv_def sup_inv_def)
next
  case (goroutine st xs x ys a w w' zs)
  let ?g = "(wld st)\<lparr>heap := (heap (wld st))(a \<mapsto> w'), gos := xs @ zs @ ys\<rparr>"
  have "sys_sup_inv S (st\<lparr>wld := ?g\<rparr>)"
  proof (rule sup_inv_world)
    show "evolves (sys_ops S) rw_name rw_poolName (wld st) ?g"
      using goroutine go_step_same [OF goroutine(4)] by (intro evolves_one [of _ a w w']) auto
  qed (use goroutine in \<open>simp_all add: sys_inv_def\<close>)
  with goroutine core_goroutine [OF laws _ goroutine(1-4)] show ?case by (simp add: sys_inv_def)
next
  case (process st a w c)
  let ?g = "(wld st)\<lparr>heap := (heap (wld st))(a \<mapsto> w\<lparr>rw_cmd := c\<rparr>)\<rparr>"
  have "sys_sup_inv S (st\<lparr>wld := ?g\<rparr>)"
  proof (rule sup_inv_world)
    show "evolves (sys_ops S) rw_name rw_poolName (wld st) ?g"
      using process by (intro evolves_one [of _ a w "w\<lparr>rw_cmd := c\<rparr>"]) auto
  qed (use process in \<open>simp_all add: sys_inv_def\<close>)
  with process core_calm [OF _ calm_process [OF laws process(1,2)]] show ?case by (simp add: sys_inv_def)
qed

subsection \<open>The first state\<close>

text \<open>Before \<open>RunAll\<close> nobody is watched.\<close>

lemma core_created:
  assumes rows: "\<And>n i. map_of (pools s) n = Some i \<Longrightarrow> new_pool (sys_ops S) rw_name rw_poolName g n i"
    and ow: "all_owned (pools s) g" and gs: "stream_loops (gos g)"
    and d: "distinct (keys (pools s))"
  shows "core (s_cmd S) {(n, k). known (shape_of s) n k}
           (\<lambda>n. case shape_of s n of None \<Rightarrow> 0 | Some (ws, r) \<Rightarrow> int (length ws)) (shape_of s) g"
proof -
  have t0: "tok (gos g) n k a = 0" for n k a
    using gs by (auto simp: tok_def filter_empty_conv stream_loops_def)
  have entry: "\<exists>w. heap g a = Some w \<and> rw_name w = k \<and> rw_poolName w = n \<and> lim_ok w" if cu: "cur (shape_of s) n k a" for n k a
  proof -
    from cu obtain i where i: "map_of (pools s) n = Some i" "map_of (workers (pi_pool i)) k = Some a"
      by (auto simp: cur_def shape_of_def)
    from rows [OF i(1)] have p: "prepared_inv (sys_ops S) rw_name rw_poolName (pi_pool i) g" "poolName (pi_pool i) = n"
      "fresh_workers (sys_ops S) (pi_pool i) g" by (simp_all add: new_pool_def new_row_def)
    from p(1) i(2) obtain w where w: "heap g a = Some w" "entry_ok (sys_ops S) rw_name rw_poolName (pi_pool i) k w"
      unfolding prepared_inv_def pool_inv_def by blast
    from p(3) i(2) map_of_in_keys [OF i(2)] obtain v where "heap g a = Some v" "brand_new (sys_ops S) v"
      unfolding fresh_workers_def by (metis option.inject)
    with w have "brand_new (sys_ops S) w" by simp
    then have "lim_ok w"
      by (auto simp: brand_new_def NewProdWorker_def conf_ok_def lim_ok_def dest!: newWorkerInstance_Ret)
    with w p(2) show ?thesis by (auto simp: entry_ok_def)
  qed
  have mem: "map_of (pools s) (fst ni) = Some (snd ni)" if "ni \<in> set (pools s)" for ni
    using d that by (cases ni) (simp add: keys_def)
  have own: "\<exists>n k. cur (shape_of s) n k a" if a: "heap g a \<noteq> None" for a
  proof -
    from ow a obtain ni ka where ni: "ni \<in> set (pools s)" "ka \<in> set (workers (pi_pool (snd ni)))" "snd ka = a"
      unfolding all_owned_def owned_addrs_def by blast
    have "distinct (keys (workers (pi_pool (snd ni))))"
      using rows [OF mem [OF ni(1)]] by (simp add: new_pool_def new_row_def prepared_inv_def pool_inv_def)
    then have "map_of (workers (pi_pool (snd ni))) (fst ka) = Some a" using ni(2,3) by (cases ka) (simp add: keys_def)
    with mem [OF ni(1)] have "cur (shape_of s) (fst ni) (fst ka) a" by (simp add: cur_def shape_of_def)
    then show ?thesis by blast
  qed
  have "heap_ok (shape_of s) g"
    unfolding heap_ok_def
  proof (intro allI impI)
    fix a w assume w: "heap g a = Some w"
    from own [of a] w obtain n k where cu: "cur (shape_of s) n k a" by auto
    from entry [OF cu] w cur_known [OF cu] ow show "a < nextAddr g \<and> known (shape_of s) (rw_poolName w) (rw_name w) \<and> lim_ok w"
      by (auto simp: all_owned_def)
  qed
  moreover have "owners_ok (shape_of s) g"
    unfolding owners_ok_def
  proof (intro conjI allI impI)
    fix n ws r assume "shape_of s n = Some (ws, r)"
    then obtain i where "map_of (pools s) n = Some i" "ws = workers (pi_pool i)" by (auto simp: shape_of_def)
    with rows show "distinct (keys ws)" by (auto simp: new_pool_def new_row_def prepared_inv_def pool_inv_def)
  qed (use entry in blast)
  moreover have "go_ok (shape_of s) g x" if "x \<in> set (gos g)" for x
    using that gs by (auto simp: stream_loops_def)
  moreover have "live_ok (s_cmd S) {(n, k). known (shape_of s) n k} (shape_of s) g"
    by (simp add: live_ok_def watch_ok_def t0 cur_known)
  moreover have "counts_ok (\<lambda>n. case shape_of s n of None \<Rightarrow> 0 | Some (ws, r) \<Rightarrow> int (length ws)) (shape_of s) g"
    unfolding counts_ok_def
  proof (intro allI impI)
    fix n ws r assume n: "shape_of s n = Some (ws, r)"
    then obtain i where i: "map_of (pools s) n = Some i" "ws = workers (pi_pool i)" "r = runningProcesses i"
      by (auto simp: shape_of_def)
    from rows [OF i(1)] have "r = int (card (set (keys ws)))" "distinct (keys ws)"
      by (simp_all add: i new_pool_def new_row_def pool_ids_def prepared_inv_def pool_inv_def)
    then have "r = int (length ws)" by (metis distinct_card length_keys)
    with n show "r = live_count (gos g) n ws + (case shape_of s n of None \<Rightarrow> 0 | Some (ws, r) \<Rightarrow> int (length ws))"
      by (simp add: live_count_def t0)
  qed
  ultimately show ?thesis by (simp add: core_def)
qed

lemma core_run:
  assumes c: "core (s_cmd S) U d sh g" and cu: "cur sh n k a" and U: "(n, k) \<in> U"
    and ret: "on_worker (Run_r (s_cmd S)) a g = Ret g'"
  shows "core (s_cmd S) (U - {(n, k)}) (d(n := d n - 1)) sh g'"
proof -
  from ret obtain w where w: "heap g a = Some w"
    and g': "g' = apply_effects (snd (Run_r (s_cmd S) a w)) (g\<lparr>heap := (heap g)(a \<mapsto> fst (Run_r (s_cmd S) a w))\<rparr>)"
    by (auto simp: on_worker_eq_Ret)
  have lw: "lim_ok w" using coreD(1) [OF c] w by (simp add: heap_ok_def)
  define zs where "zs = (if rw_lifespan w \<noteq> None then [RunMonitor LifespanLim a] else [])"
  show ?thesis
  proof (rule core_started [OF c cu U w])
    show "gos g' = gos g @ WatchExit a # zs" using lw by (simp add: g' Run_r_def zs_def lim_ok_def)
    show "lim_ok (fst (Run_r (s_cmd S) a w))" using lw by (simp add: Run_r_def lim_ok_def)
  qed (auto simp: g' Run_r_def zs_def)
qed

lemma run_loop_core:
  assumes "run_loop (sys_ops S) sw ks g = Ret g'" and "core (s_cmd S) U d sh g"
    and "\<And>k a. map_of (workers sw) k = Some a \<Longrightarrow> cur sh n k a" and "distinct ks" and "{n} \<times> set ks \<subseteq> U"
  shows "core (s_cmd S) (U - {n} \<times> set ks) (d(n := d n - int (length ks))) sh g'"
  using assms
proof (induction ks arbitrary: U d g)
  case (Cons k ks)
  from Cons.prems(1) obtain a g1 where a: "map_of (workers sw) k = Some a" "on_worker (Run_r (s_cmd S)) a g = Ret g1"
    and l: "run_loop (sys_ops S) sw ks (upd_mets (AddRunningStats (poolName sw) 1) g1) = Ret g'" by auto
  have c1: "core (s_cmd S) (U - {(n, k)}) (d(n := d n - 1)) sh g1"
    using Cons.prems(5) by (intro core_run [OF Cons.prems(2) Cons.prems(3) [OF a(1)] _ a(2)]) simp
  have "calm (s_cmd S) g1 (upd_mets (AddRunningStats (poolName sw) 1) g1)" by (rule calm_same) simp_all
  note c2 = core_calm [OF c1 this]
  have "{n} \<times> set ks \<subseteq> U - {(n, k)}" using Cons.prems(4,5) by auto
  with Cons.prems(4) have
    "core (s_cmd S) (U - {(n, k)} - {n} \<times> set ks)
       ((d(n := d n - 1))(n := (d(n := d n - 1)) n - int (length ks))) sh g'"
    by (intro Cons.IH [OF l c2 Cons.prems(3)]) simp_all
  moreover have "U - {(n, k)} - {n} \<times> set ks = U - {n} \<times> set (k # ks)" by auto
  moreover have "(d(n := d n - 1))(n := (d(n := d n - 1)) n - int (length ks)) = d(n := d n - int (length (k # ks)))" by auto
  ultimately show ?case by (simp add: fun_upd_def)
qed simp

lemma for_pools_RunAll_core:
  assumes "for_pools (p_RunAll (sys_pools S)) ns s g = Ret (s', g')" and "core (s_cmd S) U d (shape_of s) g"
    and "distinct ns" and "\<And>n i. map_of (pools s) n = Some i \<Longrightarrow> n \<in> set ns \<Longrightarrow>
           {n} \<times> set (keys (workers (pi_pool i))) \<subseteq> U \<and> d n = int (length (workers (pi_pool i))) \<and> distinct (keys (workers (pi_pool i)))"
  shows "s' = s \<and> (\<exists>d'. core (s_cmd S) {(n, k). (n, k) \<in> U \<and> (n \<in> set ns \<longrightarrow> \<not> known (shape_of s) n k)} d' (shape_of s) g' \<and>
           (\<forall>n. d' n = (if n \<in> set ns then 0 else d n)))"
  using assms
proof (induction ns arbitrary: U d g)
  case Nil
  then show ?case by auto
next
  case (Cons n ns)
  from Cons.prems(1) obtain i g1 where i: "map_of (pools s) n = Some i"
    and p1: "run_loop (sys_ops S) (pi_pool i) (arrange (s_ordR S (pi_pool i)) (workers (pi_pool i))) g = Ret g1"
    and l: "for_pools (p_RunAll (sys_pools S)) ns s g1 = Ret (s', g')"
    by (auto simp: on_pool_def RunAll_def set_pool_same simp del: for_pools.simps(2) split: prod.splits
        intro: that simp: for_pools.simps(2))
  define ws where "ws = workers (pi_pool i)"
  define ks where "ks = arrange (s_ordR S (pi_pool i)) ws"
  have pre: "{n} \<times> set (keys ws) \<subseteq> U" "d n = int (length ws)" "distinct (keys ws)"
    using Cons.prems(4) [OF i] by (simp_all add: ws_def)
  have ks: "set ks = set (keys ws)" "distinct ks"
    using range_order_set [OF range_order_arrange] range_order_distinct [OF range_order_arrange pre(3)] by (simp_all add: ks_def)
  then have len: "length ks = length ws" using pre(3) by (metis distinct_card length_keys)
  define U1 d1 where "U1 = U - {n} \<times> set ks" and "d1 = d(n := 0)"
  have "core (s_cmd S) U1 (d(n := d n - int (length ks))) (shape_of s) g1"
    unfolding U1_def
    by (rule run_loop_core [OF p1 [folded ws_def, folded ks_def] Cons.prems(2)])
      (use i ks pre in \<open>auto simp: cur_def shape_of_def ws_def\<close>)
  then have c1: "core (s_cmd S) U1 d1 (shape_of s) g1" using pre(2) len by (simp add: d1_def)
  have kn: "known (shape_of s) n k \<longleftrightarrow> k \<in> set ks" for k using i ks by (simp add: known_def shape_of_def ws_def)
  have "s' = s \<and> (\<exists>d'. core (s_cmd S) {(m, k). (m, k) \<in> U1 \<and> (m \<in> set ns \<longrightarrow> \<not> known (shape_of s) m k)} d' (shape_of s) g' \<and>
           (\<forall>m. d' m = (if m \<in> set ns then 0 else d1 m)))"
    using Cons.prems(3,4) by (intro Cons.IH [OF l c1]) (auto simp: U1_def d1_def)
  moreover have "{(m, k). (m, k) \<in> U1 \<and> (m \<in> set ns \<longrightarrow> \<not> known (shape_of s) m k)} =
      {(m, k). (m, k) \<in> U \<and> (m \<in> set (n # ns) \<longrightarrow> \<not> known (shape_of s) m k)}"
    by (auto simp: U1_def kn)
  ultimately show ?case by (auto simp: d1_def)
qed

lemma sys_init_inv:
  assumes "sys_init S config st"
  shows "sys_inv S st"
proof -
  from assms obtain s0 ns dn where m: "\<forall>w\<in>set (Workers config). in64 (wc_MaxRestarts w)" and l: "loc st = MainLoop"
    and s0: "NewSupervisor config False = Inr s0" and ns: "range_order (pools (sup st)) ns"
    and run: "Run_start (s_lib S) (sys_ops S) (sys_pools S) ns dn s0 empty_world = Ret st"
    by (auto simp: sys_init_def)
  have s0': "pools s0 = []" "\<not> terminating s0" "sconfig s0 = config" using s0 by (auto simp: NewSupervisor_def)
  from run l obtain ps tot g1 where
    cr: "createAndPreparePools (s_lib S) (sys_ops S) s0 empty_world = Ret ((ps, tot, None), g1)"
    and fp: "for_pools (p_RunAll (sys_pools S)) ns (s0\<lparr>pools := ps\<rparr>) g1 = Ret (sup st, wld st)"
    and st: "terminatedProcesses st = 0" "allProcesses st = tot"
    by (auto simp: Run_start_def split: if_splits)
  define s1 where "s1 = s0\<lparr>pools := ps\<rparr>"
  from cr have cl: "create_loop (s_lib S) (sys_ops S) (cmdOpts s0) (Workers config) [] 0 empty_world = Ret ((ps, tot, None), g1)"
    by (simp add: createAndPreparePools_def s0')
  have ok: "distinct (keys ps) \<and> (\<forall>n i. map_of ps n = Some i \<longrightarrow> new_pool (sys_ops S) rw_name rw_poolName g1 n i) \<and>
     tot = (\<Sum>i\<leftarrow>map snd ps. totalProcesses i) \<and> all_owned ps g1 \<and> stream_loops (gos g1)"
    using sys.create_loop_ok [OF cl m] by (auto simp: empty_world_def all_owned_def)
  have rows: "new_pool (sys_ops S) rw_name rw_poolName g1 n i" if "map_of (pools s1) n = Some i" for n i
    using ok that by (simp add: s1_def)
  have d1: "distinct (keys (pools s1))" using ok by (simp add: s1_def)
  have fp1: "for_pools (p_RunAll (sys_pools S)) ns s1 g1 = Ret (sup st, wld st)" using fp by (simp add: s1_def)
  have dw: "distinct (keys (workers (pi_pool i)))" if "map_of (pools s1) n = Some i" for n i
    using rows [OF that] by (simp add: new_pool_def new_row_def prepared_inv_def pool_inv_def)
  have keq: "keys (pools (sup st)) = keys (pools s1)" using for_pools_keys [OF fp1] .
  have ns': "distinct ns" "set ns = set (keys (pools s1))"
    using range_order_set [OF ns] range_order_distinct [OF ns] d1 keq by simp_all
  have new: "if n \<in> set ns then new_row (prepared_inv (sys_ops S) rw_name rw_poolName) pool_ids poolName g1 n i
      else pool_row (prepared_inv (sys_ops S) rw_name rw_poolName) pool_ids poolName 0 g1 n i"
    if "map_of (pools s1) n = Some i" for n i
    using rows [OF that] map_of_in_keys [OF that] ns'(2) by (simp add: new_pool_def)
  note sup = sys_pool.for_pools_RunAll [OF fp1 ns'(1) d1 new]
  have c1: "core (s_cmd S) {(n, k). known (shape_of s1) n k}
      (\<lambda>n. case shape_of s1 n of None \<Rightarrow> 0 | Some (ws, r) \<Rightarrow> int (length ws)) (shape_of s1) g1"
    using ok d1 by (intro core_created rows) (simp_all add: s1_def)
  have "sup st = s1 \<and> (\<exists>d'. core (s_cmd S) {(n, k). (n, k) \<in> {(n, k). known (shape_of s1) n k} \<and>
        (n \<in> set ns \<longrightarrow> \<not> known (shape_of s1) n k)} d' (shape_of s1) (wld st) \<and>
      (\<forall>n. d' n = (if n \<in> set ns then 0 else (case shape_of s1 n of None \<Rightarrow> 0 | Some (ws, r) \<Rightarrow> int (length ws)))))"
    using dw by (intro for_pools_RunAll_core [OF fp1 c1 ns'(1)]) (auto simp: known_def shape_of_def)
  then obtain d' where sup1: "sup st = s1" and c2: "core (s_cmd S) {(n, k). known (shape_of s1) n k \<and>
        (n \<in> set ns \<longrightarrow> \<not> known (shape_of s1) n k)} d' (shape_of s1) (wld st)"
    and d': "\<forall>n. d' n = (if n \<in> set ns then 0 else (case shape_of s1 n of None \<Rightarrow> 0 | Some (ws, r) \<Rightarrow> int (length ws)))"
    by auto
  have "{(n, k). known (shape_of s1) n k \<and> (n \<in> set ns \<longrightarrow> \<not> known (shape_of s1) n k)} = {}"
    using ns'(2) by (auto simp: known_def shape_of_def dest: map_of_in_keys)
  moreover have "d' = (\<lambda>_. 0)"
    using d' ns'(2) by (auto simp: fun_eq_iff shape_of_def split: option.split dest: map_of_in_keys)
  ultimately have c: "core (s_cmd S) {} (\<lambda>_. 0) (shape_of (sup st)) (wld st)" using c2 sup1 by (simp only:)
  have t0: "terminated_sum s1 = 0"
  proof -
    have "totalProcesses (snd ni) - runningProcesses (snd ni) = 0" if "ni \<in> set (pools s1)" for ni
      using rows [of "fst ni" "snd ni"] that d1 by (cases ni) (simp add: keys_def new_pool_def new_row_def)
    then have "terminated_sum s1 = (\<Sum>ni\<leftarrow>pools s1. 0)"
      unfolding terminated_sum_def by (simp add: comp_def cong: map_cong)
    then show ?thesis by simp
  qed
  have "active (sup st)" using rows by (auto simp: active_def sup1 new_pool_def)
  moreover have "sys_sup_inv S st"
    using sup t0 st l ok s0'(2) by (simp add: sup_inv_def s1_def total_sum_def)
  ultimately show ?thesis using c l by (simp add: sys_inv_def)
qed

lemma reachable_inv: "gocmd_laws S \<Longrightarrow> reachable S config st \<Longrightarrow> sys_inv S st"
  by (rotate_tac 1, induction rule: reachable.induct) (auto intro: sys_init_inv sys_step_inv)

end
