(* ===== verification/System_Properties.thy ===== *)
theory System_Properties
  imports System_Safety Samples
begin

text \<open>
  What the invariant of the whole program gives: clean returns, no lost process, exact
  gauges, no panic in the handlers, no restart during shutdown, the restart budget.
\<close>

subsection \<open>Handlers and nil pointers\<close>

lemma known_pool:
  assumes "known (shape_of s) n k"
  shows "\<exists>i. map_of (pools s) n = Some i \<and> k \<in> pool_ids (pi_pool i)"
  using assms by (auto simp: known_def shape_of_def pool_ids_def)

lemma on_pool_total:
  assumes "map_of (pools s) n = Some i" and "\<exists>p g'. f (pi_pool i) g = Ret (p, g')"
  shows "\<exists>s' g'. on_pool f n s g = Ret (s', g')"
  using assms by (auto simp: on_pool_def)

lemma other_event_total:
  assumes inv: "sys_sup_inv S st" and kn: "known (shape_of (sup st)) (ev_Pool e) (ev_Id e)"
  shows "\<exists>s' g'. other_event b (sys_pools S) e (sup st) (wld st) = Ret (s', g')"
proof -
  from known_pool [OF kn] obtain i where i: "map_of (pools (sup st)) (ev_Pool e) = Some i"
    and k: "ev_Id e \<in> pool_ids (pi_pool i)" by blast
  have p: "prepared_inv (sys_ops S) rw_name rw_poolName (pi_pool i) (wld st)" using sup_inv_row [OF inv i] by simp
  have int: "\<exists>s' g'. on_pool (p_InterruptWorker (sys_pools S) (ev_Id e)) (ev_Pool e) (sup st) (wld st) = Ret (s', g')"
    by (rule on_pool_total [OF i]) (rule sys_pool.interrupt_worker_total [OF p k])
  have frc: "\<exists>s' g'. on_pool (p_ForceTerminateWorker (sys_pools S) (ev_Id e)) (ev_Pool e) (sup st) (wld st) = Ret (s', g')"
    by (rule on_pool_total [OF i]) (rule sys_pool.force_terminate_total [OF p k])
  show ?thesis
    using int frc
    by (auto simp: other_event_def handleProcessNeedsInterrupt_def handleProcessNeedsTermination_def
        handleProcessExceededLimit_def simp del: sys_pools_sel split: EventType.split)
qed

lemma other_event_received:
  assumes "sys_sup_inv S st" and "known (shape_of (sup st)) (ev_Pool e) (ev_Id e)"
  shows "\<exists>s' g'. other_event b (sys_pools S) e (sup st) (received x ((wld st)\<lparr>gos := gs\<rparr>)) = Ret (s', g')"
  using other_event_total [OF sup_inv_receive [OF assms(1)], of x gs e b] assms(2) by simp

lemma termination_total:
  assumes p: "prepared_inv (sys_ops S) rw_name rw_poolName (pi_pool i) g" and i: "map_of (pools s) (ev_Pool e) = Some i"
  shows "\<exists>s' g'. handleProcessTerminationDuringShutdown (sys_pools S) e s g = Ret (s', g')"
proof (cases "HasProxy (pi_pool i)")
  case True
  with sys_pool.proxy_id [OF p] have "ProxyId \<in> pool_ids (pi_pool i)" by simp
  from sys_pool.interrupt_worker_total [OF p this] i show ?thesis
    by (auto simp: handleProcessTerminationDuringShutdown_def Let_def)
qed (use i in \<open>simp add: handleProcessTerminationDuringShutdown_def Let_def\<close>)

text \<open>The end of a process finds its worker terminated, so the wait for its logs does not fail.\<close>

lemma wait_no_error:
  assumes inv: "sys_sup_inv S st" and c: "core (s_cmd S) {} (\<lambda>_. 0) (shape_of (sup st)) (wld st)"
    and x: "gos (wld st) = xs @ SendEvent e # ys" "ev_Type e = ProcessEnd"
    and i: "map_of (pools (sup st)) (ev_Pool e) = Some i" and k: "ev_Id e \<in> pool_ids (pi_pool i)"
  shows "WaitForWorkerToCleanBuffer (sys_ops S) (ev_Id e) (pi_pool i) ((wld st)\<lparr>gos := xs @ ys\<rparr>) \<in> {Ret None, Block}"
proof -
  obtain a where a: "map_of (workers (pi_pool i)) (ev_Id e) = Some a" using k by (auto simp: pool_ids_def in_keys_map_of)
  with i have "cur (shape_of (sup st)) (ev_Pool e) (ev_Id e) a" by (simp add: cur_def shape_of_def)
  from core_receive_end(2) [OF c x this] obtain w where "heap (wld st) a = Some w" "cmd_done (s_cmd S) (rw_cmd w)"
    by (auto simp: finished_def)
  with a show ?thesis
    by (auto simp: WaitForWorkerToCleanBuffer_def WaitForWorkerToCleanBuffer_r_def Status_r_def cmd_done_def)
qed

lemma end_no_panic:
  assumes inv: "sys_sup_inv S st" and c: "core (s_cmd S) {} (\<lambda>_. 0) (shape_of (sup st)) (wld st)"
    and x: "gos (wld st) = xs @ SendEvent e # ys" "ev_Type e = ProcessEnd"
  obtains (blocked) "handleProcessEnd (sys_pools S) e (sup st) ((wld st)\<lparr>gos := xs @ ys\<rparr>) = Block"
  | (terminating) g1 err where "terminating (sup st)" "err \<noteq> None"
      "handleProcessEnd (sys_pools S) e (sup st) ((wld st)\<lparr>gos := xs @ ys\<rparr>) = Ret (err, sup st, g1)"
      "evolves (sys_ops S) rw_name rw_poolName (wld st) g1"
  | (restarting) i where "\<not> terminating (sup st)" "map_of (pools (sup st)) (ev_Pool e) = Some i"
      "handleProcessEnd (sys_pools S) e (sup st) ((wld st)\<lparr>gos := xs @ ys\<rparr>) =
         obind (RestartWorker (s_lib S) (sys_ops S) (cmdOpts (sup st)) (ev_Id e) (pi_pool i)
                  (upd_mets (DecrementRunningIncrementTerminated (ev_Pool e)) ((wld st)\<lparr>gos := xs @ ys\<rparr>)))
           (\<lambda>(err, p, g2). Ret (err, set_pool (ev_Pool e) p (sup st), g2))"
proof -
  have "known (shape_of (sup st)) (ev_Pool e) (ev_Id e)" using coreD(3) [OF c, of "SendEvent e"] x(1) by simp
  from known_pool [OF this] obtain i where i: "map_of (pools (sup st)) (ev_Pool e) = Some i"
    and k: "ev_Id e \<in> pool_ids (pi_pool i)" by blast
  let ?g = "(wld st)\<lparr>gos := xs @ ys\<rparr>"
  from wait_no_error [OF inv c x i k] consider
    "WaitForWorkerToCleanBuffer (sys_ops S) (ev_Id e) (pi_pool i) ?g = Block"
    | "WaitForWorkerToCleanBuffer (sys_ops S) (ev_Id e) (pi_pool i) ?g = Ret None" by auto
  then show ?thesis
  proof cases
    case 1
    with i show ?thesis by (intro blocked) (simp add: handleProcessEnd_def)
  next
    case 2
    have "evolves (sys_ops S) rw_name rw_poolName (wld st) (upd_mets (DecrementRunningIncrementTerminated (ev_Pool e)) ?g)"
      by (rule evolves_same_heap) simp_all
    note ev = this
    show ?thesis
    proof (cases "terminating (sup st)")
      case True
      with 2 i ev show ?thesis by (intro terminating) (auto simp: handleProcessEnd_def Let_def)
    next
      case False
      with 2 i show ?thesis by (intro restarting) (simp_all add: handleProcessEnd_def Let_def)
    qed
  qed
qed


lemma main_event_panic:
  assumes inv: "sys_inv S st" and l: "loc st = MainLoop"
    and x: "gos (wld st) = xs @ x # ys" "sends x = Some e"
    and p: "main_event (sys_pools S) e (st\<lparr>wld := received x ((wld st)\<lparr>gos := xs @ ys\<rparr>)\<rparr>) = Panic m"
  shows "\<exists>i g. map_of (pools (sup st)) (ev_Pool e) = Some i \<and>
           RestartWorker (s_lib S) (sys_ops S) (cmdOpts (sup st)) (ev_Id e) (pi_pool i) g = Panic m"
proof -
  from inv have sup: "sys_sup_inv S st" and c: "core (s_cmd S) {} (\<lambda>_. 0) (shape_of (sup st)) (wld st)"
    by (simp_all add: sys_inv_def)
  let ?st = "st\<lparr>wld := received x ((wld st)\<lparr>gos := xs @ ys\<rparr>)\<rparr>"
  have kn: "known (shape_of (sup st)) (ev_Pool e) (ev_Id e)"
    using coreD(3) [OF c, of x] x by (cases x) auto
  show ?thesis
  proof (cases "ev_Type e = ProcessEnd")
    case False
    with other_event_received [OF sup kn, of False x "xs @ ys"] p show ?thesis
      by (auto simp: main_event_def)
  next
    case True
    with end_sender [OF c x] have xe: "x = SendEvent e" and cmd: "ev_Cmd e \<noteq> None" by simp_all
    show ?thesis using sup c x(1) [unfolded xe] True
    proof (cases rule: end_no_panic)
      case blocked
      with p True show ?thesis by (simp add: main_event_def xe)
    next
      case (terminating g1 err)
      with l sup show ?thesis by (simp add: sup_inv_def)
    next
      case (restarting i)
      let ?g = "upd_mets (DecrementRunningIncrementTerminated (ev_Pool e)) ((wld st)\<lparr>gos := xs @ ys\<rparr>)"
      let ?r = "RestartWorker (s_lib S) (sys_ops S) (cmdOpts (sup st)) (ev_Id e) (pi_pool i) ?g"
      show ?thesis
      proof (cases ?r)
        case (Ret r)
        obtain err pl g2 where r: "r = (err, pl, g2)" by (cases r)
        have i: "map_of (pools (sup st)) (ev_Pool e) = Some i" by (rule restarting)
        have "prepared_inv (sys_ops S) rw_name rw_poolName (pi_pool i) ?g"
          by (rule sys_pool.pinv_ev [OF _ evolves_same_heap]) (use sup_inv_row [OF sup i] in simp_all)
        from sys_pool.restart [OF this] Ret r
        have k: "prepared_inv (sys_ops S) rw_name rw_poolName pl g2" by (simp add: pool_keeps_def)
        have i': "map_of (pools (set_pool (ev_Pool e) pl (sup st))) (ev_Pool e) = Some (i\<lparr>pi_pool := pl\<rparr>)"
          using i by (simp add: set_pool_Some)
        from termination_total [OF _ i', of S g2] k show ?thesis using p True restarting Ret r cmd
          by (auto simp: main_event_def xe obind_eq_Panic_iff split: if_splits)
      next
        case (Panic m')
        with p True restarting show ?thesis by (auto simp: main_event_def xe)
      next
        case Block
        with p True restarting show ?thesis by (auto simp: main_event_def xe)
      qed
    qed
  qed
qed

lemma shutdown_event_no_panic:
  assumes inv: "sys_inv S st" and l: "loc st = ShutdownLoop"
    and x: "gos (wld st) = xs @ x # ys" "sends x = Some e"
  shows "shutdown_event (sys_pools S) e (st\<lparr>wld := received x ((wld st)\<lparr>gos := xs @ ys\<rparr>)\<rparr>) \<noteq> Panic m"
proof -
  from inv have sup: "sys_sup_inv S st" and c: "core (s_cmd S) {} (\<lambda>_. 0) (shape_of (sup st)) (wld st)"
    by (simp_all add: sys_inv_def)
  have kn: "known (shape_of (sup st)) (ev_Pool e) (ev_Id e)"
    using coreD(3) [OF c, of x] x by (cases x) auto
  from known_pool [OF kn] obtain i where i: "map_of (pools (sup st)) (ev_Pool e) = Some i" by blast
  show ?thesis
  proof (cases "ev_Type e = ProcessEnd")
    case False
    with other_event_received [OF sup kn, of True x "xs @ ys"] show ?thesis
      by (auto simp: shutdown_event_def obind_eq_Panic_iff)
  next
    case True
    with end_sender [OF c x] have xe: "x = SendEvent e" by simp
    show ?thesis using sup c x(1) [unfolded xe] True
    proof (cases rule: end_no_panic)
      case (terminating g1 err)
      have "prepared_inv (sys_ops S) rw_name rw_poolName (pi_pool i) g1"
        using sup_inv_row [OF sup i] sys_pool.pinv_ev [OF _ terminating(4)] by blast
      from termination_total [OF this i] terminating True show ?thesis
        by (auto simp: shutdown_event_def xe obind_eq_Panic_iff)
    next
      case (restarting i)
      with l sup show ?thesis by (simp add: sup_inv_def)
    qed (use True in \<open>simp add: shutdown_event_def xe\<close>)
  qed
qed

subsection \<open>Counting\<close>

lemma reachable_row:
  assumes laws: "gocmd_laws S" and re: "reachable S config st" and i: "map_of (pools (sup st)) n = Some i"
  shows "gauge (mets (wld st)) n stateRunning = runningProcesses i"
    and "gauge (mets (wld st)) n stateTerminated = totalProcesses i - runningProcesses i"
    and "totalProcesses i = int (length (workers (pi_pool i)))"
    and "runningProcesses i = live_count (gos (wld st)) n (workers (pi_pool i))"
    and "\<And>k a. (k, a) \<in> set (workers (pi_pool i)) \<Longrightarrow> watch_ok (s_cmd S) {} (wld st) n k a"
proof -
  from reachable_inv [OF laws re] have sup: "sys_sup_inv S st"
    and c: "core (s_cmd S) {} (\<lambda>_. 0) (shape_of (sup st)) (wld st)" by (simp_all add: sys_inv_def)
  from sup i show "gauge (mets (wld st)) n stateRunning = runningProcesses i"
    "gauge (mets (wld st)) n stateTerminated = totalProcesses i - runningProcesses i"
    by (simp_all add: sup_inv_def pools_ok_def pool_row_def)
  have "distinct (keys (workers (pi_pool i)))"
    using sup_inv_row [OF sup i] by (simp add: prepared_inv_def pool_inv_def)
  then have "card (pool_ids (pi_pool i)) = length (keys (workers (pi_pool i)))"
    by (simp add: pool_ids_def distinct_card del: length_keys)
  with sup_inv_row [OF sup i] show "totalProcesses i = int (length (workers (pi_pool i)))" by simp
  show "runningProcesses i = live_count (gos (wld st)) n (workers (pi_pool i))"
    using coreD(5) [OF c shape_pool [OF i]] by simp
  show "watch_ok (s_cmd S) {} (wld st) n k a" if "(k, a) \<in> set (workers (pi_pool i))" for k a
    using coreD(4) [OF c cur_of_mem [OF coreD(2) [OF c] shape_pool [OF i] that]] .
qed

lemma sum_le_length:
  fixes f :: "'a \<Rightarrow> int"
  assumes "\<And>x. x \<in> set xs \<Longrightarrow> f x \<le> 1"
  shows "(\<Sum>x\<leftarrow>xs. f x) \<le> int (length xs)"
  using assms by (induction xs) (simp, fastforce)

lemma tok_unfinished:
  assumes "watch_ok G {} g n k a" and "heap g a = Some w" and "Status_r G w \<noteq> Terminated"
  shows "tok (gos g) n k a = 1"
proof -
  have "WatchExit a \<in> set (gos g)" and le: "tok (gos g) n k a \<le> 1"
    using assms by (auto simp: watch_ok_def finished_def Status_r_Terminated)
  from tok_WatchExit [OF this(1), of n k] le show ?thesis by simp
qed

text \<open>In the shutdown loop nothing is created.\<close>

lemma Run_finish_sel [simp]: "sup (Run_finish P st) = sup st" "wld (Run_finish P st) = wld st"
  by (simp_all add: Run_finish_def Let_def)

lemma handleProcessEnd_terminating:
  "terminating s \<Longrightarrow> handleProcessEnd P e s g = Ret (err, s1, g1) \<Longrightarrow>
     err \<noteq> None \<and> s1 = s \<and> g1 = upd_mets (DecrementRunningIncrementTerminated (ev_Pool e)) g"
  by (auto simp: handleProcessEnd_def Let_def split: if_splits)

lemma shutdown_event_end:
  assumes "terminating (sup st)" and "ev_Type e = ProcessEnd" and "shutdown_event P e st = Ret st'"
  shows "handleProcessTerminationDuringShutdown P e (sup st)
           (upd_mets (DecrementRunningIncrementTerminated (ev_Pool e)) (wld st)) = Ret (sup st', wld st')"
proof -
  from assms(2,3) obtain err s1 g1 where h: "handleProcessEnd P e (sup st) (wld st) = Ret (err, s1, g1)"
    by (auto simp: shutdown_event_def)
  from assms(2,3) h handleProcessEnd_terminating [OF assms(1) h] show ?thesis
    by (auto simp: shutdown_event_def split: if_splits)
qed

lemma shutdown_event_other:
  assumes "ev_Type e \<noteq> ProcessEnd" and "shutdown_event P e st = Ret st'"
  shows "other_event True P e (sup st) (wld st) = Ret (sup st', wld st')"
  using assms by (auto simp: shutdown_event_def split: if_splits)

lemma shutdown_step_frame:
  assumes laws: "gocmd_laws S" and t: "terminating (sup st)"
    and ret: "shutdown_event (sys_pools S) e st = Ret st'"
  shows "terminating (sup st') \<and> nextAddr (wld st') = nextAddr (wld st) \<and>
     map_option fst \<circ> shape_of (sup st') = map_option fst \<circ> shape_of (sup st)"
proof (cases "ev_Type e = ProcessEnd")
  case True
  from termination_step [OF laws shutdown_event_end [OF t True ret]] t show ?thesis
    by (auto simp: calm_def shape_of_def fun_eq_iff)
next
  case False
  from other_event_calm [OF laws shutdown_event_other [OF False ret]] t show ?thesis by (auto simp: calm_def)
qed

subsection \<open>Properties\<close>

lemma returned_clean:
  assumes laws: "gocmd_laws S" and re: "reachable S config st" and l: "loc st = Returned err"
  shows "err = None \<and> terminatedProcesses st = allProcesses st \<and>
     (\<forall>ni\<in>set (pools (sup st)). PoolTerminated (sys_ops S) (pi_pool (snd ni)) (wld st))"
proof -
  from reachable_inv [OF laws re] l have sup: "sys_sup_inv S st" and eq: "terminatedProcesses st = allProcesses st"
    and c: "core (s_cmd S) {} (\<lambda>_. 0) (shape_of (sup st)) (wld st)" and err: "err = None" by (auto simp: sys_inv_def)
  have d: "distinct (keys (pools (sup st)))" using sup by (simp add: sup_inv_def pools_ok_def)
  have "PoolTerminated (sys_ops S) (pi_pool (snd ni)) (wld st)" if "ni \<in> set (pools (sup st))" for ni
  proof -
    obtain n i where ni: "ni = (n, i)" by fastforce
    with that d have i: "map_of (pools (sup st)) n = Some i" by (simp add: keys_def)
    have "finished (s_cmd S) (wld st) (snd ka)" if "ka \<in> set (workers (pi_pool i))" for ka
      using all_counted [OF sup c eq cur_of_mem [OF coreD(2) [OF c] shape_pool [OF i], of "fst ka"]] that by simp
    then show ?thesis
      by (fastforce simp: ni PoolTerminated_def list_all_iff worker_status_def finished_def Status_r_Terminated)
  qed
  with err eq show ?thesis by blast
qed

text \<open>C1: A clean exit: whenever the supervisor's \<open>Run\<close> has returned after starting its pools,
  it returned no error, it counted as many ends as there are processes, and every process of
  every pool has terminated. The error of the final check of \<open>Run\<close> is never returned.\<close>

theorem Run_returns_clean:
  assumes "gocmd_laws S" and "reachable S config st" and "loc st = Returned err"
  shows "err = None \<and> terminatedProcesses st = allProcesses st \<and>
     (\<forall>ni\<in>set (pools (sup st)). PoolTerminated (sys_ops S) (pi_pool (snd ni)) (wld st))"
  using returned_clean [OF assms] .

theorem Run_returns_clean_witness:
  "\<exists>st. exec_run sample sample_config clean_run = Some st \<and> terminatedProcesses st = allProcesses st \<and>
     (\<forall>ni\<in>set (pools (sup st)). PoolTerminated (sys_ops sample) (pi_pool (snd ni)) (wld st))"
proof -
  obtain st where st: "exec_run sample sample_config clean_run = Some st" "loc st = Returned None"
    using clean_run_returns by auto
  from Run_returns_clean [OF sample_laws exec_run_sound [OF st(1) sample_config_in64] st(2)] st(1)
  show ?thesis by blast
qed

text \<open>C2: The gauges are exact: in every reachable state the running gauge of a pool is its
  \<open>runningProcesses\<close>, which is the number of goroutines that are still going to report the
  end of one of its processes; running and terminated add up to the number of its processes, and
  neither is negative.\<close>

theorem gauges_exact:
  assumes laws: "gocmd_laws S" and re: "reachable S config st" and i: "map_of (pools (sup st)) n = Some i"
  shows "gauge (mets (wld st)) n stateRunning = live_count (gos (wld st)) n (workers (pi_pool i)) \<and>
     gauge (mets (wld st)) n stateRunning = runningProcesses i \<and>
     gauge (mets (wld st)) n stateRunning + gauge (mets (wld st)) n stateTerminated = int (length (workers (pi_pool i))) \<and>
     0 \<le> gauge (mets (wld st)) n stateRunning \<and> 0 \<le> gauge (mets (wld st)) n stateTerminated"
proof -
  note r = reachable_row [OF laws re i]
  have "live_count (gos (wld st)) n (workers (pi_pool i)) \<le> int (length (workers (pi_pool i)))"
    unfolding live_count_def using r(5) by (intro sum_le_length) (fastforce simp: watch_ok_def)
  with r(1-4) live_count_nonneg [of "gos (wld st)" n "workers (pi_pool i)"] show ?thesis by simp
qed

theorem gauges_exact_witness:
  "\<exists>st. exec_run sample sample_config started_run = Some st \<and>
     gauge (mets (wld st)) ''p'' stateRunning = 1 \<and> gauge (mets (wld st)) ''p'' stateTerminated = 0"
proof -
  obtain st i w where st: "exec_run sample sample_config started_run = Some st" "reachable sample sample_config st"
    "map_of (pools (sup st)) ''p'' = Some i" "workers (pi_pool i) = [(''p-0'', 0)]"
    "gos (wld st) = [StreamLogsLoop 0, WatchExit 0]" by (rule started_state)
  from gauges_exact [OF sample_laws st(2,3)] st(4,5) have "gauge (mets (wld st)) ''p'' stateRunning = 1"
    "gauge (mets (wld st)) ''p'' stateTerminated = 0" by (simp_all add: live_count_def)
  with st(1) show ?thesis by blast
qed

text \<open>C6: No process is forgotten or reported twice: in every reachable state a worker of a pool
  whose process has not terminated has exactly one goroutine that will report its end to the
  supervisor.\<close>

theorem process_watched_once:
  assumes laws: "gocmd_laws S" and re: "reachable S config st" and i: "map_of (pools (sup st)) n = Some i"
    and a: "map_of (workers (pi_pool i)) k = Some a" and w: "heap (wld st) a = Some w"
    and run: "Status_r (s_cmd S) w \<noteq> Terminated"
  shows "length (filter (\<lambda>x. x = WatchExit a \<or> ends n k x) (gos (wld st))) = 1"
  using tok_unfinished [OF reachable_row(5) [OF laws re i map_of_SomeD [OF a]] w run] by (simp add: tok_def)

theorem process_watched_once_witness:
  "\<exists>st. exec_run sample sample_config started_run = Some st \<and>
     length (filter (\<lambda>x. x = WatchExit 0 \<or> ends ''p'' ''p-0'' x) (gos (wld st))) = 1"
proof -
  obtain st i w where st: "exec_run sample sample_config started_run = Some st" "reachable sample sample_config st"
    "map_of (pools (sup st)) ''p'' = Some i" "workers (pi_pool i) = [(''p-0'', 0)]"
    "heap (wld st) 0 = Some w" "Status_r sample_cmd w = Running" by (rule started_state)
  have "map_of (workers (pi_pool i)) ''p-0'' = Some 0" "Status_r (s_cmd sample) w \<noteq> Terminated"
    using st(4,6) by (simp_all add: sample_def)
  from process_watched_once [OF sample_laws st(2,3) this(1) st(5) this(2)] st(1) show ?thesis by blast
qed



text \<open>C4: Nothing is restarted once the supervisor is terminating: no step of the program creates
  a worker or replaces one, and the supervisor stays terminating.\<close>

theorem no_restart_while_terminating:
  assumes laws: "gocmd_laws S" and re: "reachable S config st" and t: "terminating (sup st)" and step: "sys_step S st st'"
  shows "terminating (sup st') \<and> nextAddr (wld st') = nextAddr (wld st) \<and>
     (\<forall>n. map_option (\<lambda>i. workers (pi_pool i)) (map_of (pools (sup st')) n) =
          map_option (\<lambda>i. workers (pi_pool i)) (map_of (pools (sup st)) n))"
proof -
  have "loc st \<noteq> MainLoop" using reachable_inv [OF laws re] t by (auto simp: sys_inv_def sup_inv_def)
  with step have "terminating (sup st') \<and> nextAddr (wld st') = nextAddr (wld st) \<and>
     map_option fst \<circ> shape_of (sup st') = map_option fst \<circ> shape_of (sup st)"
  proof cases
    case (recv_shutdown xs x ys e)
    from shutdown_step_frame [OF laws _ recv_shutdown(4)] t show ?thesis by (simp add: received_sel)
  qed (use t in auto)
  then show ?thesis by (auto simp: shape_of_def fun_eq_iff option.map_comp comp_def)
qed

theorem no_restart_while_terminating_witness:
  "\<exists>st st'. exec_run sample sample_config reporting_run = Some st \<and> exec_label sample (Receive 0) st = Some st' \<and>
     terminating (sup st') \<and> nextAddr (wld st') = nextAddr (wld st)"
proof -
  obtain st st' where st: "exec_run sample sample_config reporting_run = Some st" "reachable sample sample_config st"
    "terminating (sup st)" "exec_label sample (Receive 0) st = Some st'" by (rule reporting_state)
  from no_restart_while_terminating [OF sample_laws st(2,3) exec_label_sound [OF st(4)]] st(1,4) show ?thesis by blast
qed

text \<open>C10: The restart budget is kept: in every reachable state every worker of a pool carries its
  own name and pool, its restart count is at most the pool's \<open>maxRestarts\<close>, and the proxy's
  count is 0.\<close>

theorem restarts_within_budget:
  assumes laws: "gocmd_laws S" and re: "reachable S config st" and i: "map_of (pools (sup st)) n = Some i"
    and a: "map_of (workers (pi_pool i)) k = Some a"
  shows "\<exists>w. heap (wld st) a = Some w \<and> rw_name w = k \<and> rw_poolName w = n \<and>
     rw_restarts w \<le> maxRestarts (startup (pi_pool i)) \<and> (k = ProxyId \<longrightarrow> rw_restarts w = 0)"
proof -
  have sup: "sys_sup_inv S st" using reachable_inv [OF laws re] by (simp add: sys_inv_def)
  from sup_inv_row [OF sup i] have p: "pool_inv (sys_ops S) rw_name rw_poolName (pi_pool i) (wld st)"
    "poolName (pi_pool i) = n" by (simp_all add: prepared_inv_def)
  then have "0 \<le> maxRestarts (startup (pi_pool i))" by (simp add: pool_inv_def)
  moreover from p a obtain w where "heap (wld st) a = Some w"
    "entry_ok (sys_ops S) rw_name rw_poolName (pi_pool i) k w" unfolding pool_inv_def by blast
  ultimately show ?thesis using p(2) by (auto simp: entry_ok_def Restarts_r_def split: if_splits)
qed

theorem restarts_within_budget_witness:
  "\<exists>st w. exec_run sample sample_config started_run = Some st \<and> heap (wld st) 0 = Some w \<and>
     rw_name w = ''p-0'' \<and> rw_poolName w = ''p''"
proof -
  obtain st i w where st: "exec_run sample sample_config started_run = Some st" "reachable sample sample_config st"
    "map_of (pools (sup st)) ''p'' = Some i" "workers (pi_pool i) = [(''p-0'', 0)]" by (rule started_state)
  then have "map_of (workers (pi_pool i)) ''p-0'' = Some 0" by simp
  from restarts_within_budget [OF sample_laws st(2,3) this] st(1) show ?thesis by blast
qed

end
