(* ===== verification/World_Invariant.thy ===== *)
theory World_Invariant
  imports Pool_Contract
begin

text \<open>
  Invariants of the world alone. Everything the pools and the supervisor do to the heap and
  to the goroutines is one of four things: start a worker the factory made, terminate it, kill
  it, or install a fresh one. The locale \<open>world_invariant\<close> asks a predicate to survive those four, and
  gives that it survives every operation of a pool and every step of the supervisor.
\<close>

locale world_invariant = worker_contract W wid wpool
  for W :: "'w worker_ops" and wid :: "'w \<Rightarrow> string" and wpool :: "'w \<Rightarrow> string" +
  fixes I :: "'w world \<Rightarrow> bool"
  assumes I_frame: "I g \<Longrightarrow> heap g' = heap g \<Longrightarrow> nextAddr g' = nextAddr g \<Longrightarrow> gos g' = gos g \<Longrightarrow> I g'"
    and I_run: "I g \<Longrightarrow> heap g a = Some w \<Longrightarrow> factory W c = Ret w \<Longrightarrow> on_worker (w_Run W) a g = Ret g' \<Longrightarrow> I g'"
    and I_terminate: "I g \<Longrightarrow> on_worker (w_Terminate W d) a g = Ret g' \<Longrightarrow> I g'"
    and I_force: "I g \<Longrightarrow> on_worker (w_ForceTerminateWorker W) a g = Ret g' \<Longrightarrow> I g'"
    and I_install: "I g \<Longrightarrow> installs W wid wpool k n w sw g sw' g' \<Longrightarrow> I g'"
begin

lemma I_upd_mets [simp]: "I g \<Longrightarrow> I (upd_mets f g)"
  by (erule I_frame) simp_all

subsection \<open>Pools\<close>

lemma terminate_loop_I: "terminate_loop W sw ks g = Ret g' \<Longrightarrow> I g \<Longrightarrow> I g'"
proof (induction ks arbitrary: g)
  case (Cons k ks)
  then show ?case by (cases "k = ProxyId") (auto dest: I_terminate)
qed simp

lemma InterruptAll_I: "InterruptAll lib W ks sw g = Ret (sw', g') \<Longrightarrow> I g \<Longrightarrow> I g'"
  by (auto simp: InterruptAll_def Let_def proxyDrain_def split: option.splits elim!: terminate_loop_I intro: I_frame)

lemma InterruptWorker_I: "InterruptWorker W k sw g = Ret (sw', g') \<Longrightarrow> I g \<Longrightarrow> I g'"
  by (auto simp: InterruptWorker_def dest: I_terminate)

lemma ForceTerminateWorker_I: "ForceTerminateWorker W k sw g = Ret (sw', g') \<Longrightarrow> I g \<Longrightarrow> I g'"
  by (auto simp: ForceTerminateWorker_def dest: I_force [OF I_upd_mets])

text \<open>\<open>RunAll\<close> on workers as the factory made them touches no other object.\<close>

lemma run_loop_I:
  assumes "run_loop W sw ks g = Ret g'" and "distinct ks" and "I g"
    and inj: "\<And>k k' a. map_of (workers sw) k = Some a \<Longrightarrow> map_of (workers sw) k' = Some a \<Longrightarrow> k = k'"
    and "\<And>k a. k \<in> set ks \<Longrightarrow> map_of (workers sw) k = Some a \<Longrightarrow> \<exists>w c. heap g a = Some w \<and> factory W c = Ret w"
  shows "I g' \<and> (\<forall>b. (\<forall>k. map_of (workers sw) k \<noteq> Some b) \<longrightarrow> heap g' b = heap g b) \<and> nextAddr g' = nextAddr g"
  using assms(1-3,5)
proof (induction ks arbitrary: g)
  case (Cons k ks)
  from Cons.prems(1) obtain a g1 where a: "map_of (workers sw) k = Some a" "on_worker (w_Run W) a g = Ret g1"
    and l: "run_loop W sw ks (upd_mets (AddRunningStats (poolName sw) 1) g1) = Ret g'" by auto
  from Cons.prems(4) [of k a] a(1) obtain w c where w: "heap g a = Some w" "factory W c = Ret w" by auto
  have I1: "I g1" using I_run [OF Cons.prems(3) w a(2)] .
  have h1: "heap g1 b = heap g b" if "b \<noteq> a" for b using a(2) that by (auto simp: on_worker_eq_Ret)
  have n1: "nextAddr g1 = nextAddr g" using a(2) by (auto simp: on_worker_eq_Ret)
  have "I g' \<and> (\<forall>b. (\<forall>k. map_of (workers sw) k \<noteq> Some b) \<longrightarrow>
      heap g' b = heap (upd_mets (AddRunningStats (poolName sw) 1) g1) b) \<and>
      nextAddr g' = nextAddr (upd_mets (AddRunningStats (poolName sw) 1) g1)"
  proof (rule Cons.IH [OF l])
    fix j b assume j: "j \<in> set ks" "map_of (workers sw) j = Some b"
    with Cons.prems(2) a(1) inj have "b \<noteq> a" by auto
    with Cons.prems(4) [of j b] j h1 show "\<exists>w c. heap (upd_mets (AddRunningStats (poolName sw) 1) g1) b = Some w \<and> factory W c = Ret w"
      by simp
  qed (use Cons.prems(2) I1 in simp_all)
  moreover have "b \<noteq> a" if "\<forall>k. map_of (workers sw) k \<noteq> Some b" for b using that a(1) by metis
  ultimately show ?case using h1 n1 by simp
qed simp

lemma RunAll_I:
  assumes ret: "RunAll W ks sw g = Ret (sw', g')" and ks: "range_order (workers sw) ks" and I: "I g"
    and inv: "pool_inv W wid wpool sw g" and fr: "fresh_workers W sw g"
  shows "sw' = sw \<and> I g' \<and> (\<forall>b. (\<forall>k. map_of (workers sw) k \<noteq> Some b) \<longrightarrow> heap g' b = heap g b) \<and> nextAddr g' = nextAddr g"
proof -
  have l: "run_loop W sw ks g = Ret g'" and sw: "sw' = sw" using ret by (auto simp: RunAll_def)
  have d: "distinct ks" using range_order_distinct [OF ks] inv by (simp add: pool_inv_def)
  have inj: "k = k'" if "map_of (workers sw) k = Some a" "map_of (workers sw) k' = Some a" for k k' a
    using inv that unfolding pool_inv_def by blast
  have fr': "\<exists>w c. heap g a = Some w \<and> factory W c = Ret w" if "map_of (workers sw) k = Some a" for k a
    using fr map_of_in_keys [OF that] that by (fastforce simp: fresh_workers_def brand_new_def)
  from run_loop_I [OF l d I inj fr'] sw show ?thesis by simp
qed

lemma prepareWorkerInternal_I: "prepareWorkerInternal lib W opts k n sw g = Ret (sw', g') \<Longrightarrow> I g \<Longrightarrow> I g'"
  using prepareWorkerInternal_spec I_install by blast

lemma prepareProxy_I:
  assumes "prepareProxy lib W opts sw g = Ret (err, sw', g')" and "I g"
  shows "I g'"
  using prepareProxy_spec [OF assms(1)] assms(2) by (cases err) (auto intro: I_frame I_install)

lemma prepare_loop_I: "prepare_loop lib W opts is sw g = Ret (err, sw', g') \<Longrightarrow> I g \<Longrightarrow> I g'"
proof (induction "is" arbitrary: sw g)
  case (Cons i "is")
  then show ?case
    by (auto simp: Let_def split: if_splits dest!: prepareWorkerInternal_I)
qed simp

lemma PoolPrepareWorkers_I: "PoolPrepareWorkers lib W opts sw g = Ret (err, sw', g') \<Longrightarrow> I g \<Longrightarrow> I g'"
  by (auto simp: PoolPrepareWorkers_def split: if_splits dest: prepare_loop_I prepareProxy_I)

lemma RestartWorker_I:
  assumes "RestartWorker lib W opts k sw g = Ret (err, sw', g')" and "I g"
  shows "I g'"
  using assms(1)
proof (cases rule: RestartWorker_cases)
  case (proxy_error a w0 e)
  with assms(2) show ?thesis by (auto intro: I_frame)
next
  case (restarted a w0 w g1 f)
  from restarted(5) obtain c where w: "heap (upd_mets f g1) (nextAddr g) = Some w" "factory W c = Ret w"
    by (auto simp: installs_def)
  from I_run [OF I_upd_mets w restarted(9)] I_install [OF assms(2) restarted(5)] show ?thesis by blast
qed (use assms(2) in simp_all)

subsection \<open>The supervisor\<close>

lemma create_loop_I: "create_loop lib W opts ws ps tot g = Ret ((ps', tot', None), g') \<Longrightarrow> I g \<Longrightarrow> I g'"
proof (induction ws arbitrary: ps tot g)
  case (Cons c ws)
  from Cons.prems(1) show ?case
  proof (cases rule: create_loop_Cons)
    case (1 pool pool1 g1 px)
    have "I g1" using PoolPrepareWorkers_I [OF 1(3) Cons.prems(2)] .
    then show ?thesis by (intro Cons.IH [OF 1(5)]) simp
  qed
qed simp

lemma on_pool_I:
  "on_pool f n s g = Ret (s', g') \<Longrightarrow> I g \<Longrightarrow> (\<And>p p' h h'. f p h = Ret (p', h') \<Longrightarrow> I h \<Longrightarrow> I h') \<Longrightarrow> I g'"
  by (auto simp: on_pool_def)

lemma for_pools_I:
  assumes "\<And>p p' h h'. f p h = Ret (p', h') \<Longrightarrow> I h \<Longrightarrow> I h'"
  shows "for_pools f ns s g = Ret (s', g') \<Longrightarrow> I g \<Longrightarrow> I g'"
  by (induction ns arbitrary: s g) (auto dest: on_pool_I [OF _ _ assms])

lemma other_event_I:
  "other_event b (worker_pool_ops lib W ordR ordI) e s g = Ret (s', g') \<Longrightarrow> I g \<Longrightarrow> I g'"
  by (auto simp: other_event_def handleProcessNeedsInterrupt_def handleProcessNeedsTermination_def
      handleProcessExceededLimit_def elim!: on_pool_I split: EventType.splits if_splits
      dest: InterruptWorker_I ForceTerminateWorker_I)

lemma termination_I:
  "handleProcessTerminationDuringShutdown (worker_pool_ops lib W ordR ordI) e s g = Ret (s', g') \<Longrightarrow> I g \<Longrightarrow> I g'"
  by (auto simp: handleProcessTerminationDuringShutdown_def Let_def split: if_splits dest: InterruptWorker_I)

lemma handleProcessEnd_I:
  "handleProcessEnd (worker_pool_ops lib W ordR ordI) e s g = Ret (err, s', g') \<Longrightarrow> I g \<Longrightarrow> I g'"
  by (auto simp: handleProcessEnd_def Let_def split: if_splits dest: RestartWorker_I)

lemma main_event_I:
  assumes "main_event (worker_pool_ops lib W ordR ordI) e st = Ret st'" and "I (wld st)"
  shows "I (wld st')"
proof (cases "ev_Type e = ProcessEnd")
  case True
  with assms(1) obtain err s1 g1 where h: "handleProcessEnd (worker_pool_ops lib W ordR ordI) e (sup st) (wld st) = Ret (err, s1, g1)"
    by (auto simp: main_event_def)
  from handleProcessEnd_I [OF h assms(2)] assms(1) True h show ?thesis
    by (cases err) (auto simp: main_event_def dest: termination_I)
qed (use assms in \<open>auto simp: main_event_def dest: other_event_I\<close>)

lemma shutdown_event_I:
  assumes "shutdown_event (worker_pool_ops lib W ordR ordI) e st = Ret st'" and "I (wld st)"
  shows "I (wld st')"
proof -
  have fin: "wld (Run_finish P st1) = wld st1" for P :: "(WorkerPool, 'w) pool_ops" and st1
    by (simp add: Run_finish_def Let_def)
  show ?thesis
  proof (cases "ev_Type e = ProcessEnd")
    case True
    with assms(1) obtain err s1 g1 where h: "handleProcessEnd (worker_pool_ops lib W ordR ordI) e (sup st) (wld st) = Ret (err, s1, g1)"
      by (auto simp: shutdown_event_def)
    from handleProcessEnd_I [OF h assms(2)] assms(1) True h show ?thesis
      by (cases err) (auto simp: shutdown_event_def fin dest: termination_I)
  next
    case False
    with assms show ?thesis by (auto simp: shutdown_event_def fin dest: other_event_I)
  qed
qed

lemma ctx_done_I:
  assumes "ctx_done (worker_pool_ops lib W ordR ordI) ns st = Ret st'" and "I (wld st)"
  shows "I (wld st')"
  using assms by (auto simp: ctx_done_def elim!: for_pools_I [rotated] dest: InterruptAll_I)

lemma for_pools_RunAll_I:
  assumes "for_pools (\<lambda>p g. RunAll W (arrange (ordR p) (workers p)) p g) ns s g = Ret (s', g')" and "I g" and "distinct ns"
    and "\<And>n i. n \<in> set ns \<Longrightarrow> map_of (pools s) n = Some i \<Longrightarrow>
           poolName (pi_pool i) = n \<and> pool_inv W wid wpool (pi_pool i) g \<and> fresh_workers W (pi_pool i) g"
  shows "I g'"
  using assms
proof (induction ns arbitrary: s g)
  case (Cons n ns)
  from Cons.prems(1) obtain i p1 g1 where i: "map_of (pools s) n = Some i"
    and r: "RunAll W (arrange (ordR (pi_pool i)) (workers (pi_pool i))) (pi_pool i) g = Ret (p1, g1)"
    and l: "for_pools (\<lambda>p g. RunAll W (arrange (ordR p) (workers p)) p g) ns (set_pool n p1 s) g1 = Ret (s', g')"
    by (auto simp: on_pool_def)
  have n: "poolName (pi_pool i) = n" "pool_inv W wid wpool (pi_pool i) g" "fresh_workers W (pi_pool i) g"
    using Cons.prems(4) [OF _ i] by simp_all
  note run = RunAll_I [OF r range_order_arrange Cons.prems(2) n(2,3)]
  have ev: "evolves W wid wpool g g1" using r by (auto simp: RunAll_def dest: run_loop_evolves)
  show ?case
  proof (rule Cons.IH [OF l])
    fix m j assume m: "m \<in> set ns" "map_of (pools (set_pool n p1 s)) m = Some j"
    with Cons.prems(3) have "m \<noteq> n" by auto
    with m i have j: "map_of (pools s) m = Some j" by (auto simp: set_pool_Some)
    from Cons.prems(4) [OF _ j] m(1) have p: "poolName (pi_pool j) = m" "pool_inv W wid wpool (pi_pool j) g"
      "fresh_workers W (pi_pool j) g" by simp_all
    have same: "heap g1 b = heap g b" if b: "map_of (workers (pi_pool j)) k = Some b" for k b
    proof -
      have "wpool w = poolName sw" if "pool_inv W wid wpool sw g" "map_of (workers sw) k' = Some b" "heap g b = Some w" for sw k' w
        using that unfolding pool_inv_def by (force simp: entry_ok_def)
      with p(1,2) n(1,2) b \<open>m \<noteq> n\<close> pool_inv_lookup [OF p(2) map_of_in_keys [OF b]]
      have "map_of (workers (pi_pool i)) k' \<noteq> Some b" for k' by (metis option.inject)
      with run show ?thesis by blast
    qed
    have "fresh_workers W (pi_pool j) g1"
      using p(3) same run unfolding fresh_workers_def by (metis)
    with p(1) pool_inv_evolves [OF p(2) ev] show "poolName (pi_pool j) = m \<and> pool_inv W wid wpool (pi_pool j) g1 \<and> fresh_workers W (pi_pool j) g1"
      by simp
  qed (use run Cons.prems(3) in simp_all)
qed simp

lemma Run_start_I:
  assumes "Run_start lib W (worker_pool_ops lib W ordR ordI) ns ctx s empty_world = Ret st" and "loc st = MainLoop"
    and "I empty_world" and m: "\<forall>w\<in>set (Workers (sconfig s)). in64 (wc_MaxRestarts w)"
    and ns: "range_order (pools (sup st)) ns"
  shows "I (wld st)"
proof -
  from assms(1,2) obtain ps tot g1 where
    cr: "create_loop lib W (cmdOpts s) (Workers (sconfig s)) [] 0 empty_world = Ret ((ps, tot, None), g1)"
    and fp: "for_pools (p_RunAll (worker_pool_ops lib W ordR ordI)) ns (s\<lparr>pools := ps\<rparr>) g1 = Ret (sup st, wld st)"
    by (auto simp: Run_start_def createAndPreparePools_def split: if_splits)
  have ok: "distinct (keys ps)" "\<And>n i. map_of ps n = Some i \<Longrightarrow> new_pool W wid wpool g1 n i"
    using create_loop_ok [OF cr m] by (auto simp: empty_world_def all_owned_def)
  have "keys (pools (sup st)) = keys ps" using for_pools_keys [OF fp] by simp
  with ns ok(1) have "distinct ns" by (metis range_order_distinct)
  with create_loop_I [OF cr assms(3)] show ?thesis
    by (rule for_pools_RunAll_I [OF fp [simplified]]) (use ok(2) in \<open>force simp: new_pool_def new_row_def prepared_inv_def\<close>)+
qed

end

end
