(* ===== verification/System_Flow.thy ===== *)
theory System_Flow
  imports World_Invariant System_Safety
begin

text \<open>
  What keeps the program moving: the status of a command whose exit is watched has not been
  delivered yet, and a worker that streams its logs has a goroutine that will close the
  stream. \<open>pend\<close> says of a go-cmd command that its final status is still to be delivered;
  \<open>gocmd_delivers\<close> is go-cmd's promise to deliver it once the command has finished.
\<close>

definition gocmd_delivers :: "'c setting \<Rightarrow> ('c \<Rightarrow> bool) \<Rightarrow> bool" where
  "gocmd_delivers S pend \<longleftrightarrow>
     (\<forall>opt name args env. pend (cmdStart (s_cmd S) (NewCmdOptions (s_cmd S) opt name args env))) \<and>
     (\<forall>c. pend c \<longrightarrow> pend (snd (cmdStop (s_cmd S) c))) \<and>
     (\<forall>c c'. s_step S c c' \<longrightarrow> pend c \<longrightarrow> pend c') \<and>
     (\<forall>c. pend c \<longrightarrow> cmd_done (s_cmd S) c \<longrightarrow> cmdRecv (s_cmd S) c \<noteq> None)"

definition flow :: "('c \<Rightarrow> bool) \<Rightarrow> 'c sys_world \<Rightarrow> bool" where
  "flow pend g \<longleftrightarrow>
     (\<forall>a\<ge>nextAddr g. heap g a = None) \<and>
     (\<forall>a. WatchExit a \<in> set (gos g) \<longrightarrow> (\<exists>w. heap g a = Some w \<and> pend (rw_cmd w))) \<and>
     (\<forall>a w. heap g a = Some w \<longrightarrow> rw_isStreamingLogs w \<longrightarrow> rw_stdStreamClosed w \<or> StreamLogsLoop a \<in> set (gos g))"

lemma flowD:
  assumes "flow pend g"
  shows "nextAddr g \<le> a \<Longrightarrow> heap g a = None"
    and "WatchExit a \<in> set (gos g) \<Longrightarrow> \<exists>w. heap g a = Some w \<and> pend (rw_cmd w)"
    and "heap g a = Some w \<Longrightarrow> rw_isStreamingLogs w \<Longrightarrow> rw_stdStreamClosed w \<or> StreamLogsLoop a \<in> set (gos g)"
  using assms unfolding flow_def by blast+

text \<open>One worker changes: its stream flags stay or close, goroutines may be added.\<close>

lemma flow_upd:
  assumes f: "flow pend g" and w: "heap g a = Some w"
    and g': "heap g' = (heap g)(a \<mapsto> w')" "nextAddr g' = nextAddr g"
    and s: "rw_isStreamingLogs w' = rw_isStreamingLogs w" "rw_stdStreamClosed w \<longrightarrow> rw_stdStreamClosed w'"
    and p: "WatchExit a \<in> set (gos g') \<longrightarrow> pend (rw_cmd w')"
    and we: "\<And>b. b \<noteq> a \<Longrightarrow> WatchExit b \<in> set (gos g') \<Longrightarrow> WatchExit b \<in> set (gos g)"
    and sl: "\<And>b. StreamLogsLoop b \<in> set (gos g) \<Longrightarrow> StreamLogsLoop b \<in> set (gos g') \<or> b = a \<and> rw_stdStreamClosed w'"
  shows "flow pend g'"
  unfolding flow_def
proof (intro conjI allI impI)
  fix b assume "nextAddr g' \<le> b"
  with flowD(1) [OF f] w g' show "heap g' b = None" by (cases "b = a") auto
next
  fix b assume "WatchExit b \<in> set (gos g')"
  with p we flowD(2) [OF f, of b] g' show "\<exists>v. heap g' b = Some v \<and> pend (rw_cmd v)" by (cases "b = a") auto
next
  fix b v assume b: "heap g' b = Some v" "rw_isStreamingLogs v"
  show "rw_stdStreamClosed v \<or> StreamLogsLoop b \<in> set (gos g')"
  proof (cases "b = a")
    case True
    with b g' s flowD(3) [OF f w] sl [of a] show ?thesis by auto
  next
    case False
    with b g' flowD(3) [OF f, of b v] sl [of b] show ?thesis by auto
  qed
qed

lemma go_of_Terminate_r: "set (concat (map go_of (snd (Terminate_r G d a w)))) \<subseteq> {x. \<exists>e. x = SendEvent e} \<union> {TermTimer a}"
  by (auto simp: Terminate_r_def Let_def)

lemma go_of_Run_r: "set (concat (map go_of (snd (Run_r G a w)))) \<subseteq> {WatchExit a} \<union> {x. \<exists>l. x = RunMonitor l a}"
  by (auto simp: Run_r_def split: if_splits)

lemma flow_terminate:
  assumes d: "gocmd_delivers S pend" and f: "flow pend g" and o: "on_worker (Terminate_r (s_cmd S) d) a g = Ret g'"
  shows "flow pend g'"
proof -
  from o obtain w where w: "heap g a = Some w"
    and g': "g' = apply_effects (snd (Terminate_r (s_cmd S) d a w)) (g\<lparr>heap := (heap g)(a \<mapsto> fst (Terminate_r (s_cmd S) d a w))\<rparr>)"
    by (auto simp: on_worker_eq_Ret)
  have gs: "set (gos g') \<subseteq> set (gos g) \<union> {x. \<exists>e. x = SendEvent e} \<union> {TermTimer a}" "set (gos g) \<subseteq> set (gos g')"
    using go_of_Terminate_r [of "s_cmd S" d a w] by (auto simp: g' simp del: set_concat)
  have p: "pend (rw_cmd w) \<Longrightarrow> pend (rw_cmd (fst (Terminate_r (s_cmd S) d a w)))"
    using d by (simp add: gocmd_delivers_def Terminate_r_def Let_def)
  show ?thesis
  proof (rule flow_upd [OF f w, of _ "fst (Terminate_r (s_cmd S) d a w)"])
    show "WatchExit a \<in> set (gos g') \<longrightarrow> pend (rw_cmd (fst (Terminate_r (s_cmd S) d a w)))"
      using gs(1) flowD(2) [OF f, of a] w p by auto
  qed (use gs in \<open>auto simp: g' Terminate_r_def Let_def\<close>)
qed

lemma flow_run:
  assumes d: "gocmd_delivers S pend" and f: "flow pend g" and w: "heap g a = Some w"
    and c: "NewProdWorker (s_cmd S) E R c = Ret w" and o: "on_worker (Run_r (s_cmd S)) a g = Ret g'"
  shows "flow pend g'"
proof -
  from o w have g': "g' = apply_effects (snd (Run_r (s_cmd S) a w)) (g\<lparr>heap := (heap g)(a \<mapsto> fst (Run_r (s_cmd S) a w))\<rparr>)"
    by (auto simp: on_worker_eq_Ret)
  have gs: "set (gos g') \<subseteq> set (gos g) \<union> {WatchExit a} \<union> {x. \<exists>l. x = RunMonitor l a}" "set (gos g) \<subseteq> set (gos g')"
    using go_of_Run_r [of "s_cmd S" a w] by (auto simp: g' simp del: set_concat)
  have "pend (rw_cmd (fst (Run_r (s_cmd S) a w)))"
    using d newWorkerInstance_Ret [OF c [unfolded NewProdWorker_def]] by (simp add: gocmd_delivers_def Run_r_def)
  then show ?thesis
    by (intro flow_upd [OF f w, of _ "fst (Run_r (s_cmd S) a w)"]) (use gs in \<open>auto simp: g' Run_r_def\<close>)
qed

lemma flow_install:
  assumes f: "flow pend g" and i: "installs W wid wpool k n w sw g sw' g'"
  shows "flow pend g'"
proof -
  have "heap g (nextAddr g) = None" using flowD(1) [OF f] by simp
  with flowD(2) [OF f, of "nextAddr g"] have no: "WatchExit (nextAddr g) \<notin> set (gos g)" by auto
  have h: "heap g' = (heap g)(nextAddr g \<mapsto> w)" "nextAddr g' = Suc (nextAddr g)"
    "gos g' = gos g @ [StreamLogsLoop (nextAddr g)]" using i by (simp_all add: installs_def)
  show ?thesis
    unfolding flow_def
  proof (intro conjI allI impI)
    fix b assume "WatchExit b \<in> set (gos g')"
    with no have "b \<noteq> nextAddr g" "WatchExit b \<in> set (gos g)" by (auto simp: h)
    with flowD(2) [OF f, of b] show "\<exists>v. heap g' b = Some v \<and> pend (rw_cmd v)" by (simp add: h)
  next
    fix b v assume "heap g' b = Some v" "rw_isStreamingLogs v"
    with flowD(3) [OF f, of b v] show "rw_stdStreamClosed v \<or> StreamLogsLoop b \<in> set (gos g')"
      by (cases "b = nextAddr g") (auto simp: h)
  qed (use flowD(1) [OF f] in \<open>simp add: h\<close>)
qed

lemma flow_frame:
  "flow pend g \<Longrightarrow> heap g' = heap g \<Longrightarrow> nextAddr g' = nextAddr g \<Longrightarrow> gos g' = gos g \<Longrightarrow> flow pend g'"
  by (simp add: flow_def)

interpretation flowing: world_invariant "sys_ops S" rw_name rw_poolName "\<lambda>g. gocmd_delivers S pend \<longrightarrow> flow pend g"
  for S pend
proof unfold_locales
  fix g :: "'a sys_world" and a g'
  assume "gocmd_delivers S pend \<longrightarrow> flow pend g" and "on_worker (w_ForceTerminateWorker (sys_ops S)) a g = Ret g'"
  then show "gocmd_delivers S pend \<longrightarrow> flow pend g'"
    by (auto simp: on_worker_eq_Ret ForceTerminateWorker_r_def fun_upd_idem elim!: flow_frame)
qed (auto intro: flow_frame flow_terminate flow_run flow_install)

subsection \<open>Reachable states\<close>

lemma flow_receive:
  "flow pend g \<Longrightarrow> gos g = xs @ x # ys \<Longrightarrow> sends x = Some e \<Longrightarrow> flow pend (received x (g\<lparr>gos := xs @ ys\<rparr>))"
  by (cases x) (auto simp: flow_def)

lemma sys_pools_ops: "sys_pools S = worker_pool_ops (s_lib S) (sys_ops S) (s_ordR S) (s_ordI S)"
  by (simp add: sys_pools_def)

lemma one_watcher:
  assumes c: "core G U d sh g" and x: "gos g = xs @ WatchExit a # ys"
  shows "WatchExit a \<notin> set (xs @ ys)"
proof -
  have "\<exists>n k. cur sh n k a" using coreD(3) [OF c, of "WatchExit a"] x by simp
  then obtain n k where cu: "cur sh n k a" by blast
  then have "tok (gos g) n k a \<le> 1" using coreD(4) [OF c cu] by (auto simp: watch_ok_def split: if_splits)
  then have "tok (xs @ ys) n k a = 0" by (simp add: x)
  with tok_WatchExit [of a "xs @ ys" n k] show ?thesis by linarith
qed

lemma flow_go_step:
  assumes f: "flow pend g" and c: "core (s_cmd S) U d sh g" and x: "gos g = xs @ x # ys" and a: "go_addr x = Some a"
    and w: "heap g a = Some w" and st: "go_step (s_cmd S) x w w' zs"
  shows "flow pend (g\<lparr>heap := (heap g)(a \<mapsto> w'), gos := xs @ zs @ ys\<rparr>)"
proof (rule flow_upd [OF f w, of _ w'])
  have flags: "rw_isStreamingLogs (set_limiter l t v) = rw_isStreamingLogs v"
    "rw_stdStreamClosed (set_limiter l t v) = rw_stdStreamClosed v" "rw_cmd (set_limiter l t v) = rw_cmd v"
    for l t and v :: "'c realProcessWorker" by (cases l; simp)+
  show "rw_isStreamingLogs w' = rw_isStreamingLogs w" "rw_stdStreamClosed w \<longrightarrow> rw_stdStreamClosed w'"
    using st by (auto elim!: go_step.cases simp: sendUpdatesToAggrChannel_def flags split: option.splits)
  have zs: "WatchExit b \<notin> set zs" for b using st by (auto elim!: go_step.cases split: if_splits)
  show "WatchExit b \<in> set (gos g)" if "WatchExit b \<in> set (gos (g\<lparr>heap := (heap g)(a \<mapsto> w'), gos := xs @ zs @ ys\<rparr>))" for b
    using that zs x by auto
  show "WatchExit a \<in> set (gos (g\<lparr>heap := (heap g)(a \<mapsto> w'), gos := xs @ zs @ ys\<rparr>)) \<longrightarrow> pend (rw_cmd w')"
  proof
    assume we: "WatchExit a \<in> set (gos (g\<lparr>heap := (heap g)(a \<mapsto> w'), gos := xs @ zs @ ys\<rparr>))"
    then have in_xy: "WatchExit a \<in> set (xs @ ys)" using zs by auto
    then have "x \<noteq> WatchExit a" using one_watcher [OF c] x by blast
    then have "rw_cmd w' = rw_cmd w" using st a by (auto elim!: go_step.cases simp: flags)
    with flowD(2) [OF f, of a] in_xy x w show "pend (rw_cmd w')" by auto
  qed
  show "StreamLogsLoop b \<in> set (gos (g\<lparr>heap := (heap g)(a \<mapsto> w'), gos := xs @ zs @ ys\<rparr>)) \<or> b = a \<and> rw_stdStreamClosed w'"
    if "StreamLogsLoop b \<in> set (gos g)" for b
    using that x a st by (auto elim!: go_step.cases)
qed simp_all

lemma flow_process:
  assumes "gocmd_delivers S pend" and f: "flow pend g" and w: "heap g a = Some w" and "s_step S (rw_cmd w) c"
  shows "flow pend (g\<lparr>heap := (heap g)(a \<mapsto> w\<lparr>rw_cmd := c\<rparr>)\<rparr>)"
  by (rule flow_upd [OF f w, of _ "w\<lparr>rw_cmd := c\<rparr>"])
    (use assms flowD(2) [OF f, of a] in \<open>auto simp: gocmd_delivers_def\<close>)

lemma flow_step:
  assumes d: "gocmd_delivers S pend" and inv: "sys_inv S st" and f: "flow pend (wld st)" and st: "sys_step S st st'"
  shows "flow pend (wld st')"
  using st
proof cases
  case (recv_main xs x ys e)
  with flowing.main_event_I [OF recv_main(4) [unfolded sys_pools_ops], of pend] flow_receive [OF f recv_main(2,3)] d
  show ?thesis by simp
next
  case (recv_shutdown xs x ys e)
  with flowing.shutdown_event_I [OF recv_shutdown(4) [unfolded sys_pools_ops], of pend] flow_receive [OF f recv_shutdown(2,3)] d
  show ?thesis by simp
next
  case (context_done ns)
  with flowing.ctx_done_I [OF context_done(4) [unfolded sys_pools_ops], of pend] f d show ?thesis by simp
next
  case os_signal
  with f show ?thesis by simp
next
  case (goroutine xs x ys a w w' zs)
  from inv have "core (s_cmd S) {} (\<lambda>_. 0) (shape_of (sup st)) (wld st)" by (simp add: sys_inv_def)
  from flow_go_step [OF f this goroutine(2-5)] goroutine(1) show ?thesis by simp
next
  case (process a w c)
  with flow_process [OF d f process(2,3)] show ?thesis by simp
qed

lemma flow_init:
  assumes d: "gocmd_delivers S pend" and "sys_init S config st"
  shows "flow pend (wld st)"
proof -
  from assms(2) obtain s0 ns dn where l: "loc st = MainLoop" and ns: "range_order (pools (sup st)) ns"
    and s0: "NewSupervisor config False = Inr s0" and m: "\<forall>w\<in>set (Workers config). in64 (wc_MaxRestarts w)"
    and run: "Run_start (s_lib S) (sys_ops S) (sys_pools S) ns dn s0 empty_world = Ret st"
    by (auto simp: sys_init_def)
  have "flow pend (empty_world :: 'a sys_world)" by (simp add: flow_def empty_world_def)
  moreover have "sconfig s0 = config" using s0 by (auto simp: NewSupervisor_def)
  ultimately show ?thesis
    using flowing.Run_start_I [OF run [unfolded sys_pools_ops] l _ _ ns, of pend] d m by simp
qed

lemma reachable_flow:
  assumes laws: "gocmd_laws S" and d: "gocmd_delivers S pend"
  shows "reachable S config st \<Longrightarrow> flow pend (wld st)"
proof (induction rule: reachable.induct)
  case (init st)
  then show ?case by (rule flow_init [OF d])
next
  case (step st st')
  from flow_step [OF d reachable_inv [OF laws step(1)] step(3,2)] show ?case .
qed

end
