(* ===== verification/System_Liveness.thy ===== *)
theory System_Liveness
  imports System_Flow System_Properties
begin

text \<open>
  Shutdown completes. \<open>int_step\<close> is a step the program takes by itself, a step of
  \<open>sys_step\<close> that is neither a signal nor a process moving on; \<open>must_return\<close> says that
  however those steps are scheduled, \<open>Run\<close> returns after finitely many of them and the
  program is never stuck before.
\<close>

inductive int_step :: "'c setting \<Rightarrow> 'c sys_state \<Rightarrow> 'c sys_state \<Rightarrow> bool" for S where
  recv_main: "loc st = MainLoop \<Longrightarrow> gos (wld st) = xs @ x # ys \<Longrightarrow> sends x = Some e \<Longrightarrow>
     main_event (sys_pools S) e (st\<lparr>wld := received x ((wld st)\<lparr>gos := xs @ ys\<rparr>)\<rparr>) = Ret st' \<Longrightarrow>
     int_step S st st'"
| recv_shutdown: "loc st = ShutdownLoop \<Longrightarrow> gos (wld st) = xs @ x # ys \<Longrightarrow> sends x = Some e \<Longrightarrow>
     shutdown_event (sys_pools S) e (st\<lparr>wld := received x ((wld st)\<lparr>gos := xs @ ys\<rparr>)\<rparr>) = Ret st' \<Longrightarrow>
     int_step S st st'"
| context_done: "loc st = MainLoop \<Longrightarrow> ctxDone st \<Longrightarrow> range_order (pools (sup st)) ns \<Longrightarrow>
     ctx_done (sys_pools S) ns st = Ret st' \<Longrightarrow> int_step S st st'"
| goroutine: "gos (wld st) = xs @ x # ys \<Longrightarrow> go_addr x = Some a \<Longrightarrow> heap (wld st) a = Some w \<Longrightarrow>
     go_step (s_cmd S) x w w' zs \<Longrightarrow>
     int_step S st (st\<lparr>wld := (wld st)\<lparr>heap := (heap (wld st))(a \<mapsto> w'), gos := xs @ zs @ ys\<rparr>\<rparr>)"

lemma int_step_sys: "int_step S st st' \<Longrightarrow> sys_step S st st'"
  by (induction rule: int_step.induct) (blast intro: sys_step.intros)+

inductive must_return :: "'c setting \<Rightarrow> 'c sys_state \<Rightarrow> bool" for S where
  returned: "loc st = Returned err \<Longrightarrow> must_return S st"
| moves: "int_step S st st1 \<Longrightarrow> (\<And>st'. int_step S st st' \<Longrightarrow> must_return S st') \<Longrightarrow> must_return S st"

subsection \<open>The shutdown loop waits only while a process is left\<close>

lemma Run_finish_more [simp]:
  "terminatedProcesses (Run_finish P st) = terminatedProcesses st" "allProcesses (Run_finish P st) = allProcesses st"
  "\<exists>err. loc (Run_finish P st) = Returned err"
  by (simp_all add: Run_finish_def Let_def)

lemma shutdown_event_loc:
  assumes "shutdown_event P e st = Ret st'" and "loc st = ShutdownLoop"
  shows "if terminatedProcesses st' = allProcesses st' then \<exists>err. loc st' = Returned err else loc st' = ShutdownLoop"
proof -
  let ?m = "if ev_Type e = ProcessEnd then
       obind (handleProcessEnd P e (sup st) (wld st))
         (\<lambda>(err, s1, g1). if err \<noteq> None then
            obind (handleProcessTerminationDuringShutdown P e s1 g1)
              (\<lambda>(s2, g2). Ret (st\<lparr>sup := s2, wld := g2, terminatedProcesses := terminatedProcesses st + 1\<rparr>))
          else Ret (st\<lparr>sup := s1, wld := g1\<rparr>))
     else obind (other_event True P e (sup st) (wld st)) (\<lambda>(s1, g1). Ret (st\<lparr>sup := s1, wld := g1\<rparr>))"
  have l: "loc st1 = loc st" if "?m = Ret st1" for st1 using that by (auto split: if_splits)
  have "obind ?m (\<lambda>st1. Ret (if terminatedProcesses st1 = allProcesses st1 then Run_finish P st1 else st1)) = Ret st'"
    using assms(1) unfolding shutdown_event_def .
  then obtain st1 where m: "?m = Ret st1" and st': "st' = (if terminatedProcesses st1 = allProcesses st1 then Run_finish P st1 else st1)"
    by (cases ?m) auto
  show ?thesis using assms(2) l [OF m] by (simp add: st')
qed

lemma shutdown_waits:
  "reachable S config st \<Longrightarrow> loc st = ShutdownLoop \<Longrightarrow> terminatedProcesses st \<noteq> allProcesses st"
proof (induction rule: reachable.induct)
  case (init st)
  then show ?case by (auto simp: sys_init_def)
next
  case (step st st')
  from step(2) show ?case
  proof cases
    case (recv_main xs x ys e)
    then have "loc st' = MainLoop" by (auto simp: main_event_def split: if_splits)
    with step(4) show ?thesis by simp
  next
    case (recv_shutdown xs x ys e)
    from shutdown_event_loc [OF recv_shutdown(4)] recv_shutdown(1) step(4) show ?thesis by (auto split: if_splits)
  next
    case (context_done ns)
    then show ?thesis using step(4) by (auto simp: ctx_done_def split: if_splits)
  qed (use step in auto)
qed

subsection \<open>The work that is left\<close>

fun weight :: "goroutine \<Rightarrow> nat" where
  "weight (SendEvent e) = 1"
| "weight (SendLimitEvent e) = 1"
| "weight (StreamLogsLoop a) = 1"
| "weight (WatchExit a) = 2"
| "weight (TermTimer a) = 2"
| "weight (LimitTimer l a) = 2"
| "weight (RunMonitor l a) = 3"
| "weight (ExitTimer a) = 0"

definition work :: "'c sys_state \<Rightarrow> nat" where
  "work st = sum_list (map weight (gos (wld st)))"

lemma go_step_work: "go_step G x w w' zs \<Longrightarrow> sum_list (map weight zs) < weight x"
  by (auto elim!: go_step.cases)

lemma go_step_done:
  assumes "gocmd_laws S" and "go_step (s_cmd S) x w w' zs" and "cmd_done (s_cmd S) (rw_cmd w)"
  shows "cmd_done (s_cmd S) (rw_cmd w')"
proof -
  have "rw_cmd (set_limiter l t v) = rw_cmd v" for l t and v :: "'a realProcessWorker" by (cases l) simp_all
  with assms show ?thesis
    by (auto elim!: go_step.cases simp: sendUpdatesToAggrChannel_def gocmd_laws_def split: option.splits)
qed

text \<open>With every process finished, interrupting and killing start nothing.\<close>

lemma finished_interrupt:
  assumes "\<And>k a. map_of (workers sw) k = Some a \<Longrightarrow> finished (s_cmd S) g a"
    and "InterruptWorker (sys_ops S) k sw g = Ret (sw', g')"
  shows "gos g' = gos g \<and> heap g' = heap g"
proof -
  from assms(2) obtain a w where a: "map_of (workers sw) k = Some a" "heap g a = Some w"
    and g': "g' = apply_effects (snd (Terminate_r (s_cmd S) (signalTimeout (startup sw)) a w))
       (g\<lparr>heap := (heap g)(a \<mapsto> fst (Terminate_r (s_cmd S) (signalTimeout (startup sw)) a w))\<rparr>)"
    by (auto simp: InterruptWorker_def on_worker_eq_Ret)
  from assms(1) [OF a(1)] a(2) have "Status_r (s_cmd S) w = Terminated" by (auto simp: finished_def Status_r_Terminated)
  with a(2) show ?thesis by (auto simp: g' Terminate_r_def)
qed

lemma force_gos:
  "ForceTerminateWorker (sys_ops S) k sw g = Ret (sw', g') \<Longrightarrow> gos g' = gos g \<and> heap g' = heap g"
  by (auto simp: ForceTerminateWorker_def on_worker_eq_Ret ForceTerminateWorker_r_def)

lemma finished_workers:
  assumes "\<And>n k a. cur (shape_of s) n k a \<Longrightarrow> finished G g a" and "map_of (pools s) n = Some i"
    and "map_of (workers (pi_pool i)) k = Some a"
  shows "finished G g a"
proof -
  have "cur (shape_of s) n k a" using assms(2,3) by (simp add: cur_def shape_of_def)
  then show ?thesis by (rule assms(1))
qed

lemma shutdown_event_gos:
  assumes t: "terminating (sup st)" and fin: "\<And>n k a. cur (shape_of (sup st)) n k a \<Longrightarrow> finished (s_cmd S) (wld st) a"
    and ret: "shutdown_event (sys_pools S) e st = Ret st'"
  shows "gos (wld st') = gos (wld st) \<and> heap (wld st') = heap (wld st)"
proof (cases "ev_Type e = ProcessEnd")
  case True
  let ?g = "upd_mets (DecrementRunningIncrementTerminated (ev_Pool e)) (wld st)"
  from shutdown_event_end [OF t True ret] obtain i p where i: "map_of (pools (sup st)) (ev_Pool e) = Some i"
    and act: "(if HasProxy (pi_pool i) \<and> runningProcesses i = totalProcesses i
       then InterruptWorker (sys_ops S) ProxyId (pi_pool i) ?g else Ret (pi_pool i, ?g)) = Ret (p, wld st')"
    by (auto simp: handleProcessTerminationDuringShutdown_def Let_def cong: if_cong)
  have f: "finished (s_cmd S) ?g a" if "map_of (workers (pi_pool i)) k = Some a" for k a
    using finished_workers [OF fin i that] by (simp add: finished_def)
  from act consider "?g = wld st'" | "InterruptWorker (sys_ops S) ProxyId (pi_pool i) ?g = Ret (p, wld st')"
    by (auto split: if_splits)
  then show ?thesis
  proof cases
    case 1
    then show ?thesis by (metis upd_mets_sel(1) upd_mets_sel(8))
  next
    case 2
    from finished_interrupt [OF f 2] show ?thesis by simp
  qed
next
  case False
  from shutdown_event_other [OF False ret]
  have o: "other_event True (sys_pools S) e (sup st) (wld st) = Ret (sup st', wld st')" .
  show ?thesis
  proof (cases "ev_Type e")
    case ProcessNeedsInterrupt
    with o obtain i p where i: "map_of (pools (sup st)) (ev_Pool e) = Some i"
      and act: "InterruptWorker (sys_ops S) (ev_Id e) (pi_pool i) (wld st) = Ret (p, wld st')"
      by (auto simp: other_event_def handleProcessNeedsInterrupt_def on_pool_def)
    from finished_interrupt [OF finished_workers [OF fin i] act] show ?thesis by simp
  next
    case ProcessNeedsTermination
    with o show ?thesis by (auto simp: other_event_def handleProcessNeedsTermination_def on_pool_def dest!: force_gos)
  qed (use False o in \<open>auto simp: other_event_def\<close>)
qed

lemma cur_fst:
  assumes "map_option fst \<circ> sh' = map_option fst \<circ> sh"
  shows "cur sh' n k a = cur sh n k a"
proof -
  have c: "cur sh n k a \<longleftrightarrow> (\<exists>ws. (map_option fst \<circ> sh) n = Some ws \<and> map_of ws k = Some a)" for sh :: shape
    by (force simp: cur_def)
  show ?thesis unfolding c assms ..
qed

subsection \<open>Winding down\<close>

definition winding :: "'c setting \<Rightarrow> ('c \<Rightarrow> bool) \<Rightarrow> 'c sys_state \<Rightarrow> bool" where
  "winding S pend st \<longleftrightarrow> sys_inv S st \<and> flow pend (wld st) \<and> loc st = ShutdownLoop \<and>
     terminatedProcesses st \<noteq> allProcesses st \<and>
     (\<forall>n k a. cur (shape_of (sup st)) n k a \<longrightarrow> finished (s_cmd S) (wld st) a)"

lemma token_exists:
  assumes sup: "sys_sup_inv S st" and c: "core (s_cmd S) {} (\<lambda>_. 0) (shape_of (sup st)) (wld st)"
    and ne: "terminatedProcesses st \<noteq> allProcesses st"
  shows "\<exists>n k a. cur (shape_of (sup st)) n k a \<and> tok (gos (wld st)) n k a \<noteq> 0"
proof (rule ccontr)
  assume no: "\<not> ?thesis"
  have d: "distinct (keys (pools (sup st)))" using sup by (simp add: sup_inv_def pools_ok_def)
  have "runningProcesses (snd mi) = 0" if mi: "mi \<in> set (pools (sup st))" for mi
  proof -
    obtain n i where ni: "mi = (n, i)" by fastforce
    with mi d have i: "map_of (pools (sup st)) n = Some i" by (simp add: keys_def)
    have "tok (gos (wld st)) n (fst ka) (snd ka) = 0" if "ka \<in> set (workers (pi_pool i))" for ka
      using no cur_of_mem [OF coreD(2) [OF c] shape_pool [OF i], of "fst ka" "snd ka"] that by auto
    then have "live_count (gos (wld st)) n (workers (pi_pool i)) = (\<Sum>ka\<leftarrow>workers (pi_pool i). 0)"
      unfolding live_count_def by (intro arg_cong [where f = sum_list] map_cong) simp_all
    with coreD(5) [OF c shape_pool [OF i]] show ?thesis by (simp add: ni)
  qed
  then have "(\<Sum>mi\<leftarrow>pools (sup st). runningProcesses (snd mi)) = (\<Sum>mi\<leftarrow>pools (sup st). 0)"
    by (intro arg_cong [where f = sum_list] map_cong) simp_all
  moreover have "terminated_sum (sup st) = total_sum (sup st) - (\<Sum>mi\<leftarrow>pools (sup st). runningProcesses (snd mi))"
    by (simp add: terminated_sum_def total_sum_def sum_list_subtractf comp_def)
  ultimately show False using sup ne by (simp add: sup_inv_def)
qed

lemma end_receivable:
  assumes inv: "sys_inv S st" and l: "loc st = ShutdownLoop" and x: "gos (wld st) = xs @ SendEvent e # ys"
    and e: "ev_Type e = ProcessEnd" and a: "cur (shape_of (sup st)) (ev_Pool e) (ev_Id e) a" "heap (wld st) a = Some w"
    and s: "rw_isStreamingLogs w \<longrightarrow> rw_stdStreamClosed w"
  shows "\<exists>st'. int_step S st st'"
proof -
  from inv have sup: "sys_sup_inv S st" and c: "core (s_cmd S) {} (\<lambda>_. 0) (shape_of (sup st)) (wld st)"
    by (simp_all add: sys_inv_def)
  have t: "terminating (sup st)" using sup l by (simp add: sup_inv_def)
  let ?g = "(wld st)\<lparr>gos := xs @ ys\<rparr>"
  from a obtain i where i: "map_of (pools (sup st)) (ev_Pool e) = Some i" "map_of (workers (pi_pool i)) (ev_Id e) = Some a"
    by (auto simp: cur_def shape_of_def)
  from wait_no_error [OF sup c x e i(1)] i(2) a(2) s
  have "WaitForWorkerToCleanBuffer (sys_ops S) (ev_Id e) (pi_pool i) ?g = Ret None"
    by (auto simp: WaitForWorkerToCleanBuffer_def WaitForWorkerToCleanBuffer_r_def pool_ids_def
        split: if_splits dest: map_of_in_keys)
  with i(1) t have h: "handleProcessEnd (sys_pools S) e (sup st) ?g =
      Ret (Some (Errorf ''Supervisor is already terminating''), sup st, upd_mets (DecrementRunningIncrementTerminated (ev_Pool e)) ?g)"
    by (simp add: handleProcessEnd_def Let_def)
  have "prepared_inv (sys_ops S) rw_name rw_poolName (pi_pool i) (upd_mets (DecrementRunningIncrementTerminated (ev_Pool e)) ?g)"
    by (rule sys_pool.pinv_ev [OF _ evolves_same_heap]) (use sup_inv_row [OF sup i(1)] in simp_all)
  from termination_total [OF this i(1)] obtain s2 g2 where
    "handleProcessTerminationDuringShutdown (sys_pools S) e (sup st) (upd_mets (DecrementRunningIncrementTerminated (ev_Pool e)) ?g) = Ret (s2, g2)"
    by blast
  with h e have "\<exists>st'. shutdown_event (sys_pools S) e (st\<lparr>wld := received (SendEvent e) ?g\<rparr>) = Ret st'"
    by (simp add: shutdown_event_def)
  with int_step.recv_shutdown [OF l x, of e S] show ?thesis by auto
qed

lemma winding_progress:
  assumes d: "gocmd_delivers S pend" and wi: "winding S pend st"
  shows "\<exists>st'. int_step S st st'"
proof -
  from wi have inv: "sys_inv S st" and f: "flow pend (wld st)" and l: "loc st = ShutdownLoop"
    and ne: "terminatedProcesses st \<noteq> allProcesses st"
    and fin: "\<And>n k a. cur (shape_of (sup st)) n k a \<Longrightarrow> finished (s_cmd S) (wld st) a"
    by (auto simp: winding_def)
  from inv have sup: "sys_sup_inv S st" and c: "core (s_cmd S) {} (\<lambda>_. 0) (shape_of (sup st)) (wld st)"
    by (simp_all add: sys_inv_def)
  from token_exists [OF sup c ne] obtain n k a where cu: "cur (shape_of (sup st)) n k a"
    and tk: "tok (gos (wld st)) n k a \<noteq> 0" by blast
  from fin [OF cu] obtain w where w: "heap (wld st) a = Some w" "cmd_done (s_cmd S) (rw_cmd w)" by (auto simp: finished_def)
  from tk obtain x where "x \<in> set (gos (wld st))" and x': "x = WatchExit a \<or> ends n k x"
    by (auto simp: tok_def filter_empty_conv)
  then obtain xs ys where x: "gos (wld st) = xs @ x # ys" by (auto simp: in_set_conv_decomp)
  from x' consider (watch) "x = WatchExit a"
    | (report) e where "x = SendEvent e" "ev_Type e = ProcessEnd" "ev_Pool e = n" "ev_Id e = k" by (cases x) auto
  then show ?thesis
  proof cases
    case watch
    with x flowD(2) [OF f, of a] w(1) have "pend (rw_cmd w)" by auto
    with d w(2) obtain msg c' where "cmdRecv (s_cmd S) (rw_cmd w) = Some (msg, c')" by (fastforce simp: gocmd_delivers_def)
    then have "\<exists>w' ev. sendUpdatesToAggrChannel (s_cmd S) w = Some (w', ev)" by (simp add: sendUpdatesToAggrChannel_def)
    then obtain w' ev where "sendUpdatesToAggrChannel (s_cmd S) w = Some (w', ev)" by blast
    from int_step.goroutine [OF x _ w(1) go_step.exits [OF this, of a, folded watch]] watch show ?thesis by auto
  next
    case (report e)
    show ?thesis
    proof (cases "rw_isStreamingLogs w \<longrightarrow> rw_stdStreamClosed w")
      case True
      with end_receivable [OF inv l, of xs e ys a w] x report cu w(1) show ?thesis by simp
    next
      case False
      with flowD(3) [OF f w(1)] obtain us vs where "gos (wld st) = us @ StreamLogsLoop a # vs"
        by (auto simp: in_set_conv_decomp)
      from int_step.goroutine [OF this _ w(1) go_step.streams_end] w(2) show ?thesis by auto
    qed
  qed
qed

lemma winding_step:
  assumes laws: "gocmd_laws S" and d: "gocmd_delivers S pend" and wi: "winding S pend st" and st: "int_step S st st'"
  shows "(\<exists>err. loc st' = Returned err) \<or> (winding S pend st' \<and> work st' < work st)"
proof -
  from wi have inv: "sys_inv S st" and f: "flow pend (wld st)" and l: "loc st = ShutdownLoop"
    and ne: "terminatedProcesses st \<noteq> allProcesses st"
    and fin: "\<And>n k a. cur (shape_of (sup st)) n k a \<Longrightarrow> finished (s_cmd S) (wld st) a"
    by (auto simp: winding_def)
  have t: "terminating (sup st)" using inv l by (simp add: sys_inv_def sup_inv_def)
  have inv': "sys_inv S st'" "flow pend (wld st')"
    using sys_step_inv [OF laws int_step_sys [OF st] inv] flow_step [OF d inv f int_step_sys [OF st]] .
  from st show ?thesis
  proof cases
    case (recv_shutdown xs x ys e)
    let ?st = "st\<lparr>wld := received x ((wld st)\<lparr>gos := xs @ ys\<rparr>)\<rparr>"
    have fin1: "finished (s_cmd S) (wld ?st) a" if "cur (shape_of (sup ?st)) n k a" for n k a
      using fin [of n k a] that by (simp add: finished_def received_sel)
    from shutdown_event_gos [OF _ fin1 recv_shutdown(4)] t
    have g: "gos (wld st') = xs @ ys" "heap (wld st') = heap (wld st)" by (simp_all add: received_sel)
    have "map_option fst \<circ> shape_of (sup st') = map_option fst \<circ> shape_of (sup st)"
      using shutdown_step_frame [OF laws _ recv_shutdown(4)] t by simp
    then have "cur (shape_of (sup st')) n k a = cur (shape_of (sup st)) n k a" for n k a by (rule cur_fst)
    with fin g(2) have fin': "\<forall>n k a. cur (shape_of (sup st')) n k a \<longrightarrow> finished (s_cmd S) (wld st') a"
      by (simp add: finished_def)
    from shutdown_event_loc [OF recv_shutdown(4)] l consider "\<exists>err. loc st' = Returned err"
      | "loc st' = ShutdownLoop" "terminatedProcesses st' \<noteq> allProcesses st'" by (auto split: if_splits)
    then show ?thesis
    proof cases
      case 2
      have "work st' < work st" using recv_shutdown(2,3) g(1) by (cases x) (simp_all add: work_def)
      with 2 inv' fin' show ?thesis by (simp add: winding_def)
    qed simp
  next
    case (goroutine xs x ys a w w' zs)
    have "work st' < work st" using go_step_work [OF goroutine(5)] by (simp add: work_def goroutine(1,2))
    moreover have "finished (s_cmd S) (wld st') b" if "cur (shape_of (sup st)) n k b" for n k b
      using fin [OF that] go_step_done [OF laws goroutine(5)] goroutine(4)
      by (auto simp: finished_def goroutine(1))
    ultimately show ?thesis using inv' l ne by (simp add: winding_def goroutine(1))
  qed (use l in simp_all)
qed

lemma winding_returns:
  assumes laws: "gocmd_laws S" and d: "gocmd_delivers S pend"
  shows "winding S pend st \<Longrightarrow> must_return S st"
proof (induction "work st" arbitrary: st rule: less_induct)
  case less
  obtain st1 where "int_step S st st1" using winding_progress [OF d less.prems] by blast
  then show ?case
  proof (rule must_return.moves)
    fix st' assume "int_step S st st'"
    with winding_step [OF laws d less.prems] show "must_return S st'"
      by (blast intro: must_return.returned less.hyps)
  qed
qed

text \<open>C7: Shutdown completes: in every reachable state of the shutdown loop in which all processes
  have terminated, \<open>Run\<close> is bound to return: the program is never stuck before, and however its
  goroutines and the channel are scheduled it returns after finitely many steps of its own. This
  relies on go-cmd delivering the final status of a command that has finished.\<close>

theorem shutdown_returns:
  assumes laws: "gocmd_laws S" and d: "gocmd_delivers S pend" and re: "reachable S config st" and l: "loc st = ShutdownLoop"
    and fin: "\<forall>ni\<in>set (pools (sup st)). PoolTerminated (sys_ops S) (pi_pool (snd ni)) (wld st)"
  shows "must_return S st"
proof -
  have "finished (s_cmd S) (wld st) a" if cu: "cur (shape_of (sup st)) n k a" for n k a
  proof -
    from cu obtain i where i: "map_of (pools (sup st)) n = Some i" "map_of (workers (pi_pool i)) k = Some a"
      by (auto simp: cur_def shape_of_def)
    with fin have "PoolTerminated (sys_ops S) (pi_pool i) (wld st)" by (force dest: map_of_SomeD)
    with map_of_SomeD [OF i(2)] show ?thesis
      by (force simp: PoolTerminated_def list_all_iff worker_status_def finished_def Status_r_Terminated)
  qed
  then have "winding S pend st"
    using reachable_inv [OF laws re] reachable_flow [OF laws d re] shutdown_waits [OF re l] l by (simp add: winding_def)
  then show ?thesis by (rule winding_returns [OF laws d])
qed

lemma sample_delivers: "gocmd_delivers sample (\<lambda>c. pc_started c \<and> \<not> pc_sent c)"
proof -
  have "cmd_done sample_cmd c \<Longrightarrow> pc_exited c" for c
    by (auto simp: cmd_done_def sample_cmd_def pcmd_status_def split: if_splits)
  then have "\<forall>c. pc_started c \<and> \<not> pc_sent c \<longrightarrow> cmd_done sample_cmd c \<longrightarrow> cmdRecv sample_cmd c \<noteq> None"
    by (simp add: sample_cmd_def)
  moreover have "pc_started (snd (cmdStop sample_cmd c)) = pc_started c \<and> pc_sent (snd (cmdStop sample_cmd c)) = pc_sent c" for c
    by (simp add: sample_cmd_def)
  moreover have "pc_started (cmdStart sample_cmd (NewCmdOptions sample_cmd opt name args env)) \<and>
      \<not> pc_sent (cmdStart sample_cmd (NewCmdOptions sample_cmd opt name args env))" for opt name args env
    by (simp add: sample_cmd_def)
  ultimately show ?thesis by (auto simp: gocmd_delivers_def sample_def sample_step_def)
qed

theorem shutdown_returns_witness:
  "\<exists>st. exec_run sample sample_config reporting_run = Some st \<and> loc st = ShutdownLoop \<and> must_return sample st"
proof -
  obtain st st' where st: "exec_run sample sample_config reporting_run = Some st" "reachable sample sample_config st"
    "loc st = ShutdownLoop" by (rule reporting_state)
  have "map_option (\<lambda>st. list_all (\<lambda>ni. PoolTerminated (sys_ops sample) (pi_pool (snd ni)) (wld st)) (pools (sup st)))
      (exec_run sample sample_config reporting_run) = Some True" by code_simp
  then have "\<forall>ni\<in>set (pools (sup st)). PoolTerminated (sys_ops sample) (pi_pool (snd ni)) (wld st)"
    using st(1) by (simp add: list_all_iff)
  from shutdown_returns [OF sample_laws sample_delivers st(2,3) this] st(1,3) show ?thesis by blast
qed

end
