(* ===== verification/System_Refinement.thy ===== *)
theory System_Refinement
  imports System_Liveness
begin

text \<open>
  The program implements a small specification: a number of live processes per pool and a
  phase. While serving, a process may die for good or be replaced without the number
  changing; on shutdown processes only die; the program is done exactly when it has been
  stopped and no process is left.
\<close>

datatype phase = Serving | Stopping | Done

record spec_state =
  ph :: phase
  live :: "string \<Rightarrow> nat option"

definition settled :: "spec_state \<Rightarrow> bool" where
  "settled A \<longleftrightarrow> (\<forall>n k. live A n = Some k \<longrightarrow> k = 0)"

definition settle :: "spec_state \<Rightarrow> spec_state" where
  "settle A = (if ph A = Stopping \<and> settled A then A\<lparr>ph := Done\<rparr> else A)"

inductive spec_step :: "spec_state \<Rightarrow> spec_state \<Rightarrow> bool" where
  idle: "spec_step A A"
| dies: "ph A \<noteq> Done \<Longrightarrow> live A n = Some (Suc k) \<Longrightarrow> spec_step A (settle (A\<lparr>live := (live A)(n \<mapsto> k)\<rparr>))"
| stop: "ph A = Serving \<Longrightarrow> spec_step A (settle (A\<lparr>ph := Stopping\<rparr>))"

fun phase_of :: "run_loc \<Rightarrow> phase" where
  "phase_of MainLoop = Serving"
| "phase_of ShutdownLoop = Stopping"
| "phase_of (Returned err) = Done"

definition counts :: "WorkerPool Supervisor \<Rightarrow> string \<Rightarrow> nat option" where
  "counts s n = map_option (\<lambda>i. nat (runningProcesses i)) (map_of (pools s) n)"

definition abs_state :: "'c sys_state \<Rightarrow> spec_state" where
  "abs_state st = \<lparr>ph = phase_of (loc st), live = counts (sup st)\<rparr>"

lemma counts_shape: "counts s n = map_option (\<lambda>x. nat (snd x)) (shape_of s n)"
  by (simp add: counts_def shape_of_def option.map_comp comp_def)

lemma counted_iff:
  assumes sup: "sys_sup_inv S st" and c: "core (s_cmd S) {} (\<lambda>_. 0) (shape_of (sup st)) (wld st)"
  shows "terminatedProcesses st = allProcesses st \<longleftrightarrow> (\<forall>n k. counts (sup st) n = Some k \<longrightarrow> k = 0)"
proof -
  have d: "distinct (keys (pools (sup st)))" using sup by (simp add: sup_inv_def pools_ok_def)
  have mem: "map_of (pools (sup st)) n = Some i \<longleftrightarrow> (n, i) \<in> set (pools (sup st))" for n i
    using d by (simp add: keys_def)
  have nn: "0 \<le> runningProcesses (snd mi)" if "mi \<in> set (pools (sup st))" for mi
    using coreD(5) [OF c shape_pool, of "fst mi" "snd mi"] mem that live_count_nonneg by simp
  have "terminated_sum (sup st) = total_sum (sup st) - (\<Sum>mi\<leftarrow>pools (sup st). runningProcesses (snd mi))"
    by (simp add: terminated_sum_def total_sum_def sum_list_subtractf comp_def)
  then have "terminatedProcesses st = allProcesses st \<longleftrightarrow> (\<Sum>mi\<leftarrow>pools (sup st). runningProcesses (snd mi)) = 0"
    using sup by (auto simp: sup_inv_def)
  also have "\<dots> \<longleftrightarrow> (\<forall>mi\<in>set (pools (sup st)). runningProcesses (snd mi) = 0)"
    using nn by (subst sum_list_nonneg_eq_0_iff) auto
  also have "\<dots> \<longleftrightarrow> (\<forall>n k. counts (sup st) n = Some k \<longrightarrow> k = 0)"
    using nn by (fastforce simp: counts_def mem)
  finally show ?thesis .
qed

text \<open>The end of a process that is not replaced lowers the count of its pool by one.\<close>

lemma end_counts:
  assumes laws: "gocmd_laws S" and c: "core (s_cmd S) {} (\<lambda>_. 0) (shape_of (sup st)) (wld st)"
    and x: "gos (wld st) = xs @ SendEvent e # ys" "ev_Type e = ProcessEnd"
    and s1: "shape_of s1 = shape_of (sup st)"
    and t: "handleProcessTerminationDuringShutdown (sys_pools S) e s1 g1 = Ret (s2, g2)"
  shows "\<exists>k. counts (sup st) (ev_Pool e) = Some (Suc k) \<and> counts s2 = (counts (sup st))(ev_Pool e \<mapsto> k)"
proof -
  from termination_step [OF laws t] obtain i where i: "map_of (pools s1) (ev_Pool e) = Some i"
    and s2: "s2 = s1\<lparr>pools := AList.update (ev_Pool e) (i\<lparr>runningProcesses := runningProcesses i - 1\<rparr>) (pools s1)\<rparr>" by blast
  have sh: "shape_of (sup st) (ev_Pool e) = Some (workers (pi_pool i), runningProcesses i)"
    using shape_pool [OF i] by (simp add: s1)
  have "known (shape_of (sup st)) (ev_Pool e) (ev_Id e)" using coreD(3) [OF c, of "SendEvent e"] x(1) by simp
  then obtain a where a: "map_of (workers (pi_pool i)) (ev_Id e) = Some a" by (auto simp: known_def sh in_keys_map_of)
  have "1 \<le> tok (gos (wld st)) (ev_Pool e) (ev_Id e) a" using x by simp
  also have "\<dots> \<le> live_count (gos (wld st)) (ev_Pool e) (workers (pi_pool i))"
    unfolding live_count_def using map_of_SomeD [OF a]
    by (intro member_le_sum_list) (auto intro: image_eqI [of _ _ "(ev_Id e, a)"])
  finally have "1 \<le> runningProcesses i" using coreD(5) [OF c sh] by simp
  then obtain k where k: "nat (runningProcesses i) = Suc k" "nat (runningProcesses i - 1) = k"
    by (cases "nat (runningProcesses i)") auto
  have "counts (sup st) (ev_Pool e) = Some (Suc k)" by (simp add: counts_shape sh k)
  moreover have "counts s1 = counts (sup st)" by (simp add: fun_eq_iff counts_shape s1)
  then have "counts s2 = (counts (sup st))(ev_Pool e \<mapsto> k)"
    by (auto simp: fun_eq_iff s2 counts_def k)
  ultimately show ?thesis by blast
qed

lemma counts_set_pool [simp]: "counts (set_pool n p s) = counts s"
  by (auto simp: counts_def set_pool_def fun_eq_iff split: option.split)

lemma handleProcessEnd_keeps:
  assumes "handleProcessEnd (sys_pools S) e s g = Ret (err, s1, g1)"
  shows "counts s1 = counts s \<and> (err \<noteq> None \<longrightarrow> s1 = s)"
proof (cases "terminating s")
  case True
  from handleProcessEnd_terminating [OF this assms] show ?thesis by simp
next
  case False
  with assms obtain i p where i: "map_of (pools s) (ev_Pool e) = Some i" and s1: "s1 = set_pool (ev_Pool e) p s"
    and r: "RestartWorker (s_lib S) (sys_ops S) (cmdOpts s) (ev_Id e) (pi_pool i)
       (upd_mets (DecrementRunningIncrementTerminated (ev_Pool e)) g) = Ret (err, p, g1)"
    by (auto simp: handleProcessEnd_def Let_def split: if_splits)
  from r have "err \<noteq> None \<longrightarrow> p = pi_pool i" by (cases rule: sys.RestartWorker_cases) auto
  with i show ?thesis by (auto simp: s1 set_pool_same)
qed

lemma abs_phase: "ph (abs_state st) = phase_of (loc st)" "live (abs_state st) = counts (sup st)"
  by (simp_all add: abs_state_def)

text \<open>What a step of the shutdown loop, or leaving the main loop, does to the phase.\<close>

lemma settle_abs:
  assumes "sys_inv S st'" and "loc st' = (if terminatedProcesses st' = allProcesses st' then Returned err else ShutdownLoop)"
    and "live A = counts (sup st')" and "ph A = Stopping"
  shows "abs_state st' = settle A"
proof -
  have "terminatedProcesses st' = allProcesses st' \<longleftrightarrow> settled A"
    using counted_iff [of S st'] assms(1,3) by (simp add: sys_inv_def settled_def)
  with assms show ?thesis by (cases A) (auto simp: settle_def abs_state_def)
qed

lemma refines_main:
  assumes laws: "gocmd_laws S" and inv: "sys_inv S st" and l: "loc st = MainLoop"
    and x: "gos (wld st) = xs @ x # ys" "sends x = Some e"
    and ret: "main_event (sys_pools S) e (st\<lparr>wld := received x ((wld st)\<lparr>gos := xs @ ys\<rparr>)\<rparr>) = Ret st'"
  shows "spec_step (abs_state st) (abs_state st')"
proof -
  from inv have c: "core (s_cmd S) {} (\<lambda>_. 0) (shape_of (sup st)) (wld st)" by (simp add: sys_inv_def)
  have l': "loc st' = MainLoop" using ret l by (auto simp: main_event_def split: if_splits)
  show ?thesis
  proof (cases "ev_Type e = ProcessEnd")
    case False
    with ret obtain s1 g1 where o: "other_event False (sys_pools S) e (sup st) (received x ((wld st)\<lparr>gos := xs @ ys\<rparr>)) = Ret (s1, g1)"
      and st': "sup st' = s1" by (auto simp: main_event_def)
    have "s1 = sup st" using core_other_event [OF laws c x False o] by simp
    then have "abs_state st' = abs_state st" using st' l l' by (simp add: abs_state_def)
    then show ?thesis by (simp add: spec_step.idle)
  next
    case True
    with end_sender [OF c x] have xe: "x = SendEvent e" by simp
    from ret True obtain err s1 g1 where h: "handleProcessEnd (sys_pools S) e (sup st) ((wld st)\<lparr>gos := xs @ ys\<rparr>) = Ret (err, s1, g1)"
      by (auto simp: main_event_def xe)
    note k = handleProcessEnd_keeps [OF h]
    show ?thesis
    proof (cases err)
      case None
      with ret True h have "sup st' = s1" by (auto simp: main_event_def xe)
      with k l l' have "abs_state st' = abs_state st" by (simp add: abs_state_def)
      then show ?thesis by (simp add: spec_step.idle)
    next
      case (Some er)
      with ret True h obtain s2 g2 where t: "handleProcessTerminationDuringShutdown (sys_pools S) e s1 g1 = Ret (s2, g2)"
        and st': "sup st' = s2" by (auto simp: main_event_def xe)
      from end_counts [OF laws c x(1) [unfolded xe] True _ t] k Some obtain j where
        j: "counts (sup st) (ev_Pool e) = Some (Suc j)" "counts s2 = (counts (sup st))(ev_Pool e \<mapsto> j)" by auto
      have "abs_state st' = settle ((abs_state st)\<lparr>live := (live (abs_state st))(ev_Pool e \<mapsto> j)\<rparr>)"
        using st' j(2) l l' by (simp add: abs_state_def settle_def)
      then show ?thesis using spec_step.dies [of "abs_state st" "ev_Pool e" j] j(1) l by (simp add: abs_phase)
    qed
  qed
qed

lemma refines_shutdown:
  assumes laws: "gocmd_laws S" and inv: "sys_inv S st" "sys_inv S st'" and l: "loc st = ShutdownLoop"
    and ne: "terminatedProcesses st \<noteq> allProcesses st" and x: "gos (wld st) = xs @ x # ys" "sends x = Some e"
    and ret: "shutdown_event (sys_pools S) e (st\<lparr>wld := received x ((wld st)\<lparr>gos := xs @ ys\<rparr>)\<rparr>) = Ret st'"
  shows "spec_step (abs_state st) (abs_state st')"
proof -
  from inv(1) have c: "core (s_cmd S) {} (\<lambda>_. 0) (shape_of (sup st)) (wld st)" and sup: "sys_sup_inv S st"
    by (simp_all add: sys_inv_def)
  have t: "terminating (sup st)" using sup l by (simp add: sup_inv_def)
  from shutdown_event_loc [OF ret] l obtain err where
    l': "loc st' = (if terminatedProcesses st' = allProcesses st' then Returned err else ShutdownLoop)" by (auto split: if_splits)
  show ?thesis
  proof (cases "ev_Type e = ProcessEnd")
    case True
    with end_sender [OF c x] have xe: "x = SendEvent e" by simp
    from shutdown_event_end [OF _ True ret] t obtain g1 where
      "handleProcessTerminationDuringShutdown (sys_pools S) e (sup st) g1 = Ret (sup st', wld st')" by auto
    from end_counts [OF laws c x(1) [unfolded xe] True refl this] obtain j where
      j: "counts (sup st) (ev_Pool e) = Some (Suc j)" "counts (sup st') = (counts (sup st))(ev_Pool e \<mapsto> j)" by blast
    have "abs_state st' = settle ((abs_state st)\<lparr>live := (live (abs_state st))(ev_Pool e \<mapsto> j)\<rparr>)"
      by (rule settle_abs [OF inv(2) l']) (simp_all add: abs_state_def l j(2))
    then show ?thesis using spec_step.dies [of "abs_state st" "ev_Pool e" j] j(1) l by (simp add: abs_phase)
  next
    case False
    from core_other_event [OF laws c x False, of True] shutdown_event_other [OF False ret]
    have s: "sup st' = sup st" by simp
    have "terminatedProcesses st' \<noteq> allProcesses st'"
      using ne counted_iff [OF sup c] counted_iff [of S st'] inv(2) s by (simp add: sys_inv_def)
    with l' s l have "abs_state st' = abs_state st" by (simp add: abs_state_def)
    then show ?thesis by (simp add: spec_step.idle)
  qed
qed

lemma for_pools_counts:
  "for_pools f ns s g = Ret (s', g') \<Longrightarrow> counts s' = counts s"
  by (induction ns arbitrary: s g) (auto simp: on_pool_def)

lemma refines_ctx:
  assumes inv: "sys_inv S st'" and l: "loc st = MainLoop" and ret: "ctx_done (sys_pools S) ns st = Ret st'"
  shows "spec_step (abs_state st) (abs_state st')"
proof -
  from ret have f: "for_pools (p_InterruptAll (sys_pools S)) ns ((sup st)\<lparr>terminating := True\<rparr>)
      (upd_mets SetSigtermGauge (wld st)) = Ret (sup st', wld st')"
    and t: "terminatedProcesses st' = terminatedProcesses st" "allProcesses st' = allProcesses st"
    and l': "loc st' = (if terminatedProcesses st = allProcesses st then Returned None else ShutdownLoop)"
    by (auto simp: ctx_done_def)
  have "counts (sup st') = counts (sup st)" using for_pools_counts [OF f] by (simp add: counts_def fun_eq_iff)
  then have "abs_state st' = settle ((abs_state st)\<lparr>ph := Stopping\<rparr>)"
    by (intro settle_abs [OF inv, of None]) (simp_all add: l' t abs_state_def)
  then show ?thesis using spec_step.stop [of "abs_state st"] l by (simp add: abs_phase)
qed

text \<open>C5: The program refines its specification: every step of the whole program, whatever the
  scheduling, is a step of the counting machine \<open>spec_step\<close> under the abstraction that forgets
  everything but the phase of \<open>Run\<close> and the number of live processes per pool. So a count never
  grows, drops by one at a time, shutdown starts once, and the program is done exactly when it has
  been told to stop and no process is left; restarts are invisible.\<close>

theorem sys_step_refines:
  assumes laws: "gocmd_laws S" and re: "reachable S config st" and st: "sys_step S st st'"
  shows "spec_step (abs_state st) (abs_state st')"
proof -
  note inv = reachable_inv [OF laws re] reachable_inv [OF laws reachable.step [OF re st]]
  from st show ?thesis
  proof cases
    case (recv_main xs x ys e)
    from refines_main [OF laws inv(1) recv_main] show ?thesis .
  next
    case (recv_shutdown xs x ys e)
    from refines_shutdown [OF laws inv recv_shutdown(1) shutdown_waits [OF re recv_shutdown(1)] recv_shutdown(2-4)] show ?thesis .
  next
    case (context_done ns)
    from refines_ctx [OF inv(2) context_done(1,4)] show ?thesis .
  qed (auto simp: abs_state_def intro: spec_step.idle)
qed

theorem sys_step_refines_witness:
  "\<exists>st st'. exec_run sample sample_config reporting_run = Some st \<and> exec_label sample (Receive 0) st = Some st' \<and>
     spec_step (abs_state st) (abs_state st')"
proof -
  obtain st st' where st: "exec_run sample sample_config reporting_run = Some st" "reachable sample sample_config st"
    "exec_label sample (Receive 0) st = Some st'" by (rule reporting_state)
  from sys_step_refines [OF sample_laws st(2) exec_label_sound [OF st(3)]] st(1,3) show ?thesis by blast
qed

end
