(* ===== verification/System_Traces.thy ===== *)
theory System_Traces
  imports Samples
begin

text \<open>
  Runs of the whole program, evaluated on the environment of \<open>Samples\<close>, that show what its
  asynchronous events allow.
\<close>

definition limited_config :: SupervisorConfig where
  "limited_config = \<lparr>Workers = [(sample_worker 1)\<lparr>wc_Limits := Some \<lparr>lim_Memory = 0, Lifespan = Second, JitterRatio = 0\<rparr>\<rparr>]\<rparr>"

text \<open>The worker exceeds its lifespan and is interrupted; its signal timer expires just before it
  exits, the exit is received first, and then the timer's event.\<close>

definition stale_kill_run :: "pcmd label list" where
  "stale_kill_run = [Process 0 (pcmd_at False False), GoRun 2 True, GoRun 2 True, Receive 2, GoRun 2 True,
     Process 0 (pcmd_at True True), GoRun 1 True, GoRun 0 True, Receive 0, Receive 0]"

lemma stale_kill_end:
  "map_option (\<lambda>st. (loc st, ctxDone st, kills (wld st), gos (wld st))) (exec_run sample limited_config stale_kill_run) =
     Some (MainLoop, False, [0], [StreamLogsLoop 1, WatchExit 1, RunMonitor LifespanLim 1])"
  by code_simp

text \<open>C31: An expired signal timer outlives its worker: its \<open>ProcessNeedsTermination\<close> names the
  worker by its id, and when the worker has been replaced by then, \<open>ForceTerminateWorker\<close> strikes the
  replacement. When the replacement has no process yet its PID is 0, and the signal goes to process
  group 0, the controller's own, in the middle of normal operation: such a state is reachable with an
  environment that keeps the laws of go-cmd.\<close>

theorem stale_kill_reaches_controller:
  "\<exists>st. reachable sample limited_config st \<and> gocmd_laws sample \<and> loc st = MainLoop \<and> \<not> ctxDone st \<and> kills (wld st) = [0]"
proof -
  have "\<forall>w\<in>set (Workers limited_config). in64 (wc_MaxRestarts w)"
    by (simp add: limited_config_def sample_worker_def in64_def)
  moreover obtain st where "exec_run sample limited_config stale_kill_run = Some st"
    "loc st = MainLoop" "\<not> ctxDone st" "kills (wld st) = [0]"
    using exec_view [OF stale_kill_end] by auto
  ultimately show ?thesis using exec_run_sound sample_laws by blast
qed

end
