(* ===== verification/Go_Utf8.thy ===== *)
theory Go_Utf8
  imports Prelude
begin

text \<open>
  \<open>unicode/utf8\<close> as \<open>encoding/json\<close> uses it. A Go string is a list of bytes, here of
  characters; a rune is a code point. \<open>DecodeRune\<close> gives the first rune and its width, and
  \<open>RuneError\<close> with width 1 for a byte that does not start a well-formed encoding.
\<close>

abbreviation byte :: "char \<Rightarrow> nat" where
  "byte c \<equiv> of_char c"

definition RuneError :: nat where
  "RuneError = 65533"

definition cont_byte :: "char \<Rightarrow> bool" where
  "cont_byte c \<longleftrightarrow> 128 \<le> byte c \<and> byte c < 192"

definition surrogate :: "nat \<Rightarrow> bool" where
  "surrogate r \<longleftrightarrow> 55296 \<le> r \<and> r < 57344"

definition valid_rune :: "nat \<Rightarrow> bool" where
  "valid_rune r \<longleftrightarrow> r < 1114112 \<and> \<not> surrogate r"

text \<open>The ranges of the second byte exclude overlong forms, surrogates and values past \<open>10FFFF\<close>.\<close>

definition DecodeRune :: "string \<Rightarrow> nat \<times> nat" where
  "DecodeRune s =
     (case s of
        [] \<Rightarrow> (RuneError, 0)
      | c0 # s1 \<Rightarrow>
          if byte c0 < 128 then (byte c0, 1)
          else if 194 \<le> byte c0 \<and> byte c0 < 224 then
            (case s1 of
               c1 # _ \<Rightarrow> if cont_byte c1 then ((byte c0 - 192) * 64 + (byte c1 - 128), 2) else (RuneError, 1)
             | _ \<Rightarrow> (RuneError, 1))
          else if 224 \<le> byte c0 \<and> byte c0 < 240 then
            (case s1 of
               c1 # c2 # _ \<Rightarrow>
                 if cont_byte c1 \<and> cont_byte c2 \<and> (byte c0 = 224 \<longrightarrow> 160 \<le> byte c1) \<and> (byte c0 = 237 \<longrightarrow> byte c1 < 160)
                 then ((byte c0 - 224) * 4096 + (byte c1 - 128) * 64 + (byte c2 - 128), 3) else (RuneError, 1)
             | _ \<Rightarrow> (RuneError, 1))
          else if 240 \<le> byte c0 \<and> byte c0 < 245 then
            (case s1 of
               c1 # c2 # c3 # _ \<Rightarrow>
                 if cont_byte c1 \<and> cont_byte c2 \<and> cont_byte c3 \<and> (byte c0 = 240 \<longrightarrow> 144 \<le> byte c1) \<and>
                    (byte c0 = 244 \<longrightarrow> byte c1 < 144)
                 then ((byte c0 - 240) * 262144 + (byte c1 - 128) * 4096 + (byte c2 - 128) * 64 + (byte c3 - 128), 4)
                 else (RuneError, 1)
             | _ \<Rightarrow> (RuneError, 1))
          else (RuneError, 1))"

definition bytes :: "nat list \<Rightarrow> string" where
  "bytes ns = map char_of ns"

definition EncodeRune :: "nat \<Rightarrow> string" where
  "EncodeRune r =
     (if r < 128 then bytes [r]
      else if r < 2048 then bytes [192 + r div 64, 128 + r mod 64]
      else if \<not> valid_rune r then bytes [239, 191, 189]
      else if r < 65536 then bytes [224 + r div 4096, 128 + r div 64 mod 64, 128 + r mod 64]
      else bytes [240 + r div 262144, 128 + r div 4096 mod 64, 128 + r div 64 mod 64, 128 + r mod 64])"

text \<open>A failed decoding: \<open>RuneError\<close> with width 1.\<close>

definition bad_rune :: "string \<Rightarrow> bool" where
  "bad_rune s \<longleftrightarrow> snd (DecodeRune s) \<le> 1 \<and> fst (DecodeRune s) = RuneError"

subsection \<open>Decoding and encoding are inverse\<close>

lemma byte_less [simp]: "byte c < 256"
  by (metis of_char_mod_256 mod_less_divisor zero_less_numeral)

lemma byte_char_of [simp]: "n < 256 \<Longrightarrow> byte (char_of n) = n"
  by simp

lemma DecodeRune_ascii: "byte c < 128 \<Longrightarrow> DecodeRune (c # s) = (byte c, 1)"
  by (simp add: DecodeRune_def)

text \<open>The ways a decoding can end.\<close>

lemma DecodeRune_cases:
  assumes "s \<noteq> []"
  obtains (bad) "DecodeRune s = (RuneError, 1)" "bad_rune s"
  | (one) c t where "s = c # t" "byte c < 128" "DecodeRune s = (byte c, 1)"
  | (two) c0 c1 t where "s = c0 # c1 # t" "194 \<le> byte c0" "byte c0 < 224" "cont_byte c1"
      "DecodeRune s = ((byte c0 - 192) * 64 + (byte c1 - 128), 2)"
  | (three) c0 c1 c2 t where "s = c0 # c1 # c2 # t" "224 \<le> byte c0" "byte c0 < 240" "cont_byte c1" "cont_byte c2"
      "byte c0 = 224 \<longrightarrow> 160 \<le> byte c1" "byte c0 = 237 \<longrightarrow> byte c1 < 160"
      "DecodeRune s = ((byte c0 - 224) * 4096 + (byte c1 - 128) * 64 + (byte c2 - 128), 3)"
  | (four) c0 c1 c2 c3 t where "s = c0 # c1 # c2 # c3 # t" "240 \<le> byte c0" "byte c0 < 245" "cont_byte c1" "cont_byte c2"
      "cont_byte c3" "byte c0 = 240 \<longrightarrow> 144 \<le> byte c1" "byte c0 = 244 \<longrightarrow> byte c1 < 144"
      "DecodeRune s = ((byte c0 - 240) * 262144 + (byte c1 - 128) * 4096 + (byte c2 - 128) * 64 + (byte c3 - 128), 4)"
proof (cases "DecodeRune s = (RuneError, 1)")
  case True
  with bad show ?thesis by (simp add: bad_rune_def)
next
  case False
  from assms obtain c0 s1 where s: "s = c0 # s1" by (cases s) auto
  consider "byte c0 < 128" | "194 \<le> byte c0" "byte c0 < 224" | "224 \<le> byte c0" "byte c0 < 240" | "240 \<le> byte c0" "byte c0 < 245"
    using False s by (auto simp: DecodeRune_def not_less split: if_splits)
  then show ?thesis
  proof cases
    case 1
    with one s show ?thesis by (simp add: DecodeRune_def)
  next
    case 2
    with False s obtain c1 t where "s1 = c1 # t" "cont_byte c1" by (auto simp: DecodeRune_def split: if_splits list.splits)
    with 2 two s show ?thesis by (simp add: DecodeRune_def)
  next
    case 3
    with False s obtain c1 c2 t where "s1 = c1 # c2 # t" "cont_byte c1" "cont_byte c2"
      "byte c0 = 224 \<longrightarrow> 160 \<le> byte c1" "byte c0 = 237 \<longrightarrow> byte c1 < 160"
      by (auto simp: DecodeRune_def split: if_splits list.splits)
    with 3 three s show ?thesis by (simp add: DecodeRune_def)
  next
    case 4
    with False s obtain c1 c2 c3 t where "s1 = c1 # c2 # c3 # t" "cont_byte c1" "cont_byte c2" "cont_byte c3"
      "byte c0 = 240 \<longrightarrow> 144 \<le> byte c1" "byte c0 = 244 \<longrightarrow> byte c1 < 144"
      by (auto simp: DecodeRune_def split: if_splits list.splits)
    with 4 four s show ?thesis by (simp add: DecodeRune_def)
  qed
qed

lemma radix64:
  fixes q c :: nat
  assumes "c < 64"
  shows "(q * 64 + c) div 64 = q" "(q * 64 + c) mod 64 = c"
  using assms by simp_all

lemma div64: "(r::nat) div 4096 = r div 64 div 64" "r div 262144 = r div 64 div 64 div 64"
  by (simp_all add: div_mult2_eq [symmetric])

lemma split64: obtains a b where "(q::nat) = a * 64 + b" "b < 64"
  by (rule that [of "q div 64" "q mod 64"]) simp_all

lemma EncodeRune_bytes:
  "128 \<le> r \<Longrightarrow> r < 2048 \<Longrightarrow> EncodeRune r = bytes [192 + r div 64, 128 + r mod 64]"
  "2048 \<le> r \<Longrightarrow> r < 65536 \<Longrightarrow> valid_rune r \<Longrightarrow>
     EncodeRune r = bytes [224 + r div 4096, 128 + r div 64 mod 64, 128 + r mod 64]"
  "65536 \<le> r \<Longrightarrow> valid_rune r \<Longrightarrow>
     EncodeRune r = bytes [240 + r div 262144, 128 + r div 4096 mod 64, 128 + r div 64 mod 64, 128 + r mod 64]"
  by (simp_all add: EncodeRune_def)

lemma bytes_byte: "bytes (map byte s) = s"
  by (simp add: bytes_def comp_def)

lemma DecodeRune_bytes:
  "194 \<le> a \<Longrightarrow> a < 224 \<Longrightarrow> b < 64 \<Longrightarrow> DecodeRune (bytes [a, 128 + b] @ t) = ((a - 192) * 64 + b, 2)"
  "224 \<le> a \<Longrightarrow> a < 240 \<Longrightarrow> b < 64 \<Longrightarrow> c < 64 \<Longrightarrow> (a = 224 \<longrightarrow> 32 \<le> b) \<Longrightarrow> (a = 237 \<longrightarrow> b < 32) \<Longrightarrow>
     DecodeRune (bytes [a, 128 + b, 128 + c] @ t) = ((a - 224) * 4096 + b * 64 + c, 3)"
  "240 \<le> a \<Longrightarrow> a < 245 \<Longrightarrow> b < 64 \<Longrightarrow> c < 64 \<Longrightarrow> d < 64 \<Longrightarrow> (a = 240 \<longrightarrow> 16 \<le> b) \<Longrightarrow> (a = 244 \<longrightarrow> b < 16) \<Longrightarrow>
     DecodeRune (bytes [a, 128 + b, 128 + c, 128 + d] @ t) = ((a - 240) * 262144 + b * 4096 + c * 64 + d, 4)"
  by (simp_all add: DecodeRune_def bytes_def cont_byte_def)

lemma valid_RuneError [simp]: "valid_rune RuneError"
  by (simp add: valid_rune_def surrogate_def RuneError_def)

lemma EncodeRune_invalid: "\<not> valid_rune r \<Longrightarrow> EncodeRune r = EncodeRune RuneError"
  by (auto simp: EncodeRune_def valid_rune_def surrogate_def RuneError_def bytes_def)

text \<open>A successful decoding reads exactly the bytes that encode its rune, and depends on no others.\<close>

lemma DecodeRune_good:
  assumes "s \<noteq> []" and "\<not> bad_rune s"
  shows "\<exists>r u t. s = u @ t \<and> valid_rune r \<and> DecodeRune s = (r, length u) \<and> u = EncodeRune r \<and> u \<noteq> [] \<and>
     (\<forall>v. DecodeRune (u @ v) = (r, length u))"
  using assms(1)
proof (cases rule: DecodeRune_cases)
  case bad
  with assms(2) show ?thesis by simp
next
  case (one c t)
  then show ?thesis
    by (intro exI [of _ "byte c"] exI [of _ "[c]"] exI [of _ t])
      (simp add: DecodeRune_ascii EncodeRune_def bytes_def valid_rune_def surrogate_def)
next
  case (two c0 c1 t)
  define x y where "x = byte c0 - 192" and "y = byte c1 - 128"
  then have xy: "byte c0 = 192 + x" "byte c1 = 128 + y" "2 \<le> x" "x < 32" "y < 64" using two by (auto simp: cont_byte_def)
  let ?r = "x * 64 + y"
  have v: "valid_rune ?r" "128 \<le> ?r" "?r < 2048" using xy by (auto simp: valid_rune_def surrogate_def)
  have "bytes [192 + ?r div 64, 128 + ?r mod 64] = [c0, c1]"
    using bytes_byte [of "[c0, c1]"] xy radix64 [OF xy(5), of x] by simp
  with EncodeRune_bytes(1) [OF v(2,3)] have "EncodeRune ?r = [c0, c1]" by simp
  with two v show ?thesis
    by (intro exI [of _ ?r] exI [of _ "[c0, c1]"] exI [of _ t]) (simp add: x_def y_def DecodeRune_def)
next
  case (three c0 c1 c2 t)
  define x y z where "x = byte c0 - 224" and "y = byte c1 - 128" and "z = byte c2 - 128"
  then have xy: "byte c0 = 224 + x" "byte c1 = 128 + y" "byte c2 = 128 + z" "x < 16" "y < 64" "z < 64"
    "x = 0 \<longrightarrow> 32 \<le> y" "x = 13 \<longrightarrow> y < 32" using three by (auto simp: cont_byte_def)
  let ?r = "(x * 64 + y) * 64 + z"
  have "x < 13 \<or> x = 13 \<or> 14 \<le> x" by linarith
  with xy have v: "valid_rune ?r" "2048 \<le> ?r" "?r < 65536" by (auto simp: valid_rune_def surrogate_def)
  have "bytes [224 + ?r div 4096, 128 + ?r div 64 mod 64, 128 + ?r mod 64] = [c0, c1, c2]"
    using bytes_byte [of "[c0, c1, c2]"] xy unfolding div64 radix64 [OF xy(6)] radix64 [OF xy(5)] by simp
  with EncodeRune_bytes(2) [OF v(2,3,1)] have "EncodeRune ?r = [c0, c1, c2]" by simp
  moreover have "?r = x * 4096 + y * 64 + z" by simp
  ultimately show ?thesis using three v
    by (intro exI [of _ ?r] exI [of _ "[c0, c1, c2]"] exI [of _ t]) (simp add: x_def y_def z_def DecodeRune_def)
next
  case (four c0 c1 c2 c3 t)
  define x y z u where "x = byte c0 - 240" and "y = byte c1 - 128" and "z = byte c2 - 128" and "u = byte c3 - 128"
  then have xy: "byte c0 = 240 + x" "byte c1 = 128 + y" "byte c2 = 128 + z" "byte c3 = 128 + u" "x < 5" "y < 64" "z < 64" "u < 64"
    "x = 0 \<longrightarrow> 16 \<le> y" "x = 4 \<longrightarrow> y < 16" using four by (auto simp: cont_byte_def)
  let ?r = "((x * 64 + y) * 64 + z) * 64 + u"
  have v: "valid_rune ?r" "65536 \<le> ?r" using xy by (auto simp: valid_rune_def surrogate_def)
  have "bytes [240 + ?r div 262144, 128 + ?r div 4096 mod 64, 128 + ?r div 64 mod 64, 128 + ?r mod 64] = [c0, c1, c2, c3]"
    using bytes_byte [of "[c0, c1, c2, c3]"] xy unfolding div64 radix64 [OF xy(8)] radix64 [OF xy(7)] radix64 [OF xy(6)] by simp
  with EncodeRune_bytes(3) [OF v(2,1)] have "EncodeRune ?r = [c0, c1, c2, c3]" by simp
  moreover have "?r = x * 262144 + y * 4096 + z * 64 + u" by simp
  ultimately show ?thesis using four v
    by (intro exI [of _ ?r] exI [of _ "[c0, c1, c2, c3]"] exI [of _ t]) (simp add: x_def y_def z_def u_def DecodeRune_def)
qed

text \<open>Decoding reads back every encoded rune, whatever follows.\<close>

lemma DecodeRune_EncodeRune:
  assumes "valid_rune r"
  shows "DecodeRune (EncodeRune r @ t) = (r, length (EncodeRune r))"
proof -
  consider "r < 128" | "128 \<le> r" "r < 2048" | "2048 \<le> r" "r < 65536" | "65536 \<le> r" by linarith
  then show ?thesis
  proof cases
    case 1
    then show ?thesis by (simp add: EncodeRune_def bytes_def DecodeRune_def)
  next
    case 2
    then have "194 \<le> 192 + r div 64" "192 + r div 64 < 224" "r mod 64 < 64" by auto
    from DecodeRune_bytes(1) [OF this, of t] EncodeRune_bytes(1) [OF 2] show ?thesis by (simp add: bytes_def)
  next
    case 3
    obtain q c where r: "r = q * 64 + c" "c < 64" by (rule split64)
    obtain a b where q: "q = a * 64 + b" "b < 64" by (rule split64)
    have "a < 16" "a = 0 \<longrightarrow> 32 \<le> b" "a = 13 \<longrightarrow> b < 32"
      using 3 assms r q by (auto simp: valid_rune_def surrogate_def)
    with DecodeRune_bytes(2) [of "224 + a" b c t] EncodeRune_bytes(2) [OF 3 assms] r(2) q(2)
    show ?thesis unfolding div64 r(1) q(1) radix64 [OF r(2)] radix64 [OF q(2)] by (simp add: bytes_def)
  next
    case 4
    obtain p d where r: "r = p * 64 + d" "d < 64" by (rule split64)
    obtain q c where p: "p = q * 64 + c" "c < 64" by (rule split64)
    obtain a b where q: "q = a * 64 + b" "b < 64" by (rule split64)
    have "a < 5" "a = 0 \<longrightarrow> 16 \<le> b" "a = 4 \<longrightarrow> b < 16"
      using 4 assms r p q by (auto simp: valid_rune_def)
    with DecodeRune_bytes(3) [of "240 + a" b c d t] EncodeRune_bytes(3) [OF 4 assms] r(2) p(2) q(2)
    show ?thesis unfolding div64 r(1) p(1) q(1) radix64 [OF r(2)] radix64 [OF p(2)] radix64 [OF q(2)] by (simp add: bytes_def)
  qed
qed

end
