(* ===== verification/Go_Json.thy ===== *)
theory Go_Json
  imports Go_Utf8 Go_Errors "HOL-Library.List_Lexorder" "HOL-Library.Char_ord"
begin

text \<open>
  \<open>encoding/json\<close> as the log streamer uses it: \<open>json.Valid\<close>, \<open>json.Unmarshal\<close> into a
  \<open>map[string]interface{}\<close> and \<open>json.Marshal\<close> of such a map. A Go map is the list of its
  entries in the order of the keys, which is its canonical form.

  A number becomes a \<open>float64\<close> and is printed as the shortest decimal that reads back as the same
  float; both conversions are \<open>strconv\<close>'s, so they are the argument \<open>num\<close>: the text printed
  for the float a literal denotes, and \<open>None\<close> for a literal out of range. A float is identified
  with its text.
\<close>

datatype json =
    JNull
  | JBool bool
  | JNum string
  | JStr string
  | JArr "json list"
  | JObj "(string \<times> json) list"

subsection \<open>Strings\<close>

definition hex_digit :: "nat \<Rightarrow> char" where
  "hex_digit n = ''0123456789abcdef'' ! n"

definition hex_val :: "char \<Rightarrow> nat option" where
  "hex_val c =
     (if 48 \<le> byte c \<and> byte c < 58 then Some (byte c - 48)
      else if 97 \<le> byte c \<and> byte c < 103 then Some (byte c - 87)
      else if 65 \<le> byte c \<and> byte c < 71 then Some (byte c - 55)
      else None)"

definition getu4 :: "string \<Rightarrow> nat option" where
  "getu4 s =
     (case s of
        a # b # c # d # _ \<Rightarrow>
          (case (hex_val a, hex_val b, hex_val c, hex_val d) of
             (Some a, Some b, Some c, Some d) \<Rightarrow> Some (((a * 16 + b) * 16 + c) * 16 + d)
           | _ \<Rightarrow> None)
      | _ \<Rightarrow> None)"

abbreviation dquote :: char where "dquote \<equiv> CHR 0x22"
abbreviation backslash :: char where "backslash \<equiv> CHR 0x5C"

text \<open>The escapes of a printed string (\<open>appendString\<close> with \<open>escapeHTML\<close>, as of Go 1.22).\<close>

definition escape :: "char \<Rightarrow> string" where
  "escape c =
     (if c = dquote \<or> c = backslash then [backslash, c]
      else if byte c = 8 then [backslash, CHR ''b'']
      else if byte c = 12 then [backslash, CHR ''f'']
      else if byte c = 10 then [backslash, CHR ''n'']
      else if byte c = 13 then [backslash, CHR ''r'']
      else if byte c = 9 then [backslash, CHR ''t'']
      else if byte c < 32 \<or> c = CHR ''<'' \<or> c = CHR ''>'' \<or> c = CHR ''&''
      then [backslash, CHR ''u'', CHR ''0'', CHR ''0'', hex_digit (byte c div 16), hex_digit (byte c mod 16)]
      else [c])"

function quote_body :: "string \<Rightarrow> string" where
  "quote_body [] = []"
| "quote_body (c # s) =
     (if byte c < 128 then escape c @ quote_body s
      else if bad_rune (c # s) then backslash # ''ufffd'' @ quote_body s
      else
        let r = fst (DecodeRune (c # s)); n = snd (DecodeRune (c # s)) - 1
        in (if r = 8232 \<or> r = 8233 then backslash # ''u202'' @ [hex_digit (r mod 16)] else c # take n s) @
           quote_body (drop n s))"
  by pat_completeness auto
termination by (relation "measure length") auto

definition quote :: "string \<Rightarrow> string" where
  "quote s = dquote # quote_body s @ [dquote]"

text \<open>Reading a string, from behind the opening quote: the bytes it denotes and the rest.\<close>

definition unescape :: "char \<Rightarrow> char option" where
  "unescape e =
     (if e = dquote \<or> e = backslash \<or> e = CHR ''/'' then Some e
      else if e = CHR ''b'' then Some (char_of (8::nat))
      else if e = CHR ''f'' then Some (char_of (12::nat))
      else if e = CHR ''n'' then Some (char_of (10::nat))
      else if e = CHR ''r'' then Some (char_of (13::nat))
      else if e = CHR ''t'' then Some (char_of (9::nat))
      else None)"

definition prepend :: "string \<Rightarrow> (string \<times> string) option \<Rightarrow> (string \<times> string) option" where
  "prepend u x = map_option (\<lambda>(t, r). (u @ t, r)) x"

definition low_surrogate :: "string \<Rightarrow> nat option" where
  "low_surrogate s =
     (case s of
        b # u # r \<Rightarrow>
          if b = backslash \<and> u = CHR ''u'' then
            (case getu4 r of Some x \<Rightarrow> if 56320 \<le> x \<and> x < 57344 then Some x else None | None \<Rightarrow> None)
          else None
      | _ \<Rightarrow> None)"

function str_body :: "string \<Rightarrow> (string \<times> string) option" where
  "str_body [] = None"
| "str_body (c # s) =
     (if c = dquote then Some ([], s)
      else if c = backslash then
        (case s of
           [] \<Rightarrow> None
         | e # s1 \<Rightarrow>
             if e = CHR ''u'' then
               (case getu4 s1 of
                  None \<Rightarrow> None
                | Some r \<Rightarrow>
                    if surrogate r then
                      (case (if r < 56320 then low_surrogate (drop 4 s1) else None) of
                         Some r2 \<Rightarrow>
                           prepend (EncodeRune ((r - 55296) * 1024 + (r2 - 56320) + 65536)) (str_body (drop 10 s1))
                       | None \<Rightarrow> prepend (EncodeRune RuneError) (str_body (drop 4 s1)))
                    else prepend (EncodeRune r) (str_body (drop 4 s1)))
             else (case unescape e of None \<Rightarrow> None | Some c' \<Rightarrow> prepend [c'] (str_body s1)))
      else if byte c < 32 then None
      else if byte c < 128 then prepend [c] (str_body s)
      else prepend (EncodeRune (fst (DecodeRune (c # s)))) (str_body (drop (snd (DecodeRune (c # s)) - 1) s)))"
  by pat_completeness auto
termination by (relation "measure length") auto

subsection \<open>Numbers\<close>

definition is_digit :: "char \<Rightarrow> bool" where
  "is_digit c \<longleftrightarrow> 48 \<le> byte c \<and> byte c < 58"

definition digits :: "string \<Rightarrow> (string \<times> string) option" where
  "digits s = (if takeWhile is_digit s = [] then None else Some (takeWhile is_digit s, dropWhile is_digit s))"

definition num_int :: "string \<Rightarrow> (string \<times> string) option" where
  "num_int s = (case s of [] \<Rightarrow> None | c # r \<Rightarrow> if c = CHR ''0'' then Some ([c], r) else digits s)"

definition num_frac :: "string \<Rightarrow> (string \<times> string) option" where
  "num_frac s =
     (case s of
        c # r \<Rightarrow> if c = CHR ''.'' then prepend [c] (digits r) else Some ([], s)
      | [] \<Rightarrow> Some ([], s))"

definition num_exp :: "string \<Rightarrow> (string \<times> string) option" where
  "num_exp s =
     (case s of
        c # r \<Rightarrow>
          if c = CHR ''e'' \<or> c = CHR ''E'' then
            (case r of
               x # r1 \<Rightarrow> if x = CHR ''+'' \<or> x = CHR ''-'' then prepend [c, x] (digits r1) else prepend [c] (digits r)
             | [] \<Rightarrow> None)
          else Some ([], s)
      | [] \<Rightarrow> Some ([], s))"

definition num_abs :: "string \<Rightarrow> (string \<times> string) option" where
  "num_abs s =
     (case num_int s of None \<Rightarrow> None | Some (i, r1) \<Rightarrow>
       (case num_frac r1 of None \<Rightarrow> None | Some (f, r2) \<Rightarrow> prepend (i @ f) (num_exp r2)))"

definition number :: "string \<Rightarrow> (string \<times> string) option" where
  "number s =
     (case s of
        c # r \<Rightarrow> if c = CHR ''-'' then prepend [c] (num_abs r) else num_abs s
      | [] \<Rightarrow> None)"

subsection \<open>Values\<close>

definition is_ws :: "char \<Rightarrow> bool" where
  "is_ws c \<longleftrightarrow> c = CHR '' '' \<or> byte c = 9 \<or> byte c = 10 \<or> byte c = 13"

definition skip_ws :: "string \<Rightarrow> string" where
  "skip_ws s = dropWhile is_ws s"

definition expect :: "string \<Rightarrow> string \<Rightarrow> string option" where
  "expect u s = (if take (length u) s = u then Some (drop (length u) s) else None)"

text \<open>
  The scanner: a value, the elements of an array behind \<open>[\<close>, the members of an object behind
  \<open>{\<close>. The first argument bounds the recursion (\<open>scan_fuel\<close> is enough for every input), the
  second is the nesting depth that is left of \<open>maxNestingDepth\<close>.
\<close>

fun p_value :: "nat \<Rightarrow> int \<Rightarrow> string \<Rightarrow> (json \<times> string) option"
  and p_elems :: "nat \<Rightarrow> int \<Rightarrow> string \<Rightarrow> (json list \<times> string) option"
  and p_members :: "nat \<Rightarrow> int \<Rightarrow> string \<Rightarrow> ((string \<times> json) list \<times> string) option" where
  "p_value 0 d s = None"
| "p_value (Suc n) d s =
     (case s of
        [] \<Rightarrow> None
      | c # r \<Rightarrow>
          if c = dquote then map_option (\<lambda>(t, r'). (JStr t, r')) (str_body r)
          else if c = CHR ''{'' then
            (if d \<le> 0 then None
             else case expect ''}'' (skip_ws r) of
                 Some r' \<Rightarrow> Some (JObj [], r')
               | None \<Rightarrow> map_option (\<lambda>(ms, r'). (JObj ms, r')) (p_members n (d - 1) r))
          else if c = CHR ''['' then
            (if d \<le> 0 then None
             else case expect '']'' (skip_ws r) of
                 Some r' \<Rightarrow> Some (JArr [], r')
               | None \<Rightarrow> map_option (\<lambda>(vs, r'). (JArr vs, r')) (p_elems n (d - 1) r))
          else if c = CHR ''t'' then map_option (\<lambda>r'. (JBool True, r')) (expect ''rue'' r)
          else if c = CHR ''f'' then map_option (\<lambda>r'. (JBool False, r')) (expect ''alse'' r)
          else if c = CHR ''n'' then map_option (\<lambda>r'. (JNull, r')) (expect ''ull'' r)
          else map_option (\<lambda>(t, r'). (JNum t, r')) (number s))"
| "p_elems 0 d s = None"
| "p_elems (Suc n) d s =
     (case p_value n d (skip_ws s) of
        None \<Rightarrow> None
      | Some (v, r) \<Rightarrow>
          (case expect '','' (skip_ws r) of
             Some r' \<Rightarrow> map_option (\<lambda>(vs, r''). (v # vs, r'')) (p_elems n d r')
           | None \<Rightarrow> map_option (\<lambda>r'. ([v], r')) (expect '']'' (skip_ws r))))"
| "p_members 0 d s = None"
| "p_members (Suc n) d s =
     (case expect [dquote] (skip_ws s) of
        None \<Rightarrow> None
      | Some r0 \<Rightarrow>
     (case str_body r0 of
        None \<Rightarrow> None
      | Some (k, r1) \<Rightarrow>
     (case expect '':'' (skip_ws r1) of
        None \<Rightarrow> None
      | Some r2 \<Rightarrow>
     (case p_value n d (skip_ws r2) of
        None \<Rightarrow> None
      | Some (v, r3) \<Rightarrow>
          (case expect '','' (skip_ws r3) of
             Some r4 \<Rightarrow> map_option (\<lambda>(ms, r'). ((k, v) # ms, r')) (p_members n d r4)
           | None \<Rightarrow> map_option (\<lambda>r'. ([(k, v)], r')) (expect ''}'' (skip_ws r3)))))))"

definition maxNestingDepth :: int where
  "maxNestingDepth = 10000"

definition scan_fuel :: "string \<Rightarrow> nat" where
  "scan_fuel s = 2 * length s + 2"

definition json_scan :: "string \<Rightarrow> json option" where
  "json_scan s =
     (case p_value (scan_fuel s) maxNestingDepth (skip_ws s) of
        Some (v, r) \<Rightarrow> if skip_ws r = [] then Some v else None
      | None \<Rightarrow> None)"

definition json_Valid :: "string \<Rightarrow> bool" where
  "json_Valid s \<longleftrightarrow> json_scan s \<noteq> None"

text \<open>
  Decoding: objects become maps, the last of several members with the same key counts, and a
  number out of range is an error, also in a member that is overwritten.
\<close>

definition put :: "(string \<times> json) list \<Rightarrow> string \<Rightarrow> json \<Rightarrow> (string \<times> json) list" where
  "put m k v = sort_key fst (AList.update k v m)"

definition to_map :: "(string \<times> json) list \<Rightarrow> (string \<times> json) list" where
  "to_map ms = foldl (\<lambda>m (k, v). put m k v) [] ms"

fun decode :: "(string \<Rightarrow> string option) \<Rightarrow> json \<Rightarrow> json option"
  and decode_list :: "(string \<Rightarrow> string option) \<Rightarrow> json list \<Rightarrow> json list option"
  and decode_members :: "(string \<Rightarrow> string option) \<Rightarrow> (string \<times> json) list \<Rightarrow> (string \<times> json) list option" where
  "decode num (JNum t) = map_option JNum (num t)"
| "decode num (JArr vs) = map_option JArr (decode_list num vs)"
| "decode num (JObj ms) = map_option (\<lambda>ms. JObj (to_map ms)) (decode_members num ms)"
| "decode num v = Some v"
| "decode_list num [] = Some []"
| "decode_list num (v # vs) =
     (case decode num v of None \<Rightarrow> None | Some w \<Rightarrow> map_option ((#) w) (decode_list num vs))"
| "decode_members num [] = Some []"
| "decode_members num ((k, v) # ms) =
     (case decode num v of None \<Rightarrow> None | Some w \<Rightarrow> map_option ((#) (k, w)) (decode_members num ms))"

text \<open>\<open>json.Unmarshal(s, &m)\<close> for a nil map \<open>m\<close>: \<open>null\<close> leaves it nil.\<close>

definition json_Unmarshal :: "(string \<Rightarrow> string option) \<Rightarrow> string \<Rightarrow> error + (string \<times> json) list option" where
  "json_Unmarshal num s =
     (case json_scan s of
        None \<Rightarrow> Inl (LibErr ''invalid character'')
      | Some JNull \<Rightarrow> Inr None
      | Some (JObj ms) \<Rightarrow>
          (case decode_members num ms of
             None \<Rightarrow> Inl (LibErr ''json: cannot unmarshal number into Go value of type float64'')
           | Some ms' \<Rightarrow> Inr (Some (to_map ms')))
      | Some _ \<Rightarrow> Inl (LibErr ''json: cannot unmarshal into Go value of type map[string]interface {}''))"

text \<open>Encoding. Every value a decoded map can hold has an encoding, so this never fails.\<close>

fun comma_sep :: "string list \<Rightarrow> string" where
  "comma_sep [] = []"
| "comma_sep [x] = x"
| "comma_sep (x # y # xs) = x @ CHR '','' # comma_sep (y # xs)"

lemma size_member: "(k, v) \<in> set ms \<Longrightarrow> size v < Suc (size_list (size_prod (\<lambda>_. 0) size) ms)"
  by (induction ms) auto

lemma size_elem: "v \<in> set vs \<Longrightarrow> size v < Suc (size_list size vs)"
  by (induction vs) auto

function json_Marshal :: "json \<Rightarrow> string" where
  "json_Marshal JNull = ''null''"
| "json_Marshal (JBool b) = (if b then ''true'' else ''false'')"
| "json_Marshal (JNum t) = t"
| "json_Marshal (JStr s) = quote s"
| "json_Marshal (JArr vs) = CHR ''['' # comma_sep (map json_Marshal vs) @ '']''"
| "json_Marshal (JObj ms) =
     CHR ''{'' # comma_sep (map (\<lambda>(k, v). quote k @ CHR '':'' # json_Marshal v) (sort_key fst ms)) @ ''}''"
  by pat_completeness auto
termination by (relation "measure size") (auto dest: size_member size_elem)

end
