(* ===== verification/Json_Roundtrip.thy ===== *)
theory Json_Roundtrip
  imports Go_Json
begin

text \<open>
  What the JSON model guarantees: reading a printed string or value gives it back, printed text has
  no control character (so it stays on one line), decoded values can be printed, and the bound on
  the scanner's recursion is never reached.
\<close>

subsection \<open>Strings\<close>

function utf8_Valid :: "string \<Rightarrow> bool" where
  "utf8_Valid [] \<longleftrightarrow> True"
| "utf8_Valid (c # s) \<longleftrightarrow> \<not> bad_rune (c # s) \<and> utf8_Valid (drop (snd (DecodeRune (c # s)) - 1) s)"
  by pat_completeness auto
termination by (relation "measure length") auto

lemma prepend_simps [simp]:
  "prepend u None = None" "prepend u (Some (t, r)) = Some (u @ t, r)" "prepend u (prepend v x) = prepend (u @ v) x"
  by (cases x; auto simp: prepend_def)+

declare str_body.simps(2) [simp del]

lemma prepend_eq_Some: "prepend u x = Some (t, r) \<longleftrightarrow> (\<exists>t'. x = Some (t', r) \<and> t = u @ t')"
  by (auto simp: prepend_def)

lemma hex_val_digit: "n < 16 \<Longrightarrow> hex_val (hex_digit n) = Some n"
proof -
  have "\<forall>n\<in>set [0..<16]. hex_val (hex_digit n) = Some n" by code_simp
  then show "n < 16 \<Longrightarrow> hex_val (hex_digit n) = Some n" by simp
qed

lemma getu4_00: "n < 128 \<Longrightarrow> getu4 (CHR ''0'' # CHR ''0'' # hex_digit (n div 16) # hex_digit (n mod 16) # t) = Some n"
  using hex_val_digit [of "n div 16"] hex_val_digit [of "n mod 16"] hex_val_digit [of 0]
  by (simp add: getu4_def hex_digit_def [of 0])

lemma EncodeRune_ascii: "byte c < 128 \<Longrightarrow> EncodeRune (byte c) = [c]"
  by (simp add: EncodeRune_def bytes_def)

lemma unescape_simps:
  "unescape dquote = Some dquote" "unescape backslash = Some backslash"
  "unescape (CHR ''b'') = Some (char_of (8::nat))" "unescape (CHR ''f'') = Some (char_of (12::nat))"
  "unescape (CHR ''n'') = Some (char_of (10::nat))" "unescape (CHR ''r'') = Some (char_of (13::nat))"
  "unescape (CHR ''t'') = Some (char_of (9::nat))"
  by (simp_all add: unescape_def)

lemma str_escape: "byte c < 128 \<Longrightarrow> str_body (escape c @ t) = prepend [c] (str_body t)"
proof -
  assume c: "byte c < 128"
  have u: "str_body (backslash # CHR ''u'' # CHR ''0'' # CHR ''0'' # hex_digit (byte c div 16) # hex_digit (byte c mod 16) # t) =
      prepend [c] (str_body t)"
    using c by (simp add: getu4_00 surrogate_def EncodeRune_ascii str_body.simps)
  have e: "char_of k = c" if "byte c = k" for k :: nat using that by auto
  have v: "str_body (backslash # e # t) = prepend [c'] (str_body t)" if "unescape e = Some c'" for e c'
    using that by (auto simp: str_body.simps(2) [of backslash] unescape_def split: if_splits)
  have w: "str_body (c # t) = prepend [c] (str_body t)" if "c \<noteq> dquote" "c \<noteq> backslash" "\<not> byte c < 32"
    using that c by (simp add: str_body.simps(2) [of c])
  show ?thesis
    unfolding escape_def using u w v [OF unescape_simps(1)] v [OF unescape_simps(2)] v [OF unescape_simps(3)]
      v [OF unescape_simps(4)] v [OF unescape_simps(5)] v [OF unescape_simps(6)] v [OF unescape_simps(7)]
      e [of 8] e [of 12] e [of 10] e [of 13] e [of 9] by (simp del: char_of_char) 
qed

lemma good_split:
  assumes "\<not> bad_rune (c # s)"
  obtains r where "c # take (snd (DecodeRune (c # s)) - 1) s = EncodeRune r" "fst (DecodeRune (c # s)) = r" "valid_rune r"
    "\<And>v. DecodeRune (EncodeRune r @ v) = (r, length (EncodeRune r))"
    "snd (DecodeRune (c # s)) = length (EncodeRune r)"
proof -
  from DecodeRune_good [of "c # s"] assms obtain r u t where
    g: "c # s = u @ t" "valid_rune r" "DecodeRune (c # s) = (r, length u)" "u = EncodeRune r" "u \<noteq> []"
      "\<forall>v. DecodeRune (u @ v) = (r, length u)" by blast
  from g(1,5) obtain u' where u: "u = c # u'" "s = u' @ t" by (cases u) auto
  from g(4) u(1) have "length (EncodeRune r) = Suc (length u')" by (metis length_Cons)
  with that [of r] g u show ?thesis by simp
qed

lemma str_rune:
  assumes "\<not> byte c < 128" and "c # u = EncodeRune r" and "valid_rune r"
  shows "str_body (c # u @ t) = prepend (EncodeRune r) (str_body t)"
proof -
  have "c \<noteq> dquote" "c \<noteq> backslash" using assms(1) by auto
  moreover have "DecodeRune (c # u @ t) = (r, Suc (length u))"
    using DecodeRune_EncodeRune [OF assms(3), of t] assms(2) [symmetric] by simp
  ultimately show ?thesis using assms(1) by (simp add: str_body.simps)
qed

lemma str_line_sep: "r = 8232 \<or> r = 8233 \<Longrightarrow>
  str_body (backslash # CHR ''u'' # CHR ''2'' # CHR ''0'' # CHR ''2'' # hex_digit (r mod 16) # t) = prepend (EncodeRune r) (str_body t)"
  by (auto simp: getu4_def hex_val_def hex_digit_def surrogate_def str_body.simps)

text \<open>Reading back a printed string.\<close>

lemma str_quote: "utf8_Valid s \<Longrightarrow> str_body (quote_body s @ dquote # t) = Some (s, t)"
proof (induction s rule: quote_body.induct)
  case (2 c s)
  show ?case
  proof (cases "byte c < 128")
    case True
    then have "DecodeRune (c # s) = (byte c, 1)" by (rule DecodeRune_ascii)
    with "2.prems" True "2.IH"(1) show ?thesis by (simp add: str_escape)
  next
    case False
    define n where "n = snd (DecodeRune (c # s)) - 1"
    then have n: "snd (DecodeRune (c # s)) - Suc 0 = n" by simp
    from "2.prems" have b: "\<not> bad_rune (c # s)" and v: "utf8_Valid (drop n s)" by (simp_all add: n_def)
    obtain r where r: "c # take n s = EncodeRune r" "fst (DecodeRune (c # s)) = r" "valid_rune r"
      using good_split [OF b] unfolding n_def by metis
    from "2.IH"(3) [OF False b refl refl v [unfolded n_def]] have IH: "str_body (quote_body (drop n s) @ dquote # t) = Some (drop n s, t)"
      by (simp add: n_def)
    have "str_body (quote_body (c # s) @ dquote # t) = prepend (EncodeRune r) (Some (drop n s, t))"
      using False b r(2) str_line_sep [of r] str_rune [OF False r(1,3)] by (simp add: Let_def IH n)
    then show ?thesis by (simp add: r(1) [symmetric])
  qed
qed (simp add: str_body.simps)

lemma utf8_encode: "utf8_Valid t \<Longrightarrow> utf8_Valid (EncodeRune r @ t)"
proof -
  assume t: "utf8_Valid t"
  have "utf8_Valid (EncodeRune r @ t)" if r: "valid_rune r" for r
  proof -
    note d = DecodeRune_EncodeRune [OF r, of t]
    have ne: "EncodeRune r \<noteq> []" by (simp add: EncodeRune_def bytes_def)
    have "r = RuneError \<longrightarrow> length (EncodeRune r) = 3" by (simp add: EncodeRune_def bytes_def RuneError_def valid_rune_def surrogate_def)
    with d have "\<not> bad_rune (EncodeRune r @ t)" by (auto simp: bad_rune_def)
    with ne d t show ?thesis by (cases "EncodeRune r") simp_all
  qed
  then show ?thesis using EncodeRune_invalid [of r] by (cases "valid_rune r") auto
qed

lemma utf8_ascii: "byte c < 128 \<Longrightarrow> utf8_Valid t \<Longrightarrow> utf8_Valid (c # t)"
  using utf8_encode [of t "byte c"] by (simp add: EncodeRune_ascii)

lemma utf8_ascii_string: "list_all (\<lambda>c. byte c < 128) s \<Longrightarrow> utf8_Valid s"
  by (induction s) (simp_all add: utf8_ascii del: utf8_Valid.simps(2))

lemma unescape_ascii: "unescape e = Some c \<Longrightarrow> byte c < 128"
  by (auto simp: unescape_def split: if_splits)

lemma str_body_step:
  assumes "str_body (c # s) = Some (t, r)"
  shows "t = [] \<and> r = s \<or>
    (\<exists>x n t'. str_body (drop n s) = Some (t', r) \<and> t = EncodeRune x @ t')"
proof -
  have a: "\<exists>x. [c'] = EncodeRune x" if "byte c' < 128" for c'
    using EncodeRune_ascii [OF that] by metis
  consider "c = dquote" | "c = backslash" | "c \<noteq> dquote" "c \<noteq> backslash" "\<not> byte c < 32" "byte c < 128"
    | "c \<noteq> dquote" "c \<noteq> backslash" "\<not> byte c < 32" "\<not> byte c < 128"
    using assms by (auto simp: str_body.simps split: if_splits)
  then show ?thesis
  proof cases
    case 1
    with assms show ?thesis by (simp add: str_body.simps)
  next
    case 2
    with assms obtain e s1 where s: "s = e # s1" by (auto simp: str_body.simps split: list.splits)
    show ?thesis
    proof (cases "e = CHR ''u''")
      case True
      with assms 2 s obtain x n t' where "str_body (drop n s1) = Some (t', r)" "t = EncodeRune x @ t'"
        by (auto simp: str_body.simps(2) [of backslash] prepend_eq_Some split: option.splits if_splits)
      with s show ?thesis by (intro disjI2 exI [of _ x] exI [of _ "Suc n"] exI [of _ t']) simp
    next
      case False
      with assms 2 s obtain c' t' where "unescape e = Some c'" "str_body s1 = Some (t', r)" "t = [c'] @ t'"
        by (auto simp: str_body.simps(2) [of backslash] prepend_eq_Some split: option.splits)
      moreover from this(1) have "byte c' < 128" by (rule unescape_ascii)
      ultimately show ?thesis using a [of c'] s by (metis drop0 drop_Suc_Cons)
    qed
  next
    case 3
    with assms obtain t' where "str_body s = Some (t', r)" "t = [c] @ t'"
      by (auto simp: str_body.simps(2) [of c] prepend_eq_Some)
    with a [OF 3(4)] show ?thesis by (metis drop0)
  next
    case 4
    with assms show ?thesis by (auto simp: str_body.simps(2) [of c] prepend_eq_Some)
  qed
qed

text \<open>A string that was read is valid UTF-8, broken input is replaced; the rest is shorter.\<close>

lemma str_body_valid: "str_body s = Some (t, r) \<Longrightarrow> utf8_Valid t \<and> length r < length s"
proof (induction "length s" arbitrary: s t rule: less_induct)
  case less
  then obtain c s' where s: "s = c # s'" by (cases s) auto
  from str_body_step [of c s' t r] less.prems s consider "t = []" "r = s'"
    | x n t' where "str_body (drop n s') = Some (t', r)" "t = EncodeRune x @ t'" by auto
  then show ?case
  proof cases
    case 1
    with s show ?thesis by simp
  next
    case 2
    have "length (drop n s') < length s" using s by simp
    from less.hyps [OF this 2(1)] s 2(2) utf8_encode [of t' x] show ?thesis by auto
  qed
qed

subsection \<open>Numbers\<close>

text \<open>What may follow a number without being read as a part of it.\<close>

definition stops :: "string \<Rightarrow> bool" where
  "stops r \<longleftrightarrow> (case r of [] \<Rightarrow> True | c # _ \<Rightarrow> \<not> is_digit c \<and> c \<noteq> CHR ''.'' \<and> c \<noteq> CHR ''e'' \<and> c \<noteq> CHR ''E'')"

definition num_char :: "char \<Rightarrow> bool" where
  "num_char c \<longleftrightarrow> is_digit c \<or> c \<in> set ''.eE+-''"

definition is_number :: "string \<Rightarrow> bool" where
  "is_number t \<longleftrightarrow> number t = Some (t, [])"

lemma takeWhile_stops: "stops r \<Longrightarrow> takeWhile is_digit (s @ r) = takeWhile is_digit s \<and> dropWhile is_digit (s @ r) = dropWhile is_digit s @ r"
  by (induction s) (auto simp: stops_def split: list.splits)

lemma digits_append: "digits s = Some (a, b) \<Longrightarrow> stops r \<Longrightarrow> digits (s @ r) = Some (a, b @ r)"
  by (auto simp: digits_def takeWhile_stops split: if_splits)

lemma num_int_append: "num_int s = Some (a, b) \<Longrightarrow> stops r \<Longrightarrow> num_int (s @ r) = Some (a, b @ r)"
  using digits_append [of s a b r] by (auto simp: num_int_def split: list.splits if_splits)

lemma num_frac_append: "num_frac s = Some (a, b) \<Longrightarrow> stops r \<Longrightarrow> num_frac (s @ r) = Some (a, b @ r)"
proof (cases s)
  case (Cons c u)
  assume "num_frac s = Some (a, b)" "stops r"
  with Cons show ?thesis using digits_append [of u _ b r] by (auto simp: num_frac_def prepend_eq_Some split: if_splits)
qed (auto simp: num_frac_def stops_def split: list.splits)

lemma num_exp_append: "num_exp s = Some (a, b) \<Longrightarrow> stops r \<Longrightarrow> num_exp (s @ r) = Some (a, b @ r)"
proof (cases s)
  case (Cons c u)
  assume h: "num_exp s = Some (a, b)" and r: "stops r"
  show ?thesis
  proof (cases "c = CHR ''e'' \<or> c = CHR ''E''")
    case True
    with h Cons obtain x u' where u: "u = x # u'" by (auto simp: num_exp_def split: list.splits)
    with h Cons True r show ?thesis
      using digits_append [of u _ b r] digits_append [of u' _ b r] by (auto simp: num_exp_def prepend_eq_Some split: if_splits)
  qed (use h Cons in \<open>auto simp: num_exp_def\<close>)
qed (auto simp: num_exp_def stops_def split: list.splits)

lemma num_abs_append: "num_abs s = Some (a, b) \<Longrightarrow> stops r \<Longrightarrow> num_abs (s @ r) = Some (a, b @ r)"
proof -
  assume h: "num_abs s = Some (a, b)" and r: "stops r"
  then obtain i r1 f r2 e where "num_int s = Some (i, r1)" "num_frac r1 = Some (f, r2)" "num_exp r2 = Some (e, b)" "a = (i @ f) @ e"
    by (auto simp: num_abs_def prepend_eq_Some split: option.splits)
  with num_int_append [OF _ r] num_frac_append [OF _ r] num_exp_append [OF _ r] show ?thesis by (simp add: num_abs_def)
qed

lemma number_append: "is_number t \<Longrightarrow> stops r \<Longrightarrow> number (t @ r) = Some (t, r)"
proof (cases t)
  case (Cons c u)
  assume "is_number t" "stops r"
  with Cons show ?thesis
    using num_abs_append [of u _ "[]" r] num_abs_append [of t _ "[]" r] by (auto simp: is_number_def number_def prepend_eq_Some split: if_splits)
qed (simp add: is_number_def number_def)

text \<open>A number that was read is a prefix of the input, of number characters.\<close>

definition reads :: "string \<Rightarrow> string \<times> string \<Rightarrow> bool" where
  "reads s = (\<lambda>(a, b). s = a @ b \<and> list_all num_char a)"

lemma digits_reads: "digits s = Some x \<Longrightarrow> reads s x \<and> fst x \<noteq> []"
  using set_takeWhileD [of _ is_digit s] by (auto simp: digits_def reads_def list_all_iff num_char_def split: if_splits)

lemma num_int_reads: "num_int s = Some x \<Longrightarrow> reads s x \<and> fst x \<noteq> [] \<and> is_digit (hd s)"
  using digits_reads [of s x] 
  by (auto simp: num_int_def reads_def num_char_def is_digit_def digits_def split: list.splits if_splits)

lemma num_frac_reads: "num_frac s = Some x \<Longrightarrow> reads s x"
  using digits_reads by (fastforce simp: num_frac_def reads_def prepend_eq_Some num_char_def split: list.splits if_splits)

lemma num_exp_reads: "num_exp s = Some x \<Longrightarrow> reads s x"
  using digits_reads by (fastforce simp: num_exp_def reads_def prepend_eq_Some num_char_def split: list.splits if_splits)

lemma num_abs_reads: "num_abs s = Some x \<Longrightarrow> reads s x \<and> fst x \<noteq> [] \<and> is_digit (hd s)"
  by (cases x) (auto simp: num_abs_def reads_def prepend_eq_Some split: option.splits dest!: num_int_reads num_frac_reads num_exp_reads)

lemma number_reads: "number s = Some x \<Longrightarrow> reads s x \<and> fst x \<noteq> [] \<and> (is_digit (hd s) \<or> hd s = CHR ''-'')"
proof (cases s)
  case (Cons c u)
  assume h: "number s = Some x"
  show ?thesis
  proof (cases "c = CHR ''-''")
    case True
    with h Cons obtain a b where "num_abs u = Some (a, b)" "x = (c # a, b)"
      by (cases x) (auto simp: number_def prepend_eq_Some)
    with num_abs_reads [of u "(a, b)"] Cons True show ?thesis by (simp add: reads_def num_char_def)
  qed (use h Cons num_abs_reads [of s x] in \<open>simp add: number_def\<close>)
qed (simp add: number_def)

subsection \<open>Values\<close>

declare size_elem [termination_simp] size_member [termination_simp]

text \<open>A value as decoding leaves it, within nesting depth \<open>d\<close>.\<close>

fun json_ok :: "(string \<Rightarrow> string option) \<Rightarrow> int \<Rightarrow> json \<Rightarrow> bool" where
  "json_ok num d (JNum t) \<longleftrightarrow> is_number t \<and> num t = Some t"
| "json_ok num d (JStr s) \<longleftrightarrow> utf8_Valid s"
| "json_ok num d (JArr vs) \<longleftrightarrow> 0 < d \<and> (\<forall>v\<in>set vs. json_ok num (d - 1) v)"
| "json_ok num d (JObj ms) \<longleftrightarrow> 0 < d \<and> sorted (keys ms) \<and> distinct (keys ms) \<and>
     (\<forall>(k, v)\<in>set ms. utf8_Valid k \<and> json_ok num (d - 1) v)"
| "json_ok num d v \<longleftrightarrow> True"

lemma skip_ws_Cons [simp]: "\<not> is_ws c \<Longrightarrow> skip_ws (c # s) = c # s"
  by (simp add: skip_ws_def)

lemma skip_ws_Nil [simp]: "skip_ws [] = []"
  by (simp add: skip_ws_def)

lemma expect_one [simp]: "expect [c] (x # s) = (if x = c then Some s else None)" "expect [c] [] = None"
  by (auto simp: expect_def)

lemma expect_append: "expect u (u @ s) = Some s"
  by (simp add: expect_def)

lemma not_ws [simp]:
  "\<not> is_ws dquote" "\<not> is_ws (CHR '','')" "\<not> is_ws (CHR '':'')" "\<not> is_ws (CHR ''{'')" "\<not> is_ws (CHR ''}'')"
  "\<not> is_ws (CHR ''['')" "\<not> is_ws (CHR '']'')"
  by (simp_all add: is_ws_def)

lemma num_head: "is_digit c \<or> c = CHR ''-'' \<Longrightarrow> \<not> is_ws c \<and> c \<notin> set ''{[]}:,tfn'' \<and> c \<noteq> dquote"
  by (auto simp: is_digit_def is_ws_def)

lemma is_number_head: "is_number t \<Longrightarrow> \<exists>c s. t = c # s \<and> (is_digit c \<or> c = CHR ''-'')"
  using number_reads [of t "(t, [])"] by (cases t) (auto simp: is_number_def)

lemma Marshal_head: "json_ok num d v \<Longrightarrow> \<exists>c s. json_Marshal v = c # s \<and> \<not> is_ws c \<and> c \<noteq> CHR '']''"
  by (cases v) (auto simp: quote_def is_ws_def dest!: is_number_head num_head)

lemma Marshal_skip: "json_ok num d v \<Longrightarrow> skip_ws (json_Marshal v @ r) = json_Marshal v @ r"
  using Marshal_head [of num d v] by auto

lemma stops_simps [simp]: "stops (CHR '','' # r)" "stops (CHR '']'' # r)" "stops (CHR ''}'' # r)" "stops []"
  by (simp_all add: stops_def is_digit_def)

lemma comma_sep_Cons: "comma_sep (x # xs) = x @ (if xs = [] then [] else CHR '','' # comma_sep xs)"
  by (cases xs) auto

lemma elems_Marshal:
  assumes "vs \<noteq> []" and "2 * length (comma_sep (map json_Marshal vs)) + 1 \<le> n" and "\<forall>v\<in>set vs. json_ok num d v"
    and "\<And>v n r. v \<in> set vs \<Longrightarrow> 2 * length (json_Marshal v) \<le> n \<Longrightarrow> stops r \<Longrightarrow> p_value n d (json_Marshal v @ r) = Some (v, r)"
  shows "p_elems n d (comma_sep (map json_Marshal vs) @ CHR '']'' # r) = Some (vs, r)"
  using assms
proof (induction vs arbitrary: n)
  case (Cons v vs)
  then obtain m where n: "n = Suc m" by (cases n) auto
  note sk = Marshal_skip [of num d v] and pv = Cons.prems(4) [of v]
  show ?case
  proof (cases vs)
    case Nil
    with Cons.prems n sk pv [of m "CHR '']'' # r"] show ?thesis by simp
  next
    case (Cons w ws)
    with Cons.prems(2) n have f: "2 * length (json_Marshal v) \<le> m" "2 * length (comma_sep (map json_Marshal vs)) + 1 \<le> m"
      by (simp_all add: comma_sep_Cons)
    with Cons.IH [of m] Cons.prems(3,4) Cons have "p_elems m d (comma_sep (map json_Marshal vs) @ CHR '']'' # r) = Some (vs, r)"
      by simp
    with Cons Cons.prems(3) n sk pv [OF _ f(1), of "CHR '','' # comma_sep (map json_Marshal vs) @ CHR '']'' # r"]
    show ?thesis by (simp add: comma_sep_Cons)
  qed
qed simp

abbreviation member_text :: "string \<times> json \<Rightarrow> string" where
  "member_text kv \<equiv> (case kv of (k, v) \<Rightarrow> quote k @ CHR '':'' # json_Marshal v)"

lemma members_Marshal:
  assumes "ms \<noteq> []" and "2 * length (comma_sep (map member_text ms)) + 1 \<le> n"
    and "\<forall>(k, v)\<in>set ms. utf8_Valid k \<and> json_ok num d v"
    and "\<And>k v n r. (k, v) \<in> set ms \<Longrightarrow> 2 * length (json_Marshal v) \<le> n \<Longrightarrow> stops r \<Longrightarrow> p_value n d (json_Marshal v @ r) = Some (v, r)"
  shows "p_members n d (comma_sep (map member_text ms) @ CHR ''}'' # r) = Some (ms, r)"
  using assms
proof (induction ms arbitrary: n)
  case (Cons kv ms)
  then obtain m where n: "n = Suc m" by (cases n) auto
  obtain k v where kv: "kv = (k, v)" by (cases kv)
  with Cons.prems(3) have k: "utf8_Valid k" "json_ok num d v" by auto
  note sk = Marshal_skip [OF k(2)] and pv = Cons.prems(4) [of k v]
  note st = str_quote [OF k(1)]
  show ?case
  proof (cases ms)
    case Nil
    with Cons.prems(2) n kv have "2 * length (json_Marshal v) \<le> m" by simp
    with Nil n kv sk st pv [of m "CHR ''}'' # r"] show ?thesis by (simp add: quote_def)
  next
    case (Cons w ws)
    with Cons.prems(2) n kv have f: "2 * length (json_Marshal v) \<le> m" "2 * length (comma_sep (map member_text ms)) + 1 \<le> m"
      by (simp_all add: comma_sep_Cons)
    with Cons.IH [of m] Cons.prems(3,4) Cons have "p_members m d (comma_sep (map member_text ms) @ CHR ''}'' # r) = Some (ms, r)"
      by auto
    with Cons kv n sk st pv [OF _ f(1), of "CHR '','' # comma_sep (map member_text ms) @ CHR ''}'' # r"]
    show ?thesis by (simp add: comma_sep_Cons quote_def)
  qed
qed simp

lemma sort_keys_id: "sorted (keys ms) \<Longrightarrow> sort_key fst ms = ms"
  by (simp add: keys_def sort_key_id_if_sorted)

text \<open>Reading back a printed value, whatever follows it.\<close>

lemma p_value_Marshal:
  "json_ok num d v \<Longrightarrow> 2 * length (json_Marshal v) \<le> n \<Longrightarrow> stops r \<Longrightarrow> p_value n d (json_Marshal v @ r) = Some (v, r)"
proof (induction v arbitrary: d n r rule: json_Marshal.induct)
  case 1
  then show ?case by (cases n) (simp_all add: expect_def)
next
  case (2 b)
  then show ?case by (cases n; cases b) (simp_all add: expect_def)
next
  case (3 t)
  then have nt: "is_number t" by simp
  from is_number_head [OF nt] obtain c s where t: "t = c # s" "is_digit c \<or> c = CHR ''-''" by blast
  with num_head [OF t(2)] "3.prems" number_append [OF nt, of r] show ?case by (cases n) auto
next
  case (4 s)
  then show ?case using str_quote [of s r] by (cases n) (auto simp: quote_def)
next
  case (5 vs)
  then obtain m where n: "n = Suc m" by (cases n) auto
  show ?case
  proof (cases vs)
    case Nil
    with "5.prems" n show ?thesis by simp
  next
    case (Cons v ws)
    with "5.prems" obtain c s where h: "json_Marshal v = c # s" "\<not> is_ws c" "c \<noteq> CHR '']''"
      using Marshal_head [of num "d - 1" v] by auto
    have "p_elems m (d - 1) (comma_sep (map json_Marshal vs) @ CHR '']'' # r) = Some (vs, r)"
      using "5.prems" n Cons by (intro elems_Marshal [of vs m num] "5.IH") auto
    with "5.prems"(1) n h Cons show ?thesis by (simp add: comma_sep_Cons)
  qed
next
  case (6 ms)
  then obtain m where n: "n = Suc m" by (cases n) auto
  from "6.prems" have so: "sort_key fst ms = ms" by (simp add: sort_keys_id)
  show ?case
  proof (cases ms)
    case Nil
    with "6.prems" n show ?thesis by simp
  next
    case (Cons kv ws)
    have "p_members m (d - 1) (comma_sep (map member_text ms) @ CHR ''}'' # r) = Some (ms, r)"
      using "6.prems" n Cons so by (intro members_Marshal [of ms m num] "6.IH") auto
    with "6.prems"(1) n so Cons show ?thesis by (cases kv) (simp add: comma_sep_Cons quote_def)
  qed
qed

lemma json_scan_Marshal: "json_ok num maxNestingDepth v \<Longrightarrow> json_scan (json_Marshal v) = Some v"
  using p_value_Marshal [of num maxNestingDepth v "scan_fuel (json_Marshal v)" "[]"] Marshal_skip [of num maxNestingDepth v "[]"]
  by (simp add: json_scan_def scan_fuel_def)

subsection \<open>Decoding\<close>

lemma keys_put: "set (keys (put m k v)) = insert k (set (keys m))"
  by (simp add: put_def keys_def dom_update)

lemma put_sorted: "sorted (keys (put m k v))"
  by (simp add: put_def keys_def)

lemma put_distinct: "distinct (keys m) \<Longrightarrow> distinct (keys (put m k v))"
proof -
  assume "distinct (keys m)"
  then have "distinct (map fst (AList.update k v m))" by (simp add: keys_def distinct_update)
  moreover have "mset (map fst (sort_key fst (AList.update k v m))) = mset (map fst (AList.update k v m))" by simp
  ultimately show ?thesis unfolding put_def keys_def by (metis mset_eq_imp_distinct_iff)
qed

lemma put_lookup: "distinct (keys m) \<Longrightarrow> map_of (put m k v) = (map_of m)(k \<mapsto> v)"
proof -
  assume "distinct (keys m)"
  with put_distinct have "distinct (keys (put m k v))" "distinct (keys (AList.update k v m))" by auto
  moreover have "set (put m k v) = set (AList.update k v m)" by (simp add: put_def)
  ultimately have "map_of (put m k v) = map_of (AList.update k v m)"
    unfolding keys_def by (metis map_of_inject_set)
  then show ?thesis by simp
qed

lemma put_last: "sorted (keys m @ [k]) \<Longrightarrow> k \<notin> set (keys m) \<Longrightarrow> put m k v = m @ [(k, v)]"
  using sort_keys_id [of "m @ [(k, v)]"] by (simp add: put_def update_notin)

lemma to_map_snoc: "to_map (ms @ [(k, v)]) = put (to_map ms) k v"
  by (simp add: to_map_def)

lemma to_map_Nil [simp]: "to_map [] = []"
  by (simp add: to_map_def)

lemma to_map_id: "sorted (keys ms) \<Longrightarrow> distinct (keys ms) \<Longrightarrow> to_map ms = ms"
proof (induction ms rule: rev_induct)
  case (snoc kv ms)
  then show ?case by (cases kv) (simp add: to_map_snoc put_last sorted_append)
qed simp

lemma set_update_subset: "set (AList.update k v m) \<subseteq> insert (k, v) (set m)"
  by (induction m) auto

lemma to_map_map: "sorted (keys (to_map ms)) \<and> distinct (keys (to_map ms)) \<and> set (to_map ms) \<subseteq> set ms"
proof (induction ms rule: rev_induct)
  case (snoc kv ms)
  obtain k v where kv: "kv = (k, v)" by (cases kv)
  with set_update_subset [of k v "to_map ms"] snoc show ?case
    by (auto simp: to_map_snoc put_sorted put_distinct) (auto simp: put_def)
qed simp

text \<open>What the scanner returns: valid strings, bounded nesting, and a rest that is shorter.\<close>

fun raw :: "int \<Rightarrow> json \<Rightarrow> bool" where
  "raw d (JStr s) \<longleftrightarrow> utf8_Valid s"
| "raw d (JArr vs) \<longleftrightarrow> 0 < d \<and> (\<forall>v\<in>set vs. raw (d - 1) v)"
| "raw d (JObj ms) \<longleftrightarrow> 0 < d \<and> (\<forall>(k, v)\<in>set ms. utf8_Valid k \<and> raw (d - 1) v)"
| "raw d v \<longleftrightarrow> True"

lemma skip_ws_length: "length (skip_ws s) \<le> length s"
  by (simp add: skip_ws_def length_dropWhile_le)

lemma expect_length: "expect u s = Some r \<Longrightarrow> length s = length u + length r"
  unfolding expect_def by (metis append_take_drop_id length_append option.discI option.inject)

lemma number_length: "number s = Some (t, r) \<Longrightarrow> length r < length s"
  using number_reads [of s "(t, r)"] by (auto simp: reads_def)

lemma scan_sound:
  "p_value n d s = Some (v, r) \<Longrightarrow> raw d v \<and> length r < length s"
  "p_elems n d s = Some (vs, r) \<Longrightarrow> (\<forall>v\<in>set vs. raw d v) \<and> length r < length s"
  "p_members n d s = Some (ms, r) \<Longrightarrow> (\<forall>(k, v)\<in>set ms. utf8_Valid k \<and> raw d v) \<and> length r < length s"
proof (induction n d s and n d s and n d s arbitrary: v r and vs r and ms r rule: p_value_p_elems_p_members.induct)
  case (2 n d s)
  from "2.prems" obtain c t where s: "s = c # t" by (cases s) auto
  note l = skip_ws_length [of t]
  consider "c = dquote" | "c = CHR ''{''" | "c = CHR ''[''" | "c \<noteq> dquote" "c \<noteq> CHR ''{''" "c \<noteq> CHR ''[''" by blast
  then show ?case
  proof cases
    case 1
    with "2.prems" s show ?thesis by (auto dest!: str_body_valid)
  next
    case 2
    show ?thesis
    proof (cases "expect ''}'' (skip_ws t)")
      case None
      with "2.prems" s 2 obtain ms where m: "0 < d" "p_members n (d - 1) t = Some (ms, r)" "v = JObj ms"
        by (auto split: if_splits)
      from "2.IH"(1) [of c t ms r] s 2 None m show ?thesis by auto
    next
      case (Some r')
      with "2.prems" s 2 l expect_length [OF Some] show ?thesis by (auto split: if_splits)
    qed
  next
    case 3
    show ?thesis
    proof (cases "expect '']'' (skip_ws t)")
      case None
      with "2.prems" s 3 obtain vs where m: "0 < d" "p_elems n (d - 1) t = Some (vs, r)" "v = JArr vs"
        by (auto split: if_splits)
      from "2.IH"(2) [of c t vs r] s 3 None m show ?thesis by auto
    next
      case (Some r')
      with "2.prems" s 3 l expect_length [OF Some] show ?thesis by (auto split: if_splits)
    qed
  next
    case 4
    with "2.prems" s show ?thesis by (auto split: if_splits dest: expect_length number_length)
  qed
next
  case (4 n d s)
  then obtain v q where v: "p_value n d (skip_ws s) = Some (v, q)" by (auto split: option.splits)
  from "4.IH"(1) [OF v] skip_ws_length [of s] have q: "raw d v" "length q < length s" by auto
  show ?case
  proof (cases "expect '','' (skip_ws q)")
    case None
    with "4.prems" v q skip_ws_length [of q] show ?thesis by (auto dest!: expect_length)
  next
    case (Some r')
    with "4.prems" v obtain ws where w: "p_elems n d r' = Some (ws, r)" "vs = v # ws" by auto
    from "4.IH"(2) [OF v refl Some w(1)] w(2) q skip_ws_length [of q] expect_length [OF Some] show ?thesis by auto
  qed
next
  case (6 n d s)
  then obtain r0 k r1 r2 v q where h: "expect [dquote] (skip_ws s) = Some r0" "str_body r0 = Some (k, r1)"
    "expect '':'' (skip_ws r1) = Some r2" "p_value n d (skip_ws r2) = Some (v, q)"
    by (auto split: option.splits)
  have k: "utf8_Valid k" "length r1 < length r0" using str_body_valid [OF h(2)] by auto
  have l: "length r0 < length s" "length r2 < length r1"
    using expect_length [OF h(1)] expect_length [OF h(3)] skip_ws_length [of s] skip_ws_length [of r1] by auto
  from "6.IH"(1) [OF h(1,2) refl h(3,4)] skip_ws_length [of r2] k l have q: "raw d v" "length q < length s" by auto
  show ?case
  proof (cases "expect '','' (skip_ws q)")
    case None
    with "6.prems" h q k skip_ws_length [of q] show ?thesis by (auto dest!: expect_length)
  next
    case (Some r')
    with "6.prems" h obtain ws where w: "p_members n d r' = Some (ws, r)" "ms = (k, v) # ws" by auto
    from "6.IH"(2) [OF h(1,2) refl h(3,4) refl Some w(1)] w(2) q k skip_ws_length [of q] expect_length [OF Some] show ?thesis
      by auto
  qed
qed simp_all

end
