(* ===== verification/Json_Laws.thy ===== *)
theory Json_Laws
  imports Json_Roundtrip
begin

text \<open>
  The laws of the JSON model its clients rely on: the bound on the scanner's recursion is never
  reached, decoding gives well-formed maps, an encoded map decodes to itself, and encoded text has
  no control character.
\<close>

subsection \<open>The bound on the recursion\<close>

lemma scan_more_fuel:
  assumes "n \<le> m"
  shows "(2 * length s + 1 \<le> n \<longrightarrow> p_value m d s = p_value n d s) \<and>
    (2 * length s + 2 \<le> n \<longrightarrow> p_elems m d s = p_elems n d s \<and> p_members m d s = p_members n d s)"
  using assms
proof (induction n arbitrary: m d s)
  case (Suc n)
  then obtain m' where m: "m = Suc m'" "n \<le> m'" by (cases m) auto
  note IH = Suc.IH [OF m(2)]
  have "p_value m d s = p_value (Suc n) d s" if "2 * length s + 1 \<le> Suc n"
  proof (cases s)
    case (Cons c t)
    with that IH [of t "d - 1"] m show ?thesis by (simp split: option.split)
  qed (simp add: m)
  moreover have "p_elems m d s = p_elems (Suc n) d s" if f: "2 * length s + 2 \<le> Suc n"
  proof -
    have v: "p_value m' d (skip_ws s) = p_value n d (skip_ws s)" using f IH [of "skip_ws s" d] skip_ws_length [of s] by simp
    have "p_elems m' d r = p_elems n d r" if "p_value n d (skip_ws s) = Some (v, q)" "expect '','' (skip_ws q) = Some r" for v q r
      using scan_sound(1) [OF that(1)] expect_length [OF that(2)] skip_ws_length [of q] skip_ws_length [of s] f IH [of r d] by simp
    with v show ?thesis by (auto simp: m split: option.split)
  qed
  moreover have "p_members m d s = p_members (Suc n) d s" if f: "2 * length s + 2 \<le> Suc n"
  proof -
    have l: "length r2 < length s" if "expect [dquote] (skip_ws s) = Some r0" "str_body r0 = Some (k, r1)" "expect '':'' (skip_ws r1) = Some r2"
      for r0 k r1 r2
      using str_body_valid [OF that(2)] expect_length [OF that(1)] expect_length [OF that(3)] skip_ws_length [of s] skip_ws_length [of r1] by simp
    have v: "p_value m' d (skip_ws r2) = p_value n d (skip_ws r2)" if "length r2 < length s" for r2
      using f that IH [of "skip_ws r2" d] skip_ws_length [of r2] by simp
    have w: "p_members m' d r = p_members n d r"
      if "expect [dquote] (skip_ws s) = Some r0" "str_body r0 = Some (k, r1)" "expect '':'' (skip_ws r1) = Some r2"
        "p_value n d (skip_ws r2) = Some (v, q)" "expect '','' (skip_ws q) = Some r" for r0 k r1 r2 v q r
      using scan_sound(1) [OF that(4)] expect_length [OF that(5)] skip_ws_length [of q] skip_ws_length [of r2] l [OF that(1-3)] f
        IH [of r d] by simp
    show ?thesis
      using l v by (auto simp: m split: option.split intro!: arg_cong [of _ _ "map_option _"] intro: w)
  qed
  ultimately show ?case by blast
qed simp

lemma scan_fuel_enough: "scan_fuel s \<le> m \<Longrightarrow> p_value m d (skip_ws s) = p_value (scan_fuel s) d (skip_ws s)"
  using scan_more_fuel [of "scan_fuel s" m "skip_ws s" d] skip_ws_length [of s] by (simp add: scan_fuel_def)

subsection \<open>Decoded values\<close>

text \<open>What \<open>strconv\<close> documents of a printed float: the text is a number and reads back as the same float.\<close>

definition num_law :: "(string \<Rightarrow> string option) \<Rightarrow> bool" where
  "num_law num \<longleftrightarrow> (\<forall>lit t. num lit = Some t \<longrightarrow> is_number t \<and> num t = Some t)"

lemma decode_ok:
  "num_law num \<Longrightarrow> decode num v = Some w \<Longrightarrow> raw d v \<Longrightarrow> json_ok num d w"
  "num_law num \<Longrightarrow> decode_list num vs = Some ws \<Longrightarrow> \<forall>v\<in>set vs. raw d v \<Longrightarrow> \<forall>w\<in>set ws. json_ok num d w"
  "num_law num \<Longrightarrow> decode_members num ms = Some ks \<Longrightarrow> \<forall>(k, v)\<in>set ms. utf8_Valid k \<and> raw d v \<Longrightarrow>
     \<forall>(k, w)\<in>set ks. utf8_Valid k \<and> json_ok num d w"
proof (induction num v and num vs and num ms arbitrary: d w and d ws and d ks rule: decode_decode_list_decode_members.induct)
  case (1 num t)
  then show ?case by (auto simp: num_law_def)
next
  case (3 num ms)
  then obtain ks where ks: "decode_members num ms = Some ks" "w = JObj (to_map ks)" by auto
  with "3.prems" have "\<forall>(k, w)\<in>set ks. utf8_Valid k \<and> json_ok num (d - 1) w" by (intro "3.IH") auto
  with ks(2) to_map_map [of ks] "3.prems"(3) show ?case by auto
qed (fastforce split: option.splits)+

lemma decode_id:
  "json_ok num d v \<Longrightarrow> decode num v = Some v"
  "\<forall>v\<in>set vs. json_ok num d v \<Longrightarrow> decode_list num vs = Some vs"
  "\<forall>(k, v)\<in>set ms. json_ok num d v \<Longrightarrow> decode_members num ms = Some ms"
proof (induction num v and num vs and num ms arbitrary: d and d and d rule: decode_decode_list_decode_members.induct)
  case (3 num ms)
  then have "decode_members num ms = Some ms" by (intro "3.IH" [of "d - 1"]) auto
  with "3.prems" show ?case by (simp add: to_map_id)
qed fastforce+

subsection \<open>Decoding and encoding maps\<close>

lemma Unmarshal_ok:
  assumes "num_law num" and "json_Unmarshal num s = Inr (Some m)"
  shows "json_ok num maxNestingDepth (JObj m)"
proof -
  from assms(2) obtain ms ks r where p: "p_value (scan_fuel s) maxNestingDepth (skip_ws s) = Some (JObj ms, r)"
    "decode_members num ms = Some ks" "m = to_map ks"
    by (auto simp: json_Unmarshal_def json_scan_def split: option.splits json.splits if_splits)
  from scan_sound(1) [OF p(1)] have "raw maxNestingDepth (JObj ms)" by simp
  with p(2,3) decode_ok(1) [OF assms(1), of "JObj ms" "JObj m"] show ?thesis by simp
qed

lemma Unmarshal_Marshal:
  assumes "json_ok num maxNestingDepth (JObj m)"
  shows "json_Unmarshal num (json_Marshal (JObj m)) = Inr (Some m)"
proof -
  have "decode_members num m = Some m" using assms by (intro decode_id(3) [of _ _ "maxNestingDepth - 1"]) auto
  with json_scan_Marshal [OF assms] assms show ?thesis by (simp add: json_Unmarshal_def to_map_id)
qed

lemma put_ok:
  assumes "json_ok num d (JObj m)" and "utf8_Valid k" and "json_ok num (d - 1) v"
  shows "json_ok num d (JObj (put m k v))"
proof -
  have "set (put m k v) \<subseteq> insert (k, v) (set m)" using set_update_subset [of k v m] by (simp add: put_def)
  with assms put_sorted [of m k v] put_distinct [of m k v] show ?thesis by auto
qed

subsection \<open>No control characters\<close>

definition printable :: "string \<Rightarrow> bool" where
  "printable s \<longleftrightarrow> list_all (\<lambda>c. 32 \<le> byte c) s"

lemma printable_simps [simp]:
  "printable []" "printable (c # s) \<longleftrightarrow> 32 \<le> byte c \<and> printable s" "printable (s @ t) \<longleftrightarrow> printable s \<and> printable t"
  by (simp_all add: printable_def)

lemma hex_printable: "n < 16 \<Longrightarrow> 32 \<le> byte (hex_digit n)"
proof -
  have "\<forall>n\<in>set [0..<16]. 32 \<le> byte (hex_digit n)" by code_simp
  then show "n < 16 \<Longrightarrow> 32 \<le> byte (hex_digit n)" by simp
qed

lemma escape_printable: "byte c < 128 \<Longrightarrow> printable (escape c)"
  using hex_printable [of "byte c div 16"] hex_printable [of "byte c mod 16"] by (auto simp: escape_def)

lemma EncodeRune_printable: "valid_rune r \<Longrightarrow> 128 \<le> r \<Longrightarrow> printable (EncodeRune r)"
  by (auto simp: EncodeRune_def bytes_def valid_rune_def)

lemma quote_printable: "printable (quote_body s)"
proof (induction s rule: quote_body.induct)
  case (2 c s)
  show ?case
  proof (cases "byte c < 128")
    case True
    with "2.IH"(1) show ?thesis by (simp add: escape_printable)
  next
    case False
    note big = False
    show ?thesis
    proof (cases "bad_rune (c # s)")
      case True
      with big "2.IH"(2) show ?thesis by simp
    next
      case False
      then obtain r where r: "c # take (snd (DecodeRune (c # s)) - 1) s = EncodeRune r" "fst (DecodeRune (c # s)) = r" "valid_rune r"
        using good_split by metis
      have "128 \<le> r" using r(1) big by (cases "r < 128") (auto simp: EncodeRune_def bytes_def)
      with r have "printable (c # take (snd (DecodeRune (c # s)) - 1) s)" by (simp add: EncodeRune_printable)
      with big False "2.IH"(3) hex_printable [of "r mod 16"] r(2) show ?thesis by (simp add: Let_def)
    qed
  qed
qed simp

lemma comma_sep_printable: "\<forall>x\<in>set xs. printable x \<Longrightarrow> printable (comma_sep xs)"
  by (induction xs rule: comma_sep.induct) auto

lemma number_printable: "is_number t \<Longrightarrow> printable t"
  using number_reads [of t "(t, [])"]
  by (auto simp: is_number_def reads_def printable_def list_all_iff num_char_def is_digit_def)

lemma Marshal_printable: "json_ok num d v \<Longrightarrow> printable (json_Marshal v)"
proof (induction v arbitrary: d rule: json_Marshal.induct)
  case (5 vs)
  then show ?case using comma_sep_printable [of "map json_Marshal vs"] by auto
next
  case (6 ms)
  have "printable (comma_sep (map member_text (sort_key fst ms)))"
    using "6.prems" "6.IH" by (intro comma_sep_printable) (auto simp: quote_def quote_printable)
  then show ?case by simp
qed (auto simp: quote_def quote_printable number_printable)

end
