(* ===== verification/Log_Streamer.thy ===== *)
theory Log_Streamer
  imports Json_Laws Real_Worker Memory_Worker
begin

text \<open>
  \<open>internal/worker/worker_log_streamer.go\<close> and the \<open>StreamLogs\<close> methods of
  \<open>worker_real.go\<close> and \<open>worker_memory.go\<close>: the output of a worker, line by line. A line that
  is a JSON object is written to the controller's own stream with the worker's id added, every other
  line becomes an entry of the zap logger. Errors of the writer are ignored by the code.
\<close>

declare json_Marshal.simps [simp del]

datatype std_stream = Stdout | Stderr

datatype log_level = InfoLevel | ErrorLevel

record log_entry =
  le_level :: log_level
  le_fields :: "(string \<times> string) list"

text \<open>What has been logged: the bytes written to the two streams, the entries of the zap logger, and
  \<open>failedToParseLogsCounter\<close>.\<close>

record log_state =
  ls_out :: string
  ls_err :: string
  ls_zap :: "log_entry list"
  failedToParseLogs :: nat

definition no_logs :: log_state where
  "no_logs = \<lparr>ls_out = [], ls_err = [], ls_zap = [], failedToParseLogs = 0\<rparr>"

fun write_line :: "std_stream \<Rightarrow> string \<Rightarrow> log_state \<Rightarrow> log_state" where
  "write_line Stdout s g = g\<lparr>ls_out := ls_out g @ s\<rparr>"
| "write_line Stderr s g = g\<lparr>ls_err := ls_err g @ s\<rparr>"

definition count_failed :: "log_state \<Rightarrow> log_state" where
  "count_failed g = g\<lparr>failedToParseLogs := Suc (failedToParseLogs g)\<rparr>"

abbreviation newline :: char where "newline \<equiv> CHR 0x0A"

definition logRawString :: "string \<Rightarrow> string \<Rightarrow> string \<Rightarrow> log_level \<Rightarrow> log_state \<Rightarrow> log_state" where
  "logRawString wId key line lvl g =
     g\<lparr>ls_zap := ls_zap g @ [\<lparr>le_level = lvl, le_fields = [(WorkerIdLogLabel, wId), (key, line)]\<rparr>]\<rparr>"

text \<open>\<open>json.Marshal\<close> of a decoded map, which always succeeds.\<close>

definition Marshal_map :: "(string \<times> json) list \<Rightarrow> error + string" where
  "Marshal_map m = Inr (json_Marshal (JObj m))"

text \<open>Reading a nil map finds nothing, writing to it panics.\<close>

definition logJson ::
  "(string \<Rightarrow> string option) \<Rightarrow> string \<Rightarrow> string \<Rightarrow> std_stream \<Rightarrow> log_state \<Rightarrow> (bool \<times> log_state) outcome" where
  "logJson num wId line w g =
     (if \<not> json_Valid line then Ret (False, g)
      else case json_Unmarshal num line of
          Inl err \<Rightarrow> Ret (False, count_failed g)
        | Inr objmap \<Rightarrow>
            if (case objmap of None \<Rightarrow> False | Some m \<Rightarrow> WorkerIdLogLabel \<in> set (keys m)) then Ret (False, count_failed g)
            else (case objmap of
                None \<Rightarrow> Panic ''assignment to entry in nil map''
              | Some m \<Rightarrow>
                  (case Marshal_map (put m WorkerIdLogLabel (JStr wId)) of
                     Inl err \<Rightarrow> Ret (False, count_failed g)
                   | Inr data \<Rightarrow> Ret (True, write_line w (data @ [newline]) g))))"

definition LogStdOut ::
  "(string \<Rightarrow> string option) \<Rightarrow> string \<Rightarrow> std_stream \<Rightarrow> string \<Rightarrow> log_state \<Rightarrow> log_state outcome" where
  "LogStdOut num wId w line g =
     obind (logJson num wId line w g)
       (\<lambda>(ok, g1). Ret (if \<not> ok then logRawString wId ''worker_info_msg'' line InfoLevel g1 else g1))"

definition LogStdErr ::
  "(string \<Rightarrow> string option) \<Rightarrow> string \<Rightarrow> std_stream \<Rightarrow> string \<Rightarrow> log_state \<Rightarrow> log_state outcome" where
  "LogStdErr num wId w line g =
     obind (logJson num wId line w g)
       (\<lambda>(ok, g1). Ret (if \<not> ok then logRawString wId ''worker_error_msg'' line ErrorLevel g1 else g1))"

subsection \<open>StreamLogs\<close>

text \<open>
  The loop of \<open>realProcessWorker.StreamLogs\<close> over go-cmd's two line channels. A channel is the
  list of the lines still to come before it is closed, or \<open>None\<close> once the loop has set it to nil. The
  list of booleans is what \<open>select\<close> picks, stdout or stderr, when it has the choice; a nil channel is
  never picked. \<open>Block\<close> is a loop that is still waiting.
\<close>

fun stream_loop ::
  "(string \<Rightarrow> 'g \<Rightarrow> 'g outcome) \<Rightarrow> (string \<Rightarrow> 'g \<Rightarrow> 'g outcome) \<Rightarrow> bool list \<Rightarrow>
   string list option \<Rightarrow> string list option \<Rightarrow> 'g \<Rightarrow> 'g outcome" where
  "stream_loop logOut logErr ps None None g = Ret g"
| "stream_loop logOut logErr [] out err g = Block"
| "stream_loop logOut logErr (p # ps) out err g =
     (if out \<noteq> None \<and> (p \<or> err = None) then
        (case the out of
           [] \<Rightarrow> stream_loop logOut logErr ps None err g
         | line # rest \<Rightarrow> obind (logOut line g) (stream_loop logOut logErr ps (Some rest) err))
      else
        (case the err of
           [] \<Rightarrow> stream_loop logOut logErr ps out None g
         | line # rest \<Rightarrow> obind (logErr line g) (stream_loop logOut logErr ps out (Some rest))))"

definition StreamLogs ::
  "(string \<Rightarrow> string option) \<Rightarrow> bool list \<Rightarrow> string list \<Rightarrow> string list \<Rightarrow> 'c realProcessWorker \<Rightarrow> log_state \<Rightarrow>
   ('c realProcessWorker \<times> log_state) outcome" where
  "StreamLogs num ps out err w g =
     (if \<not> rw_isStreamingLogs w then Ret (w\<lparr>rw_stdStreamClosed := True\<rparr>, g)
      else obind (stream_loop (LogStdOut num (rw_name w) Stdout) (LogStdErr num (rw_name w) Stderr) ps (Some out) (Some err) g)
             (\<lambda>g1. Ret (w\<lparr>rw_stdStreamClosed := True\<rparr>, g1)))"

text \<open>
  \<open>InMemoryWorker.StreamLogs\<close>: whether a ticker is started (\<open>time.NewTicker\<close> panics on a negative
  interval), and what its goroutine does at a tick; the boolean tells whether it goes on.
\<close>

definition StreamLogs_m :: "InMemoryWorker \<Rightarrow> bool outcome" where
  "StreamLogs_m w =
     (if LogInterval w = 0 then Ret False
      else if LogInterval w < 0 then Panic ''non-positive interval for NewTicker''
      else Ret True)"

definition stream_tick :: "(string \<Rightarrow> string option) \<Rightarrow> InMemoryWorker \<Rightarrow> log_state \<Rightarrow> (bool \<times> log_state) outcome" where
  "stream_tick num w g =
     (if Status_m w = Running then
        obind (LogStdOut num (im_Name w) Stdout (LogText w) g)
          (\<lambda>g1. obind (if LogError w then LogStdErr num (im_Name w) Stderr (LogText w) g1 else Ret g1)
             (\<lambda>g2. Ret (True, g2)))
      else Ret (False, g))"

subsection \<open>One line\<close>

text \<open>How a line is classified.\<close>

datatype line_class = NullLine | FlatLine "(string \<times> json) list" | RejectedLine | RawLine

definition classify :: "(string \<Rightarrow> string option) \<Rightarrow> string \<Rightarrow> line_class" where
  "classify num line =
     (if \<not> json_Valid line then RawLine
      else case json_Unmarshal num line of
          Inl _ \<Rightarrow> RejectedLine
        | Inr None \<Rightarrow> NullLine
        | Inr (Some m) \<Rightarrow> if WorkerIdLogLabel \<in> set (keys m) then RejectedLine else FlatLine m)"

lemma logJson_classify:
  "logJson num wId line w g =
     (case classify num line of
        NullLine \<Rightarrow> Panic ''assignment to entry in nil map''
      | FlatLine m \<Rightarrow> Ret (True, write_line w (json_Marshal (JObj (put m WorkerIdLogLabel (JStr wId))) @ [newline]) g)
      | RejectedLine \<Rightarrow> Ret (False, count_failed g)
      | RawLine \<Rightarrow> Ret (False, g))"
  by (auto simp: logJson_def classify_def Marshal_map_def split: sum.split option.split)

lemma classify_Null: "classify num line = NullLine \<longleftrightarrow> json_scan line = Some JNull"
  by (auto simp: classify_def json_Valid_def json_Unmarshal_def split: sum.splits option.splits json.splits if_splits)

lemma classify_Flat: "classify num line = FlatLine m \<longleftrightarrow> json_Unmarshal num line = Inr (Some m) \<and> WorkerIdLogLabel \<notin> set (keys m)"
  by (auto simp: classify_def json_Valid_def json_Unmarshal_def split: sum.splits option.splits json.splits if_splits)

end
