(* ===== verification/Log_Properties.thy ===== *)
theory Log_Properties
  imports Log_Streamer
begin

text \<open>
  What the log streamer guarantees: an object goes through with the worker's id added, every other
  line is kept as it is, and the order in which the two streams are read does not matter.
\<close>

subsection \<open>One line\<close>

lemma log_object:
  assumes num: "num_law num" and wid: "utf8_Valid wId"
    and obj: "json_Unmarshal num line = Inr (Some m)" and label: "WorkerIdLogLabel \<notin> set (keys m)"
  shows "\<exists>text m'. LogStdOut num wId Stdout line g = Ret (g\<lparr>ls_out := ls_out g @ text @ [newline]\<rparr>) \<and> printable text \<and>
     json_Unmarshal num text = Inr (Some m') \<and> map_of m' = (map_of m)(WorkerIdLogLabel \<mapsto> JStr wId)"
proof -
  let ?m = "put m WorkerIdLogLabel (JStr wId)"
  note ok = Unmarshal_ok [OF num obj]
  have "utf8_Valid WorkerIdLogLabel" by (rule utf8_ascii_string) (simp add: WorkerIdLogLabel_def)
  with ok wid have ok': "json_ok num maxNestingDepth (JObj ?m)" by (intro put_ok) simp_all
  from obj label have "classify num line = FlatLine m" by (simp add: classify_Flat)
  then have "LogStdOut num wId Stdout line g = Ret (g\<lparr>ls_out := ls_out g @ json_Marshal (JObj ?m) @ [newline]\<rparr>)"
    by (simp add: LogStdOut_def logJson_classify)
  with Marshal_printable [OF ok'] Unmarshal_Marshal [OF ok'] put_lookup [of m] ok show ?thesis by auto
qed

text \<open>C17: A JSON object survives the streamer: when a line is an object without the worker label,
  \<open>LogStdOut\<close> writes one line to its stream and nothing else; that line has no control character
  before its end, and reading it back gives the object with exactly one entry more, the id of the
  worker.\<close>

theorem logged_object_roundtrip:
  assumes "num_law num" and "utf8_Valid wId"
    and "json_Unmarshal num line = Inr (Some m)" and "WorkerIdLogLabel \<notin> set (keys m)"
  shows "\<exists>text m'. LogStdOut num wId Stdout line g = Ret (g\<lparr>ls_out := ls_out g @ text @ [newline]\<rparr>) \<and> printable text \<and>
     json_Unmarshal num text = Inr (Some m') \<and> map_of m' = (map_of m)(WorkerIdLogLabel \<mapsto> JStr wId)"
  using log_object [OF assms] .

text \<open>A concrete \<open>strconv\<close>: integer literals of one digit.\<close>

definition small_num :: "string \<Rightarrow> string option" where
  "small_num t = (if length t = 1 \<and> is_digit (hd t) then Some t else None)"

lemma small_num_law: "num_law small_num"
  unfolding num_law_def small_num_def
proof (intro allI impI)
  fix lit t :: string
  assume "(if length lit = 1 \<and> is_digit (hd lit) then Some lit else None) = Some t"
  then obtain c where c: "t = [c]" "is_digit c" "lit = t" by (cases lit) (auto split: if_splits)
  then have "c \<noteq> CHR ''-''" by (auto simp: is_digit_def)
  with c show "is_number t \<and> (if length t = 1 \<and> is_digit (hd t) then Some t else None) = Some t"
    by (auto simp: is_number_def number_def num_abs_def num_int_def digits_def num_frac_def num_exp_def)
qed

definition sample_line :: string where
  "sample_line = json_Marshal (JObj [(''n'', JNum ''7'')])"

lemma sample_line_object: "json_Unmarshal small_num sample_line = Inr (Some [(''n'', JNum ''7'')])"
proof -
  have "small_num ''7'' = Some ''7''" by (simp add: small_num_def is_digit_def)
  moreover from this small_num_law have "is_number ''7''" unfolding num_law_def by blast
  moreover have "utf8_Valid ''n''" by (rule utf8_ascii_string) simp
  ultimately show ?thesis unfolding sample_line_def by (intro Unmarshal_Marshal) (simp add: maxNestingDepth_def)
qed

theorem logged_object_roundtrip_witness:
  "\<exists>text m'. LogStdOut small_num ''p-0'' Stdout sample_line no_logs = Ret (no_logs\<lparr>ls_out := text @ [newline]\<rparr>) \<and>
     json_Unmarshal small_num text = Inr (Some m') \<and> map_of m' ''n'' = Some (JNum ''7'') \<and> map_of m' ''worker_id'' = Some (JStr ''p-0'')"
proof -
  have "utf8_Valid ''p-0''" by (rule utf8_ascii_string) simp
  then show ?thesis
    using logged_object_roundtrip [OF small_num_law _ sample_line_object, of "''p-0''" no_logs]
    by (fastforce simp: WorkerIdLogLabel_def no_logs_def)
qed

text \<open>C26: Every line is logged exactly once or the controller dies: \<open>LogStdOut\<close> and \<open>LogStdErr\<close>
  panic exactly on the line \<open>null\<close>, which is valid JSON and decodes to a nil map. Otherwise they
  return, and either write one line to their stream or add one entry with the worker's id and the
  unchanged line to the logger, at level info or error; the counter of failed lines grows by at most
  one, and never for a line that was written.\<close>

theorem every_line_logged:
  assumes f: "(f, key, lvl) \<in> {(LogStdOut, ''worker_info_msg'', InfoLevel), (LogStdErr, ''worker_error_msg'', ErrorLevel)}"
  shows "if json_scan line = Some JNull then f num wId w line g = Panic ''assignment to entry in nil map''
     else (\<exists>text. f num wId w line g = Ret (write_line w (text @ [newline]) g)) \<or>
       (\<exists>n\<in>{0, 1}. f num wId w line g = Ret (g\<lparr>ls_zap := ls_zap g @ [\<lparr>le_level = lvl, le_fields = [(WorkerIdLogLabel, wId), (key, line)]\<rparr>],
          failedToParseLogs := failedToParseLogs g + n\<rparr>))"
  using f classify_Null [of num line]
  by (cases "classify num line") (auto simp: LogStdOut_def LogStdErr_def logJson_classify logRawString_def count_failed_def)

theorem every_line_logged_witness:
  "LogStdOut small_num ''p-0'' Stdout ''null'' no_logs = Panic ''assignment to entry in nil map''"
proof -
  have "json_scan ''null'' = Some JNull" by code_simp
  with every_line_logged [of LogStdOut "''worker_info_msg''" InfoLevel "''null''" small_num "''p-0''" Stdout no_logs]
  show ?thesis by simp
qed

subsection \<open>Two streams\<close>

text \<open>
  A pair of loggers whose effects are recorded apart: \<open>outv\<close> is what the first one leaves, \<open>errv\<close>
  the second one, \<open>tally\<close> a counter both raise. For such loggers the loop over the two channels leaves, for every choice of
  \<open>select\<close>, what the two streams leave alone.
\<close>

locale stream_loggers =
  fixes logOut logErr :: "string \<Rightarrow> 'g \<Rightarrow> 'g outcome"
    and outv :: "'g \<Rightarrow> 'a list" and errv :: "'g \<Rightarrow> 'b list"
    and fo :: "string \<Rightarrow> 'a list" and fe :: "string \<Rightarrow> 'b list"
    and tally :: "'g \<Rightarrow> nat" and ft :: "string \<Rightarrow> nat"
    and accepts :: "string \<Rightarrow> bool"
  assumes logOut_ok: "accepts l \<Longrightarrow>
      \<exists>g'. logOut l g = Ret g' \<and> outv g' = outv g @ fo l \<and> errv g' = errv g \<and> tally g' = tally g + ft l"
    and logErr_ok: "accepts l \<Longrightarrow>
      \<exists>g'. logErr l g = Ret g' \<and> errv g' = errv g @ fe l \<and> outv g' = outv g \<and> tally g' = tally g + ft l"
begin

abbreviation lines :: "string list option \<Rightarrow> string list" where
  "lines c \<equiv> (case c of None \<Rightarrow> [] | Some ls \<Rightarrow> ls)"

abbreviation pending :: "string list option \<Rightarrow> nat" where
  "pending c \<equiv> (case c of None \<Rightarrow> 0 | Some ls \<Rightarrow> Suc (length ls))"

lemma stream_loop_returns:
  assumes "pending out + pending err \<le> length ps" and "\<forall>l\<in>set (lines out @ lines err). accepts l"
  shows "\<exists>g'. stream_loop logOut logErr ps out err g = Ret g' \<and>
    outv g' = outv g @ concat (map fo (lines out)) \<and> errv g' = errv g @ concat (map fe (lines err)) \<and>
    tally g' = tally g + sum_list (map ft (lines out @ lines err))"
  using assms
proof (induction ps arbitrary: out err g)
  case Nil
  then show ?case by (auto split: option.splits)
next
  case (Cons p ps)
  consider (closed) "out = None" "err = None" | (out) ls where "out = Some ls" "p \<or> err = None"
    | (err) ls where "err = Some ls" "\<not> (out \<noteq> None \<and> (p \<or> err = None))"
    by (cases out; cases err) auto
  then show ?case
  proof cases
    case closed
    then show ?thesis by simp
  next
    case (out ls)
    then show ?thesis
    proof (cases ls)
      case Nil
      with out Cons.IH [of None err g] Cons.prems show ?thesis by simp
    next
      case (Cons l rest)
      with Cons.prems(2) out obtain g1 where g1: "logOut l g = Ret g1" "outv g1 = outv g @ fo l" "errv g1 = errv g"
          "tally g1 = tally g + ft l"
        using logOut_ok [of l g] by auto
      with Cons out Cons.IH [of "Some rest" err g1] Cons.prems show ?thesis by (simp add: add.assoc)
    qed
  next
    case (err ls)
    then show ?thesis
    proof (cases ls)
      case Nil
      with err Cons.IH [of out None g] Cons.prems show ?thesis by (cases out) auto
    next
      case (Cons l rest)
      with Cons.prems(2) err obtain g1 where g1: "logErr l g = Ret g1" "errv g1 = errv g @ fe l" "outv g1 = outv g"
          "tally g1 = tally g + ft l"
        using logErr_ok [of l g] by auto
      with Cons err Cons.IH [of out "Some rest" g1] Cons.prems show ?thesis by (cases out) auto
    qed
  qed
qed

end

text \<open>What one line leaves on its stream, in the logger, and in the counter.\<close>

definition flat_text :: "(string \<Rightarrow> string option) \<Rightarrow> string \<Rightarrow> string \<Rightarrow> string" where
  "flat_text num wId line =
     (case classify num line of
        FlatLine m \<Rightarrow> json_Marshal (JObj (put m WorkerIdLogLabel (JStr wId))) @ [newline]
      | _ \<Rightarrow> [])"

definition raw_entry :: "(string \<Rightarrow> string option) \<Rightarrow> string \<Rightarrow> log_level \<Rightarrow> string \<Rightarrow> string \<Rightarrow> log_entry list" where
  "raw_entry num wId lvl key line =
     (case classify num line of
        FlatLine m \<Rightarrow> []
      | _ \<Rightarrow> [\<lparr>le_level = lvl, le_fields = [(WorkerIdLogLabel, wId), (key, line)]\<rparr>])"

definition rejected :: "(string \<Rightarrow> string option) \<Rightarrow> string \<Rightarrow> nat" where
  "rejected num line = (if classify num line = RejectedLine then 1 else 0)"

definition entries :: "log_level \<Rightarrow> log_state \<Rightarrow> log_entry list" where
  "entries lvl g = filter (\<lambda>e. le_level e = lvl) (ls_zap g)"

lemmas line_defs = flat_text_def raw_entry_def rejected_def entries_def logRawString_def count_failed_def

lemma LogStdOut_effect:
  assumes "json_scan line \<noteq> Some JNull"
  shows "\<exists>g'. LogStdOut num wId Stdout line g = Ret g' \<and> ls_out g' = ls_out g @ flat_text num wId line \<and> ls_err g' = ls_err g \<and>
    entries InfoLevel g' = entries InfoLevel g @ raw_entry num wId InfoLevel ''worker_info_msg'' line \<and>
    entries ErrorLevel g' = entries ErrorLevel g \<and> failedToParseLogs g' = failedToParseLogs g + rejected num line"
  using assms classify_Null [of num line]
  by (cases "classify num line") (simp_all add: LogStdOut_def logJson_classify line_defs)

lemma LogStdErr_effect:
  assumes "json_scan line \<noteq> Some JNull"
  shows "\<exists>g'. LogStdErr num wId Stderr line g = Ret g' \<and> ls_err g' = ls_err g @ flat_text num wId line \<and> ls_out g' = ls_out g \<and>
    entries ErrorLevel g' = entries ErrorLevel g @ raw_entry num wId ErrorLevel ''worker_error_msg'' line \<and>
    entries InfoLevel g' = entries InfoLevel g \<and> failedToParseLogs g' = failedToParseLogs g + rejected num line"
  using assms classify_Null [of num line]
  by (cases "classify num line") (simp_all add: LogStdErr_def logJson_classify line_defs)

interpretation texts: stream_loggers "LogStdOut num wId Stdout" "LogStdErr num wId Stderr" ls_out ls_err
    "flat_text num wId" "flat_text num wId" failedToParseLogs "rejected num" "\<lambda>line. json_scan line \<noteq> Some JNull" for num wId
  by unfold_locales (blast dest: LogStdOut_effect LogStdErr_effect)+

interpretation zap_entries: stream_loggers "LogStdOut num wId Stdout" "LogStdErr num wId Stderr" "entries InfoLevel" "entries ErrorLevel"
    "raw_entry num wId InfoLevel ''worker_info_msg''" "raw_entry num wId ErrorLevel ''worker_error_msg''"
    failedToParseLogs "rejected num" "\<lambda>line. json_scan line \<noteq> Some JNull" for num wId
  by unfold_locales (blast dest: LogStdOut_effect LogStdErr_effect)+

text \<open>C18: Streaming a worker's output ends and loses nothing, whatever \<open>select\<close> picks: once both
  channels have been closed and no line is the JSON value \<open>null\<close>, \<open>StreamLogs\<close> returns with the
  stream channel closed. The objects of stdout are on stdout and those of stderr on stderr, in their
  order, all other lines are entries of the logger at level info and error, in their order, and the
  counter has grown by the number of lines that are valid JSON but were not taken apart.\<close>

theorem StreamLogs_returns:
  assumes len: "length out + length err + 2 \<le> length ps" and st: "rw_isStreamingLogs w"
    and ok: "\<forall>line\<in>set (out @ err). json_scan line \<noteq> Some JNull"
  shows "\<exists>g'. StreamLogs num ps out err w g = Ret (w\<lparr>rw_stdStreamClosed := True\<rparr>, g') \<and>
     ls_out g' = ls_out g @ concat (map (flat_text num (rw_name w)) out) \<and>
     ls_err g' = ls_err g @ concat (map (flat_text num (rw_name w)) err) \<and>
     entries InfoLevel g' = entries InfoLevel g @ concat (map (raw_entry num (rw_name w) InfoLevel ''worker_info_msg'') out) \<and>
     entries ErrorLevel g' = entries ErrorLevel g @ concat (map (raw_entry num (rw_name w) ErrorLevel ''worker_error_msg'') err) \<and>
     failedToParseLogs g' = failedToParseLogs g + sum_list (map (rejected num) (out @ err))"
proof -
  let ?s = "stream_loop (LogStdOut num (rw_name w) Stdout) (LogStdErr num (rw_name w) Stderr) ps (Some out) (Some err) g"
  from texts.stream_loop_returns [of "Some out" "Some err" ps num "rw_name w" g]
    zap_entries.stream_loop_returns [of "Some out" "Some err" ps num "rw_name w" g] len ok
  obtain g' where "?s = Ret g'" "ls_out g' = ls_out g @ concat (map (flat_text num (rw_name w)) out)"
    "ls_err g' = ls_err g @ concat (map (flat_text num (rw_name w)) err)"
    "entries InfoLevel g' = entries InfoLevel g @ concat (map (raw_entry num (rw_name w) InfoLevel ''worker_info_msg'') out)"
    "entries ErrorLevel g' = entries ErrorLevel g @ concat (map (raw_entry num (rw_name w) ErrorLevel ''worker_error_msg'') err)"
    "failedToParseLogs g' = failedToParseLogs g + sum_list (map (rejected num) (out @ err))"
    by auto
  with st show ?thesis by (simp add: StreamLogs_def)
qed

definition sample_streamer :: "unit realProcessWorker" where
  "sample_streamer = \<lparr>rw_name = ''p-0'', rw_poolName = ''p'', rw_cmd = (), rw_restarts = 0, rw_memory = None, rw_lifespan = None,
     rw_cancelled = False, rw_pidCollector = False, rw_isStreamingLogs = True, rw_stdStreamClosed = False\<rparr>"

theorem StreamLogs_returns_witness:
  "\<exists>g'. StreamLogs small_num [True, False, True] [''x''] [] sample_streamer no_logs =
       Ret (sample_streamer\<lparr>rw_stdStreamClosed := True\<rparr>, g') \<and>
     entries InfoLevel g' = [\<lparr>le_level = InfoLevel, le_fields = [(''worker_id'', ''p-0''), (''worker_info_msg'', ''x'')]\<rparr>]"
proof -
  have "json_scan ''x'' = None" by code_simp
  moreover from this have "classify small_num ''x'' = RawLine" by (simp add: classify_def json_Valid_def)
  ultimately show ?thesis
    using StreamLogs_returns [of "[''x'']" "[]" "[True, False, True]" sample_streamer small_num no_logs]
    by (fastforce simp: sample_streamer_def raw_entry_def entries_def no_logs_def WorkerIdLogLabel_def)
qed

end
