(* ===== verification/Admin.thy ===== *)
theory Admin
  imports Supervisor
begin

text \<open>
  \<open>internal/admin/config.go\<close>, \<open>internal/admin/admin.go\<close> and \<open>internal/config/config.go\<close>:
  the admin interface and the configuration loader. The HTTP server is a library: what it does to
  \<open>Run\<close>, failing to listen or answering \<open>Shutdown\<close>, are the inputs of the steps below; reading a
  file and decoding YAML are arguments of \<open>LoadConf\<close>.
\<close>

record AdminConfig =
  ad_Port :: int

definition IsValid_a :: "AdminConfig \<Rightarrow> error option" where
  "IsValid_a a = (if ad_Port a < 0 then Some (Errorf ''Invalid admin port'') else None)"

definition defaultDrainDuration :: duration where
  "defaultDrainDuration = 2 * Second"

subsection \<open>The admin interface\<close>

definition StatusOK :: int where "StatusOK = 200"

definition StatusServiceUnavailable :: int where "StatusServiceUnavailable = 503"

definition HealthHandlerFunc :: "bool \<Rightarrow> int" where
  "HealthHandlerFunc isHealthy = (if isHealthy then StatusOK else StatusServiceUnavailable)"

datatype admin_handler = PromHandler | HealthCheck | PprofIndex | PprofCmdline | PprofProfile | PprofSymbol | PprofTrace

text \<open>The registrations of \<open>Run\<close>, and how \<open>http.ServeMux\<close> picks one for a clean path: the longest
  pattern that is the path, or that ends in a slash and is a prefix of it.\<close>

definition admin_mux :: "(string \<times> admin_handler) list" where
  "admin_mux =
     [(''/metrics'', PromHandler), (''/health'', HealthCheck), (''/debug/pprof/'', PprofIndex),
      (''/debug/pprof/cmdline'', PprofCmdline), (''/debug/pprof/profile'', PprofProfile),
      (''/debug/pprof/symbol'', PprofSymbol), (''/debug/pprof/trace'', PprofTrace)]"

definition mux_matches :: "string \<Rightarrow> string \<Rightarrow> bool" where
  "mux_matches path pat \<longleftrightarrow> pat = path \<or> (pat \<noteq> [] \<and> last pat = CHR ''/'' \<and> take (length pat) path = pat)"

fun longest_match :: "string \<Rightarrow> (string \<times> 'h) list \<Rightarrow> (string \<times> 'h) option" where
  "longest_match path [] = None"
| "longest_match path ((pat, h) # m) =
     (case longest_match path m of
        None \<Rightarrow> if mux_matches path pat then Some (pat, h) else None
      | Some (pat', h') \<Rightarrow> if mux_matches path pat \<and> length pat' < length pat then Some (pat, h) else Some (pat', h'))"

text \<open>The status of \<open>GET /health\<close>, with the health check \<open>mainCore\<close> installs.\<close>

definition health_status :: "('p, 'w) pool_ops \<Rightarrow> 'p Supervisor \<Rightarrow> 'w world \<Rightarrow> int" where
  "health_status P s g = HealthHandlerFunc (IsHealthy_sup P s g)"

definition server_addr :: "AdminConfig \<Rightarrow> string" where
  "server_addr config = CHR '':'' # showInt (ad_Port config)"

text \<open>
  \<open>AdminInterface.Run\<close> waits for its context or for an error of the listener. When the context is
  done it shuts the server down and returns what \<open>Shutdown\<close> returns; a listener that stops with
  anything but \<open>ErrServerClosed\<close> ends it with that error.
\<close>

datatype admin_loc = Serving | AdminReturned "error option"

inductive admin_step :: "bool \<Rightarrow> admin_loc \<Rightarrow> admin_loc \<Rightarrow> bool" for stopped where
  admin_done: "stopped \<Longrightarrow> admin_step stopped Serving (AdminReturned shutdownErr)"
| admin_fails: "admin_step stopped Serving (AdminReturned (Some err))"

inductive_cases admin_stepE [elim!]: "admin_step stopped a a'"

subsection \<open>Loading the configuration\<close>

record MonocerosConfig =
  mc_AdminConfig :: AdminConfig
  mc_SupervisorConfig :: SupervisorConfig

definition LoadConf ::
  "(string \<Rightarrow> error + string) \<Rightarrow> (string \<Rightarrow> error + MonocerosConfig) \<Rightarrow> (string \<Rightarrow> error option) \<Rightarrow> string \<Rightarrow>
   error + MonocerosConfig" where
  "LoadConf ReadFile Unmarshal parse path =
     (case ReadFile path of
        Inl err \<Rightarrow> Inl err
      | Inr yamlFile \<Rightarrow>
          (case Unmarshal yamlFile of
             Inl err \<Rightarrow> Inl err
           | Inr config \<Rightarrow>
               (case IsValid_a (mc_AdminConfig config) of
                  Some err \<Rightarrow> Inl err
                | None \<Rightarrow>
                    (case IsValid_sup parse (mc_SupervisorConfig config) of
                       Some err \<Rightarrow> Inl err
                     | None \<Rightarrow> Inr config))))"

lemma LoadConf_Inr:
  "LoadConf ReadFile Unmarshal parse path = Inr config \<longleftrightarrow>
     (\<exists>yamlFile. ReadFile path = Inr yamlFile \<and> Unmarshal yamlFile = Inr config) \<and>
     0 \<le> ad_Port (mc_AdminConfig config) \<and> IsValid_sup parse (mc_SupervisorConfig config) = None"
  by (auto simp: LoadConf_def IsValid_a_def split: sum.splits option.splits if_splits)

end
