(* ===== verification/Admin_Properties.thy ===== *)
theory Admin_Properties
  imports Admin Pool_Properties
begin

text \<open>
  The health endpoint: what its status says about the processes, through the admin interface, the
  supervisor and the pools.
\<close>

lemma health_status_ok: "health_status P s g = 200 \<longleftrightarrow> IsHealthy_sup P s g"
  by (simp add: health_status_def HealthHandlerFunc_def StatusOK_def StatusServiceUnavailable_def)

text \<open>C25: The health endpoint can be trusted: \<open>/health\<close> is answered by the health check, with status
  200 or 503. It is 200 only if in every pool at least the desired percentage of the processes is
  running, and it is 200 if in every pool all processes run and at most 100 percent are desired, for
  pools of 1 to 65536 processes. It is also 200 before any pool exists.\<close>

theorem health_endpoint:
  assumes n: "\<forall>(n, i)\<in>set (pools s). 0 < length (workers (pi_pool i)) \<and> length (workers (pi_pool i)) \<le> 65536"
    and P: "P = worker_pool_ops lib W ordR ordI"
  shows "longest_match ''/health'' admin_mux = Some (''/health'', HealthCheck) \<and> health_status P s g \<in> {200, 503} \<and>
     (health_status P s g = 200 \<longrightarrow> (\<forall>(n, i)\<in>set (pools s).
        desiredHealthPcnt (pi_pool i) * int (length (workers (pi_pool i))) \<le> 100 * RunningCount W (pi_pool i) g)) \<and>
     ((\<forall>(n, i)\<in>set (pools s). RunningCount W (pi_pool i) g = int (length (workers (pi_pool i))) \<and> desiredHealthPcnt (pi_pool i) \<le> 100) \<longrightarrow>
        health_status P s g = 200) \<and>
     (pools s = [] \<longrightarrow> health_status P s g = 200)"
proof -
  have e: "IsHealthy W (pi_pool i) g \<longrightarrow>
        desiredHealthPcnt (pi_pool i) * int (length (workers (pi_pool i))) \<le> 100 * RunningCount W (pi_pool i) g"
    "RunningCount W (pi_pool i) g = int (length (workers (pi_pool i))) \<and> desiredHealthPcnt (pi_pool i) \<le> 100 \<longrightarrow> IsHealthy W (pi_pool i) g"
    if "(m, i) \<in> set (pools s)" for m i
    using n that IsHealthy_exact [of "pi_pool i" W g] health_percentage_full [of "int (length (workers (pi_pool i)))"]
    by (auto simp: IsHealthy_def)
  have "longest_match ''/health'' admin_mux = Some (''/health'', HealthCheck)" by code_simp
  moreover have "health_status P s g \<in> {200, 503}"
    by (simp add: health_status_def HealthHandlerFunc_def StatusOK_def StatusServiceUnavailable_def)
  ultimately show ?thesis
    unfolding health_status_ok IsHealthy_sup_def P list_all_iff using e by fastforce
qed

definition one_pool_supervisor :: "WorkerPool Supervisor" where
  "one_pool_supervisor = \<lparr>terminating = False,
     pools = [(''p'', \<lparr>pi_pool = one_worker_pool\<lparr>desiredHealthPcnt := 100\<rparr>, runningProcesses = 1, totalProcesses = 1\<rparr>)],
     sconfig = \<lparr>Workers = []\<rparr>, cmdOpts = \<lparr>Buffered = False, Streaming = True\<rparr>\<rparr>"

theorem health_endpoint_witness:
  "health_status (worker_pool_ops sample_lib (real_ops sample_cmd [] (\<lambda>_ _. Registered)) (\<lambda>_. []) (\<lambda>_. [])) one_pool_supervisor running_world = 200"
proof -
  have "RunningCount (real_ops sample_cmd [] (\<lambda>_ _. Registered)) (one_worker_pool\<lparr>desiredHealthPcnt := 100\<rparr>) running_world = 1"
    by code_simp
  with health_endpoint [of one_pool_supervisor _ sample_lib "real_ops sample_cmd [] (\<lambda>_ _. Registered)" "\<lambda>_. []" "\<lambda>_. []" running_world, OF _ refl]
  show ?thesis by (simp add: one_pool_supervisor_def one_worker_facts)
qed

end
