(* ===== verification/Main_Program.thy ===== *)
theory Main_Program
  imports Admin System_Liveness
begin

text \<open>
  \<open>cmd/monoceros/main.go\<close>: \<open>mainCore\<close> runs the admin interface and the supervisor in goroutines
  of their own, with a context each, next to a goroutine that waits for a signal. It takes the result
  of whichever returns first, cancels the other, and returns that result when both have returned.

  The state is where each of the goroutines stands. Before \<open>Supervisor.Run\<close> has started its pools
  \<open>ms_sys\<close> is \<open>None\<close>; from then on the supervisor, its workers and processes move by the steps
  of \<open>System\<close>, and its context is their \<open>ctxDone\<close>.
\<close>

datatype main_loc = MainSelect | MainWait "error option" | MainReturned "error option"

record 'c main_state =
  ms_loc :: main_loc
  ms_sys :: "'c sys_state option"
  ms_admin :: admin_loc
  supervisorDone :: bool
  adminDone :: bool
  ms_signal :: bool
  ms_watching :: bool

text \<open>\<open>supervisorCancel\<close> and \<open>adminCancel\<close>.\<close>

definition supervisorCancel :: "'c main_state \<Rightarrow> 'c main_state" where
  "supervisorCancel m =
     m\<lparr>supervisorDone := True, ms_sys := map_option (\<lambda>st. st\<lparr>ctxDone := True\<rparr>) (ms_sys m)\<rparr>"

definition adminCancel :: "'c main_state \<Rightarrow> 'c main_state" where
  "adminCancel m = m\<lparr>adminDone := True\<rparr>"

definition supervisorCtxDone :: "'c main_state \<Rightarrow> bool" where
  "supervisorCtxDone m \<longleftrightarrow> supervisorDone m \<or> (case ms_sys m of None \<Rightarrow> False | Some st \<Rightarrow> ctxDone st)"

definition main_init :: "'c main_state" where
  "main_init = \<lparr>ms_loc = MainSelect, ms_sys = None, ms_admin = Serving, supervisorDone = False, adminDone = False,
     ms_signal = False, ms_watching = True\<rparr>"

text \<open>The steps of the goroutines of \<open>mainCore\<close>.\<close>

inductive main_step :: "'c setting \<Rightarrow> SupervisorConfig \<Rightarrow> 'c main_state \<Rightarrow> 'c main_state \<Rightarrow> bool" for S config where
  signal_arrives: "main_step S config m (m\<lparr>ms_signal := True\<rparr>)"
| signal_caught: "ms_watching m \<Longrightarrow> ms_signal m \<Longrightarrow>
     main_step S config m ((adminCancel (supervisorCancel m))\<lparr>ms_watching := False, ms_signal := False\<rparr>)"
| watch_ends: "ms_watching m \<Longrightarrow> supervisorCtxDone m \<or> adminDone m \<Longrightarrow> main_step S config m (m\<lparr>ms_watching := False\<rparr>)"
| supervisor_starts: "ms_sys m = None \<Longrightarrow> NewSupervisor config False = Inr s \<Longrightarrow>
     Run_start (s_lib S) (sys_ops S) (sys_pools S) ns (supervisorDone m) s empty_world = Ret st \<Longrightarrow>
     (loc st = MainLoop \<longrightarrow> range_order (pools (sup st)) ns) \<Longrightarrow> main_step S config m (m\<lparr>ms_sys := Some st\<rparr>)"
| supervisor_moves: "ms_sys m = Some st \<Longrightarrow> int_step S st st' \<Longrightarrow> main_step S config m (m\<lparr>ms_sys := Some st'\<rparr>)"
| process_moves: "ms_sys m = Some st \<Longrightarrow> heap (wld st) a = Some w \<Longrightarrow> s_step S (rw_cmd w) c \<Longrightarrow>
     main_step S config m (m\<lparr>ms_sys := Some (st\<lparr>wld := (wld st)\<lparr>heap := (heap (wld st))(a \<mapsto> w\<lparr>rw_cmd := c\<rparr>)\<rparr>\<rparr>)\<rparr>)"
| admin_moves: "admin_step (adminDone m) (ms_admin m) a \<Longrightarrow> main_step S config m (m\<lparr>ms_admin := a\<rparr>)"
| select_admin: "ms_loc m = MainSelect \<Longrightarrow> ms_admin m = AdminReturned err \<Longrightarrow>
     main_step S config m (supervisorCancel (m\<lparr>ms_loc := MainWait err\<rparr>))"
| select_supervisor: "ms_loc m = MainSelect \<Longrightarrow> ms_sys m = Some st \<Longrightarrow> loc st = Returned err \<Longrightarrow>
     main_step S config m (adminCancel (m\<lparr>ms_loc := MainWait err\<rparr>))"
| waited: "ms_loc m = MainWait err \<Longrightarrow> ms_admin m = AdminReturned aerr \<Longrightarrow> ms_sys m = Some st \<Longrightarrow> loc st = Returned serr \<Longrightarrow>
     main_step S config m (m\<lparr>ms_loc := MainReturned err\<rparr>)"

inductive main_reachable :: "'c setting \<Rightarrow> SupervisorConfig \<Rightarrow> 'c main_state \<Rightarrow> bool" for S config where
  start: "main_reachable S config main_init"
| step: "main_reachable S config m \<Longrightarrow> main_step S config m m' \<Longrightarrow> main_reachable S config m'"

text \<open>The \<open>Action\<close> of the command line: the configuration is loaded and validated; with
  \<open>--validate\<close> that is all. An error of \<open>LoadConf\<close> is fatal and exits
  with code 1. The result is an exit code, or the configuration \<open>mainCore\<close> runs on.\<close>

definition main_action ::
  "(string \<Rightarrow> error + string) \<Rightarrow> (string \<Rightarrow> error + MonocerosConfig) \<Rightarrow> (string \<Rightarrow> error option) \<Rightarrow>
   error option \<Rightarrow> string \<Rightarrow> bool \<Rightarrow> (int + MonocerosConfig) outcome" where
  "main_action ReadFile Unmarshal parse buildErr path validate =
     (if buildErr \<noteq> None then Panic ''logger''
      else case LoadConf ReadFile Unmarshal parse path of
          Inl err \<Rightarrow> Ret (Inl 1)
        | Inr mCfg \<Rightarrow> if validate then Ret (Inl 0) else Ret (Inr mCfg))"

text \<open>The exit code of the process once \<open>mainCore\<close> has returned.\<close>

definition exit_code :: "error option \<Rightarrow> int" where
  "exit_code err = (if err \<noteq> None then 1 else 0)"

end
