(* ===== verification/Main_Properties.thy ===== *)
theory Main_Properties
  imports Main_Program System_Properties
begin

text \<open>
  Properties of the whole program. The supervisor inside \<open>mainCore\<close> is the system of
  \<open>System\<close>: everything proved of its reachable states holds here.
\<close>

subsection \<open>Embedding the supervisor\<close>

lemma main_event_cancelled: "main_event P e st = Ret st' \<Longrightarrow> loc st' = loc st \<and> (ctxDone st \<longrightarrow> ctxDone st')"
  by (auto simp: main_event_def split: if_splits)

lemma shutdown_event_cancelled: "shutdown_event P e st = Ret st' \<Longrightarrow> ctxDone st' = ctxDone st"
  by (auto simp: shutdown_event_def Run_finish_def Let_def split: if_splits)

lemma ctx_done_cancelled: "ctx_done P ns st = Ret st' \<Longrightarrow> ctxDone st' = ctxDone st"
  by (auto simp: ctx_done_def)

lemma int_step_keeps:
  assumes "int_step S st st'"
  shows "(ctxDone st \<longrightarrow> ctxDone st') \<and> (loc st = Returned err \<longrightarrow> loc st' = Returned err)"
  using assms
proof cases
  case (recv_main xs x ys e)
  then show ?thesis by (auto dest: main_event_cancelled)
next
  case (recv_shutdown xs x ys e)
  then show ?thesis by (auto dest: shutdown_event_cancelled)
next
  case (context_done ns)
  then show ?thesis by (auto dest: ctx_done_cancelled)
qed auto

lemma Run_start_loc:
  assumes "Run_start lib W P ns ctx s g = Ret st"
  shows "ctxDone st = ctx \<and> (loc st = MainLoop \<or> (\<exists>err. loc st = Returned (Some err)))"
  using assms by (auto simp: Run_start_def split: if_splits)

text \<open>Where \<open>mainCore\<close> waits, the goroutine it does not wait for any more has returned.\<close>

definition sup_returned :: "'c main_state \<Rightarrow> error option \<Rightarrow> bool" where
  "sup_returned m err \<longleftrightarrow> (\<exists>st. ms_sys m = Some st \<and> loc st = Returned err)"

definition main_inv :: "'c main_state \<Rightarrow> bool" where
  "main_inv m \<longleftrightarrow>
     (\<forall>st. ms_sys m = Some st \<longrightarrow> supervisorDone m \<longrightarrow> ctxDone st) \<and>
     (ms_watching m \<or> supervisorCtxDone m \<or> adminDone m) \<and>
     (case ms_loc m of
        MainSelect \<Rightarrow> True
      | MainWait err \<Rightarrow> ms_admin m = AdminReturned err \<and> supervisorDone m \<or> sup_returned m err \<and> adminDone m
      | MainReturned err \<Rightarrow> (\<exists>aerr serr. ms_admin m = AdminReturned aerr \<and> sup_returned m serr \<and> (err = aerr \<or> err = serr)))"

lemmas main_defs = main_inv_def supervisorCancel_def adminCancel_def supervisorCtxDone_def sup_returned_def

lemma main_inv_reachable: "main_reachable S config m \<Longrightarrow> main_inv m"
proof (induction rule: main_reachable.induct)
  case start
  show ?case by (simp add: main_init_def main_defs)
next
  case (step m m')
  from step.hyps(2) step.IH show ?case
  proof cases
    case (supervisor_starts s ns st)
    then show ?thesis using step.IH Run_start_loc [OF supervisor_starts(4)] by (auto simp: main_defs split: main_loc.splits)
  next
    case (supervisor_moves st st')
    then show ?thesis using step.IH int_step_keeps [OF supervisor_moves(3)] by (auto simp: main_defs split: main_loc.splits)
  qed (auto simp: main_defs split: main_loc.splits option.splits)
qed

lemma main_embeds:
  assumes "\<forall>w\<in>set (Workers config). in64 (wc_MaxRestarts w)"
  shows "main_reachable S config m \<Longrightarrow> ms_sys m = Some st \<Longrightarrow> reachable S config st \<or> (\<exists>err. loc st = Returned (Some err))"
proof (induction arbitrary: st rule: main_reachable.induct)
  case (step m m')
  have cancelled: "reachable S config (st\<lparr>ctxDone := True\<rparr>) \<or> (\<exists>err. loc st = Returned (Some err))" if "ms_sys m = Some st" for st
    using step.IH [OF that] reachable.step [OF _ sys_step.os_signal] by blast
  from step.hyps(2) show ?case
  proof cases
    case (supervisor_starts s ns st1)
    with step.prems Run_start_loc [OF supervisor_starts(4)] assms show ?thesis
      by (auto intro!: reachable.init simp: sys_init_def)
  next
    case (supervisor_moves st1 st2)
    with step.prems step.IH [OF supervisor_moves(2)] int_step_keeps [OF supervisor_moves(3)] show ?thesis
      by (auto intro: reachable.step int_step_sys)
  next
    case (process_moves st1 a w c)
    with step.prems step.IH [OF process_moves(2)] show ?thesis
      by (auto intro: reachable.step sys_step.process)
  qed (use step.prems step.IH cancelled in \<open>auto simp: supervisorCancel_def adminCancel_def\<close>)
qed (simp add: main_init_def)

lemma sys_step_split: "sys_step S st st' \<Longrightarrow> int_step S st st' \<or> st' = st\<lparr>ctxDone := True\<rparr> \<or>
    (\<exists>a w c. heap (wld st) a = Some w \<and> s_step S (rw_cmd w) c \<and> st' = st\<lparr>wld := (wld st)\<lparr>heap := (heap (wld st))(a \<mapsto> w\<lparr>rw_cmd := c\<rparr>)\<rparr>\<rparr>)"
  by (induction rule: sys_step.induct) (blast intro: int_step.intros)+

lemma signal_handled:
  assumes "main_reachable S config m" and "ms_watching m"
  shows "main_reachable S config ((adminCancel (supervisorCancel m))\<lparr>ms_watching := False, ms_signal := False\<rparr>)"
proof -
  have "main_reachable S config (m\<lparr>ms_signal := True\<rparr>)" using main_reachable.step [OF assms(1) main_step.signal_arrives] .
  from main_reachable.step [OF this main_step.signal_caught] assms(2) show ?thesis
    by (simp add: adminCancel_def supervisorCancel_def)
qed

text \<open>Every state of the system occurs in \<open>mainCore\<close>, before it has taken any result.\<close>

lemma main_covers:
  assumes "reachable S config st"
  shows "\<exists>m. main_reachable S config m \<and> ms_sys m = Some st \<and> ms_loc m = MainSelect \<and> ms_admin m = Serving \<and>
    (ctxDone st \<or> ms_watching m)"
  using assms
proof (induction rule: reachable.induct)
  case (init st)
  then obtain s ns b where l: "loc st = MainLoop" and s: "NewSupervisor config False = Inr s" "range_order (pools (sup st)) ns"
    "Run_start (s_lib S) (sys_ops S) (sys_pools S) ns b s empty_world = Ret st" by (auto simp: sys_init_def)
  obtain m :: "'a main_state" where m: "main_reachable S config m" "ms_sys m = None" "supervisorDone m = b" "ms_loc m = MainSelect"
    "ms_admin m = Serving" "b \<or> ms_watching m"
  proof (cases b)
    case True
    have "main_reachable S config ((adminCancel (supervisorCancel main_init))\<lparr>ms_watching := False, ms_signal := False\<rparr>)"
      by (rule signal_handled [OF main_reachable.start]) (simp add: main_init_def)
    with that True show ?thesis by (auto simp: main_init_def adminCancel_def supervisorCancel_def)
  next
    case False
    with that [OF main_reachable.start] show ?thesis by (simp add: main_init_def)
  qed
  have "main_reachable S config (m\<lparr>ms_sys := Some st\<rparr>)"
    by (rule main_reachable.step [OF m(1) main_step.supervisor_starts]) (use m s in auto)
  with m Run_start_loc [OF s(3)] show ?case by (intro exI [of _ "m\<lparr>ms_sys := Some st\<rparr>"]) simp
next
  case (step st st')
  then obtain m where m: "main_reachable S config m" "ms_sys m = Some st" "ms_loc m = MainSelect" "ms_admin m = Serving"
    "ctxDone st \<or> ms_watching m" by blast
  from sys_step_split [OF step.hyps(2)] consider (own) "int_step S st st'" | (sig) "st' = st\<lparr>ctxDone := True\<rparr>"
    | (proc) a w c where "heap (wld st) a = Some w" "s_step S (rw_cmd w) c"
        "st' = st\<lparr>wld := (wld st)\<lparr>heap := (heap (wld st))(a \<mapsto> w\<lparr>rw_cmd := c\<rparr>)\<rparr>\<rparr>" by blast
  then show ?case
  proof cases
    case own
    from main_reachable.step [OF m(1) main_step.supervisor_moves [OF m(2) own]] m int_step_keeps [OF own] show ?thesis
      by (intro exI [of _ "m\<lparr>ms_sys := Some st'\<rparr>"]) auto
  next
    case sig
    show ?thesis
    proof (cases "ctxDone st")
      case True
      then have "st' = st" using sig by simp
      with m show ?thesis by blast
    next
      case False
      with m(5) signal_handled [OF m(1)] m sig show ?thesis by (fastforce simp: adminCancel_def supervisorCancel_def)
    qed
  next
    case (proc a w c)
    from main_reachable.step [OF m(1) main_step.process_moves [OF m(2) proc(1,2)]] m proc(3) show ?thesis
      by (intro exI [of _ "m\<lparr>ms_sys := Some st'\<rparr>"]) auto
  qed
qed

subsection \<open>Properties\<close>



text \<open>C15: \<open>mainCore\<close> returns only when everything is over: both \<open>Run\<close>s have returned, its result is the
  result of one of them, and unless the supervisor failed to start, every process of every pool has
  terminated.\<close>

theorem main_returns_clean:
  assumes laws: "gocmd_laws S" and c: "\<forall>w\<in>set (Workers config). in64 (wc_MaxRestarts w)"
    and re: "main_reachable S config m" and l: "ms_loc m = MainReturned err"
  shows "\<exists>st aerr serr. ms_sys m = Some st \<and> loc st = Returned serr \<and> ms_admin m = AdminReturned aerr \<and> (err = aerr \<or> err = serr) \<and>
     (serr = None \<longrightarrow> (\<forall>ni\<in>set (pools (sup st)). PoolTerminated (sys_ops S) (pi_pool (snd ni)) (wld st)))"
proof -
  from main_inv_reachable [OF re] l obtain st aerr serr where st: "ms_sys m = Some st" "loc st = Returned serr"
    "ms_admin m = AdminReturned aerr" "err = aerr \<or> err = serr" by (auto simp: main_inv_def sup_returned_def)
  have "\<forall>ni\<in>set (pools (sup st)). PoolTerminated (sys_ops S) (pi_pool (snd ni)) (wld st)" if "serr = None"
    using main_embeds [OF c re st(1)] st(2) that returned_clean [OF laws] by auto
  with st show ?thesis by blast
qed

lemma main_finishes:
  assumes re: "main_reachable S config m" and s: "ms_sys m = Some st" "loc st = Returned serr"
  shows "\<exists>m' err. (main_step S config)\<^sup>*\<^sup>* m m' \<and> main_reachable S config m' \<and> ms_sys m' = Some st \<and> ms_loc m' = MainReturned err \<and>
    (ms_loc m = MainSelect \<longrightarrow> err = serr)"
proof -
  have wait: "\<exists>m'. (main_step S config)\<^sup>*\<^sup>* m m' \<and> main_reachable S config m' \<and> ms_sys m' = Some st \<and> ms_loc m' = MainReturned err"
    if m: "main_reachable S config m" "ms_sys m = Some st" "ms_loc m = MainWait err" "(\<exists>aerr. ms_admin m = AdminReturned aerr) \<or> adminDone m" for m err
  proof -
    obtain m1 aerr where m1: "(main_step S config)\<^sup>*\<^sup>* m m1" "main_reachable S config m1" "ms_sys m1 = Some st" "ms_loc m1 = MainWait err"
      "ms_admin m1 = AdminReturned aerr"
    proof (cases "ms_admin m")
      case Serving
      with m(4) have "main_step S config m (m\<lparr>ms_admin := AdminReturned None\<rparr>)"
        by (intro main_step.admin_moves) (auto intro: admin_step.admin_done)
      with that [of "m\<lparr>ms_admin := AdminReturned None\<rparr>" None] m main_reachable.step [OF m(1)] show ?thesis by auto
    qed (use that [of m] m in auto)
    have "main_step S config m1 (m1\<lparr>ms_loc := MainReturned err\<rparr>)" using main_step.waited [OF m1(4,5,3) s(2)] .
    with m1 main_reachable.step [OF m1(2)] show ?thesis
      by (intro exI [of _ "m1\<lparr>ms_loc := MainReturned err\<rparr>"]) (auto intro: rtranclp.rtrancl_into_rtrancl)
  qed
  show ?thesis
  proof (cases "ms_loc m")
    case MainSelect
    let ?m = "adminCancel (m\<lparr>ms_loc := MainWait serr\<rparr>)"
    have st: "main_step S config m ?m" using main_step.select_supervisor [OF MainSelect s] .
    from wait [of ?m serr] main_reachable.step [OF re st] s obtain m' where "(main_step S config)\<^sup>*\<^sup>* ?m m'" "main_reachable S config m'"
      "ms_sys m' = Some st" "ms_loc m' = MainReturned serr" by (auto simp: adminCancel_def)
    with st show ?thesis by (blast intro: converse_rtranclp_into_rtranclp)
  next
    case (MainWait err)
    with main_inv_reachable [OF re] wait [OF re s(1) MainWait] show ?thesis by (auto simp: main_inv_def)
  next
    case (MainReturned err)
    with re s show ?thesis by auto
  qed
qed


lemma finished_sample:
  obtains m st where "main_reachable sample sample_config m" "ms_sys m = Some st" "loc st = Returned None" "ms_loc m = MainSelect"
proof -
  obtain st where st: "exec_run sample sample_config clean_run = Some st" "loc st = Returned None" using clean_run_returns by auto
  with main_covers [OF exec_run_sound [OF st(1) sample_config_in64]] that show ?thesis by blast
qed


theorem main_returns_clean_witness:
  "\<exists>m st. main_reachable sample sample_config m \<and> ms_loc m = MainReturned None \<and> ms_sys m = Some st \<and>
     (\<forall>ni\<in>set (pools (sup st)). PoolTerminated (sys_ops sample) (pi_pool (snd ni)) (wld st))"
proof -
  obtain m st where m: "main_reachable sample sample_config m" "ms_sys m = Some st" "loc st = Returned None" "ms_loc m = MainSelect"
    by (rule finished_sample)
  from main_finishes [OF m(1-3)] m(4) obtain m' where m': "main_reachable sample sample_config m'" "ms_sys m' = Some st"
    "ms_loc m' = MainReturned None" by blast
  from main_returns_clean [OF sample_laws sample_config_in64 m'(1,3)] m' m(3) show ?thesis by auto
qed

text \<open>C28: No signal is lost: as long as neither context has been cancelled, the goroutine that waits
  for signals is there, so a signal that has arrived can be caught, and catching it cancels both
  contexts.\<close>

theorem signal_not_lost:
  assumes "main_reachable S config m" and "ms_signal m" and "\<not> supervisorCtxDone m" and "\<not> adminDone m"
  shows "\<exists>m'. main_step S config m m' \<and> supervisorCtxDone m' \<and> adminDone m' \<and> \<not> ms_signal m'"
proof -
  from main_inv_reachable [OF assms(1)] assms(3,4) have "ms_watching m" by (simp add: main_inv_def)
  from main_step.signal_caught [OF this assms(2)] show ?thesis by (force simp: main_defs)
qed

theorem signal_not_lost_witness:
  "\<exists>m'. main_step sample sample_config (main_init\<lparr>ms_signal := True\<rparr>) m' \<and> supervisorCtxDone m' \<and> adminDone m'"
proof -
  have "main_reachable sample sample_config (main_init\<lparr>ms_signal := True\<rparr>)"
    using main_reachable.step [OF main_reachable.start main_step.signal_arrives] .
  from signal_not_lost [OF this] show ?thesis by (auto simp: main_init_def supervisorCtxDone_def)
qed

text \<open>Two workers with the same name: the supervisor refuses to start.\<close>

definition twin_config :: SupervisorConfig where
  "twin_config = \<lparr>Workers = [sample_worker 1, sample_worker 1]\<rparr>"

definition new_supervisor :: "SupervisorConfig \<Rightarrow> WorkerPool Supervisor" where
  "new_supervisor config = \<lparr>terminating = False, pools = [], sconfig = config, cmdOpts = \<lparr>Buffered = False, Streaming = True\<rparr>\<rparr>"

definition start_loc :: "bool \<Rightarrow> run_loc option" where
  "start_loc b =
     (case Run_start (s_lib sample) (sys_ops sample) (sys_pools sample) [] b (new_supervisor twin_config) empty_world of
        Ret st \<Rightarrow> Some (loc st) | _ \<Rightarrow> None)"

lemma twin_start:
  "\<exists>st e. Run_start (s_lib sample) (sys_ops sample) (sys_pools sample) [] True (new_supervisor twin_config) empty_world = Ret st \<and>
     loc st = Returned (Some e) \<and> errors_Is e (SupervisorErr errDuplicateWorkerName)"
proof -
  have "start_loc True = Some (Returned (Some (Errorw (SupervisorErr errDuplicateWorkerName)
      '': collision detected workers with the same name p'')))" by code_simp
  then show ?thesis by (auto simp: start_loc_def split: outcome.splits)
qed

text \<open>C33: An error of the supervisor can be lost: \<open>mainCore\<close> keeps only the result it received first.
  When a signal stops the admin interface before the supervisor has failed to start, the program ends
  with exit code 0 although the supervisor returned an error.\<close>

theorem supervisor_error_lost:
  "\<exists>m st e. main_reachable sample twin_config m \<and> ms_loc m = MainReturned None \<and> exit_code None = 0 \<and>
     ms_sys m = Some st \<and> loc st = Returned (Some e) \<and> errors_Is e (SupervisorErr errDuplicateWorkerName)"
proof -
  let ?m1 = "(adminCancel (supervisorCancel (main_init :: pcmd main_state)))\<lparr>ms_watching := False, ms_signal := False\<rparr>"
  have "main_reachable sample twin_config ?m1" by (rule signal_handled [OF main_reachable.start]) (simp add: main_init_def)
  from main_reachable.step [OF this main_step.admin_moves, of "AdminReturned None"]
  have "main_reachable sample twin_config (?m1\<lparr>ms_admin := AdminReturned None\<rparr>)"
    by (simp add: main_init_def adminCancel_def supervisorCancel_def admin_step.admin_done)
  from main_reachable.step [OF this main_step.select_admin, of None]
  have m2: "main_reachable sample twin_config (?m1\<lparr>ms_admin := AdminReturned None, ms_loc := MainWait None\<rparr>)" (is "main_reachable _ _ ?m2")
    by (simp add: main_init_def adminCancel_def supervisorCancel_def)
  from twin_start obtain st e where st: "Run_start (s_lib sample) (sys_ops sample) (sys_pools sample) [] True
      (new_supervisor twin_config) empty_world = Ret st" "loc st = Returned (Some e)" "errors_Is e (SupervisorErr errDuplicateWorkerName)"
    by blast
  have "main_reachable sample twin_config (?m2\<lparr>ms_sys := Some st\<rparr>)"
    by (rule main_reachable.step [OF m2 main_step.supervisor_starts [where s = "new_supervisor twin_config" and ns = "[]"]])
      (use st in \<open>simp_all add: main_init_def adminCancel_def supervisorCancel_def NewSupervisor_def new_supervisor_def\<close>)
  from main_reachable.step [OF this main_step.waited, of None None st "Some e"] st
  have "main_reachable sample twin_config (?m2\<lparr>ms_sys := Some st, ms_loc := MainReturned None\<rparr>)"
    by (simp add: main_init_def adminCancel_def supervisorCancel_def)
  with st(2,3) show ?thesis by (intro exI conjI) (auto simp: exit_code_def)
qed

end
