(* ===== verification/Start_Up.thy ===== *)
theory Start_Up
  imports Config_Properties Main_Properties
begin

text \<open>
  From the configuration file to the supervisor's main loop: what loading, validating, creating,
  preparing and running the pools give together.
\<close>

lemma Run_start_succeeds:
  assumes fs: "fs_ok (s_lib S)" and m: "\<forall>w\<in>set (Workers config). in64 (wc_MaxRestarts w)"
    and w: "\<forall>c\<in>set (Workers config). IsValid_w (TmplParse (s_lib S)) c = None \<and> LookPath (s_lib S) (wc_Exec c) \<and>
           (\<forall>sw. NewWorkerPool (s_lib S) False c = Inr sw \<longrightarrow> env_ok (s_lib S) (sys_ops S) sw)"
    and d: "distinct (map wc_Name (Workers config))"
  shows "\<exists>s st. NewSupervisor config False = Inr s \<and>
     Run_start (s_lib S) (sys_ops S) (sys_pools S) (map wc_Name (Workers config)) ctx s empty_world = Ret st \<and>
     loc st = MainLoop \<and> keys (pools (sup st)) = map wc_Name (Workers config) \<and>
     allProcesses st = (\<Sum>c\<leftarrow>Workers config. wc_Replicas c + (if wc_Server c \<noteq> None then 1 else 0))"
proof -
  obtain s :: "WorkerPool Supervisor" where s: "NewSupervisor config False = Inr s" "sconfig s = config" by (simp add: NewSupervisor_def)
  from pools_created [OF fs, of s "s_cmd S" "s_environ S" "s_register S" empty_world] w d s(2) obtain ps tot g1 where
    cr: "createAndPreparePools (s_lib S) (sys_ops S) s empty_world = Ret ((ps, tot, None), g1)"
    and ps: "keys ps = map wc_Name (Workers config)"
    and tot: "tot = (\<Sum>c\<leftarrow>Workers config. wc_Replicas c + (if wc_Server c \<noteq> None then 1 else 0))"
    by (auto simp: sys_ops_def)
  from cr s(2) have cl: "create_loop (s_lib S) (sys_ops S) (cmdOpts s) (Workers config) [] 0 empty_world = Ret ((ps, tot, None), g1)"
    by (simp add: createAndPreparePools_def)
  have "\<forall>n i. map_of ps n = Some i \<longrightarrow> new_pool (sys_ops S) rw_name rw_poolName g1 n i"
    using sys.create_loop_ok [OF cl m] by (auto simp: empty_world_def all_owned_def)
  then have inv: "prepared_inv (sys_ops S) rw_name rw_poolName (pi_pool i) g1" if "map_of ps n = Some i" for n i
    using that by (simp add: new_pool_def new_row_def)
  have "\<exists>s2 g2. for_pools (p_RunAll (sys_pools S)) (map wc_Name (Workers config)) (s\<lparr>pools := ps\<rparr>) g1 = Ret (s2, g2)"
    by (rule sys_pool.for_pools_RunAll_total) (use inv ps in simp_all)
  then obtain s2 g2 where
    fp: "for_pools (p_RunAll (sys_pools S)) (map wc_Name (Workers config)) (s\<lparr>pools := ps\<rparr>) g1 = Ret (s2, g2)" by blast
  with cr s(1) ps tot for_pools_keys [OF fp] show ?thesis by (auto simp: Run_start_def)
qed


definition sample_conf :: MonocerosConfig where
  "sample_conf = \<lparr>mc_AdminConfig = \<lparr>ad_Port = 9090\<rparr>, mc_SupervisorConfig = \<lparr>Workers = [served_worker]\<rparr>\<rparr>"


end
