(* ===== verification/Processbin.thy ===== *)
theory Processbin
  imports Log_Properties
begin

text \<open>
  \<open>cmd/processbin/main.go\<close>: the program the tests run as a worker. It prints a line at an interval,
  exits after a time or on a signal, and may serve HTTP. Its event loop is one function of the event it
  takes; the random source and the result of \<open>http.Server.Shutdown\<close> are arguments. Waiting, before an
  exit and between two lines, has no effect on the state, and the response of the HTTP handler is not part of it.
\<close>

definition DefaultLogLineSize :: int where "DefaultLogLineSize = 150"
definition SigtermExitCode :: int where "SigtermExitCode = 143"
definition SigintExitCode :: int where "SigintExitCode = 130"

record pb_flags =
  exit_after :: int
  ignore_signals :: bool
  signal_timeout :: int
  log_fixed :: string
  log_size :: int
  log_interval :: int
  log_error :: bool
  log_structured :: bool
  pb_port :: int

record pb_state =
  pb_out :: string
  pb_err :: string
  logLine :: string
  pb_server :: bool
  exit_timer :: bool

definition pb_log :: "string \<Rightarrow> bool \<Rightarrow> bool \<Rightarrow> pb_state \<Rightarrow> pb_state" where
  "pb_log line logErr structured g =
     (if structured then
        let b = json_Marshal (JObj [(''key'', JStr line)])
        in g\<lparr>pb_out := pb_out g @ b @ [newline], pb_err := pb_err g @ (if logErr then b @ [newline] else [])\<rparr>
      else
        g\<lparr>pb_out := pb_out g @ line @ [newline], pb_err := pb_err g @ (if logErr then line @ [newline] else [])\<rparr>)"

text \<open>\<open>hex.EncodeToString\<close>.\<close>

definition hex_encode :: "string \<Rightarrow> string" where
  "hex_encode s = concat (map (\<lambda>c. [hex_digit (byte c div 16), hex_digit (byte c mod 16)]) s)"

text \<open>The line to log: \<open>make\<close> panics on a negative size.\<close>

definition pb_line :: "(nat \<Rightarrow> error + string) \<Rightarrow> pb_flags \<Rightarrow> string outcome" where
  "pb_line RandRead c =
     (if 0 < length (log_fixed c) then Ret (log_fixed c)
      else if log_size c < 0 then Panic ''makeslice: len out of range''
      else case RandRead (nat (log_size c)) of
          Inl err \<Rightarrow> Panic ''rand.Read''
        | Inr logBytes \<Rightarrow> Ret (hex_encode logBytes))"

text \<open>The \<open>Action\<close> up to its loop: the first line is logged before anything is waited for.\<close>

definition pb_start :: "(nat \<Rightarrow> error + string) \<Rightarrow> pb_flags \<Rightarrow> pb_state outcome" where
  "pb_start RandRead c =
     obind (pb_line RandRead c)
       (\<lambda>line. Ret (pb_log line (log_error c) (log_structured c)
          \<lparr>pb_out = [], pb_err = [], logLine = line, pb_server = (pb_port c \<noteq> 0), exit_timer = (0 < exit_after c)\<rparr>))"

datatype posix_signal = SIGTERM | SIGINT

datatype pb_event = PbSignal posix_signal | PbTimeout | PbLog

datatype pb_result = PbGoesOn pb_state | PbReturns "error option" pb_state | PbExits int pb_state

definition pb_step :: "pb_flags \<Rightarrow> error option \<Rightarrow> pb_event \<Rightarrow> pb_state \<Rightarrow> pb_result" where
  "pb_step c shutdownErr e g =
     (case e of
        PbSignal s \<Rightarrow>
          if pb_server g \<and> shutdownErr \<noteq> None then PbReturns shutdownErr g
          else if \<not> ignore_signals c then
            PbExits (if s = SIGTERM then SigtermExitCode else SigintExitCode)
              (g\<lparr>pb_out := pb_out g @ ''Caught SIGINT, waiting for '' @ showInt (signal_timeout c) @
                   '' seconds before exiting'' @ [newline]\<rparr>)
          else PbGoesOn g
      | PbTimeout \<Rightarrow>
          if pb_server g \<and> shutdownErr \<noteq> None then PbReturns shutdownErr g else PbReturns None g
      | PbLog \<Rightarrow> PbGoesOn (pb_log (logLine g) (log_error c) (log_structured c) g))"

fun pb_loop :: "pb_flags \<Rightarrow> error option \<Rightarrow> pb_event list \<Rightarrow> pb_state \<Rightarrow> pb_result" where
  "pb_loop c shutdownErr [] g = PbGoesOn g"
| "pb_loop c shutdownErr (e # es) g =
     (case pb_step c shutdownErr e g of PbGoesOn g1 \<Rightarrow> pb_loop c shutdownErr es g1 | r \<Rightarrow> r)"

subsection \<open>Properties\<close>

definition tick :: "pb_flags \<Rightarrow> pb_state \<Rightarrow> pb_state" where
  "tick c g = pb_log (logLine g) (log_error c) (log_structured c) g"

lemma pb_log_frame [simp]:
  "logLine (pb_log l b j g) = logLine g" "pb_server (pb_log l b j g) = pb_server g" "exit_timer (pb_log l b j g) = exit_timer g"
  by (simp_all add: pb_log_def Let_def)

lemma ticks_frame [simp]: "pb_server ((tick c ^^ n) g) = pb_server g" "exit_timer ((tick c ^^ n) g) = exit_timer g"
  by (induction n) (simp_all add: tick_def)

text \<open>Signals that are ignored leave no trace; the log ticks between them do.\<close>

lemma pb_loop_prefix:
  assumes "\<forall>e\<in>set es. e = PbLog \<or> ignore_signals c \<and> e \<noteq> PbTimeout" and "pb_server g \<longrightarrow> shutdownErr = None"
  shows "pb_loop c shutdownErr (es @ fs) g = pb_loop c shutdownErr fs ((tick c ^^ count_list es PbLog) g)"
  using assms
proof (induction es arbitrary: g)
  case (Cons e es)
  show ?case
  proof (cases "e = PbLog")
    case True
    with Cons.IH [of "tick c g"] Cons.prems show ?thesis by (simp add: pb_step_def tick_def [symmetric] funpow_swap1 ticks_frame(1) [of 1, simplified])
  next
    case False
    with Cons.prems have "\<exists>s. e = PbSignal s" by (cases e) auto
    with Cons False show ?thesis by (auto simp: pb_step_def)
  qed
qed simp

text \<open>C30: How processbin ends: it logs a line per tick, and as long as it only sees ticks, and
  signals it has been told to ignore, it goes on. The first signal it does not ignore ends it with
  code 143 for \<open>SIGTERM\<close> and 130 for \<open>SIGINT\<close>, and the timeout makes it return, which is exit code
  0; this holds when it has no HTTP server or the server shuts down cleanly.\<close>

theorem processbin_ends:
  assumes "\<forall>e\<in>set es. e = PbLog \<or> ignore_signals c \<and> e \<noteq> PbTimeout" and "pb_server g \<longrightarrow> shutdownErr = None"
  shows "pb_loop c shutdownErr es g = PbGoesOn ((tick c ^^ count_list es PbLog) g) \<and>
     pb_loop c shutdownErr (es @ PbTimeout # fs) g = PbReturns None ((tick c ^^ count_list es PbLog) g) \<and>
     (\<not> ignore_signals c \<longrightarrow> (\<exists>g' g''. pb_loop c shutdownErr (es @ PbSignal SIGTERM # fs) g = PbExits 143 g' \<and>
        pb_loop c shutdownErr (es @ PbSignal SIGINT # fs) g = PbExits 130 g''))"
proof -
  note p = pb_loop_prefix [OF assms]
  have sh: "\<not> (pb_server ((tick c ^^ n) g) \<and> shutdownErr \<noteq> None)" for n using assms(2) by simp
  show ?thesis
    using p [of "[]"] p [of "PbTimeout # fs"] p [of "PbSignal SIGTERM # fs"] p [of "PbSignal SIGINT # fs"] sh
    by (auto simp: pb_step_def SigtermExitCode_def SigintExitCode_def)
qed

definition sample_flags :: pb_flags where
  "sample_flags = \<lparr>exit_after = 0, ignore_signals = False, signal_timeout = 1, log_fixed = ''hi'', log_size = DefaultLogLineSize,
     log_interval = 1,     log_error = False, log_structured = True, pb_port = 0\<rparr>"

theorem processbin_ends_witness:
  "\<exists>g g'. pb_start (\<lambda>_. Inl (LibErr ''rand'')) sample_flags = Ret g \<and>
     pb_loop sample_flags None [PbLog, PbSignal SIGTERM] g = PbExits 143 g'"
proof -
  have "\<exists>g. pb_start (\<lambda>_. Inl (LibErr ''rand'')) sample_flags = Ret g"
    by (simp add: pb_start_def pb_line_def sample_flags_def)
  then obtain g where "pb_start (\<lambda>_. Inl (LibErr ''rand'')) sample_flags = Ret g" by blast
  with processbin_ends [of "[PbLog]" sample_flags g None "[]"] show ?thesis by (auto simp: sample_flags_def)
qed

lemma hex_encode_ascii: "list_all (\<lambda>c. byte c < 128) (hex_encode s)"
proof -
  have "\<forall>n\<in>set [0..<16]. byte (hex_digit n) < 128" by code_simp
  then have "n < 16 \<Longrightarrow> byte (hex_digit n) < 128" for n by simp
  moreover have "byte c div 16 < 16" for c by (rule less_mult_imp_div_less) simp
  ultimately show ?thesis by (induction s) (simp_all add: hex_encode_def)
qed

lemma pb_start_line:
  assumes "pb_start RandRead c = Ret g" and "utf8_Valid (log_fixed c)"
  shows "utf8_Valid (logLine g)"
  using assms utf8_ascii_string [OF hex_encode_ascii]
  by (auto simp: pb_start_def pb_line_def split: if_splits sum.splits)

text \<open>C29: Processbin and the streamer fit together: what processbin prints first with
  \<open>--log-structured\<close> is one line, and \<open>LogStdOut\<close> turns it into one line of its own that holds both
  the logged text, under \<open>key\<close>, and the worker's id; this holds for every random line and for every
  fixed line that is valid UTF-8.\<close>

theorem structured_log_flattened:
  assumes st: "pb_start RandRead c = Ret g" and j: "log_structured c" and u: "utf8_Valid (log_fixed c)"
    and num: "num_law num" and wid: "utf8_Valid wId"
  shows "\<exists>line text m. pb_out g = line @ [newline] \<and> printable line \<and>
     LogStdOut num wId Stdout line ls = Ret (ls\<lparr>ls_out := ls_out ls @ text @ [newline]\<rparr>) \<and> printable text \<and>
     json_Unmarshal num text = Inr (Some m) \<and> map_of m = [''key'' \<mapsto> JStr (logLine g), ''worker_id'' \<mapsto> JStr wId]"
proof -
  let ?m = "[(''key'', JStr (logLine g))]"
  have "utf8_Valid ''key''" by (rule utf8_ascii_string) simp
  with pb_start_line [OF st u] have ok: "json_ok num maxNestingDepth (JObj ?m)" by (simp add: maxNestingDepth_def)
  have out: "pb_out g = json_Marshal (JObj ?m) @ [newline]"
    using st j by (auto simp: pb_start_def pb_log_def Let_def)
  have "WorkerIdLogLabel \<notin> set (keys ?m)" by (simp add: WorkerIdLogLabel_def)
  from log_object [OF num wid Unmarshal_Marshal [OF ok] this, of ls] Marshal_printable [OF ok] out show ?thesis
    by (auto simp: WorkerIdLogLabel_def)
qed

theorem structured_log_flattened_witness:
  "\<exists>g line text m. pb_start (\<lambda>_. Inl (LibErr ''rand'')) sample_flags = Ret g \<and> pb_out g = line @ [newline] \<and>
     LogStdOut small_num ''p-0'' Stdout line no_logs = Ret (no_logs\<lparr>ls_out := text @ [newline]\<rparr>) \<and>
     json_Unmarshal small_num text = Inr (Some m) \<and> map_of m ''key'' = Some (JStr ''hi'') \<and> map_of m ''worker_id'' = Some (JStr ''p-0'')"
proof -
  have "\<exists>g. pb_start (\<lambda>_. Inl (LibErr ''rand'')) sample_flags = Ret g \<and> logLine g = ''hi''"
    by (simp add: pb_start_def pb_line_def sample_flags_def)
  then obtain g where g: "pb_start (\<lambda>_. Inl (LibErr ''rand'')) sample_flags = Ret g" "logLine g = ''hi''" by blast
  have "utf8_Valid (log_fixed sample_flags)" "utf8_Valid ''p-0''"
    by (rule utf8_ascii_string, simp add: sample_flags_def)+
  moreover have "log_structured sample_flags" by (simp add: sample_flags_def)
  ultimately show ?thesis
    using structured_log_flattened [OF g(1) _ _ small_num_law, of "''p-0''" no_logs] g
    by (fastforce simp: no_logs_def)
qed

end
