(* ===== verification/Mock_Pool.thy ===== *)
theory Mock_Pool
  imports Supervisor
begin

text \<open>
  \<open>internal/supervisor/test_utils.go\<close>: the pool the supervisor's tests plug in. Every method calls
  the function stored in a field; a field that was not set is a nil function, and calling it panics.
  The three observers are taken as set, because the interface gives them a plain result.
  With it the supervisor's handlers can be observed: the mock below writes down which workers it is
  told to interrupt.
\<close>

record 'w mockWorkerPool =
  runAll :: "('w world \<Rightarrow> 'w world outcome) option"
  interruptWorker :: "(string \<Rightarrow> 'w world \<Rightarrow> 'w world outcome) option"
  interruptAll :: "('w world \<Rightarrow> 'w world outcome) option"
  forceTerminateWorker :: "(string \<Rightarrow> 'w world \<Rightarrow> 'w world outcome) option"
  waitForWorkerToCleanBuffer :: "(string \<Rightarrow> 'w world \<Rightarrow> error option outcome) option"
  restartWorker :: "(cmdOptions \<Rightarrow> string \<Rightarrow> 'w world \<Rightarrow> (error option \<times> 'w world) outcome) option"
  isHealthy :: "'w world \<Rightarrow> bool"
  hasProxy :: bool
  runningCount :: "'w world \<Rightarrow> int"

definition mock_ops :: "('w mockWorkerPool, 'w) pool_ops" where
  "mock_ops =
     \<lparr>p_RunAll = (\<lambda>m g. obind (deref (runAll m)) (\<lambda>f. obind (f g) (\<lambda>g1. Ret (m, g1)))),
      p_InterruptWorker = (\<lambda>id m g. obind (deref (interruptWorker m)) (\<lambda>f. obind (f id g) (\<lambda>g1. Ret (m, g1)))),
      p_InterruptAll = (\<lambda>m g. obind (deref (interruptAll m)) (\<lambda>f. obind (f g) (\<lambda>g1. Ret (m, g1)))),
      p_ForceTerminateWorker = (\<lambda>id m g. obind (deref (forceTerminateWorker m)) (\<lambda>f. obind (f id g) (\<lambda>g1. Ret (m, g1)))),
      p_WaitForWorkerToCleanBuffer = (\<lambda>id m g. obind (deref (waitForWorkerToCleanBuffer m)) (\<lambda>f. f id g)),
      p_RestartWorker = (\<lambda>opts id m g. obind (deref (restartWorker m))
        (\<lambda>f. obind (f opts id g) (\<lambda>(err, g1). Ret (err, m, g1)))),
      p_IsHealthy = (\<lambda>m g. isHealthy m g), p_HasProxy = hasProxy, p_RunningCount = (\<lambda>m g. runningCount m g)\<rparr>"

text \<open>A mock with a proxy that notes every interrupt.\<close>

definition noting_mock :: "'w mockWorkerPool" where
  "noting_mock = \<lparr>runAll = None, interruptWorker = Some (\<lambda>id g. Ret (g\<lparr>posts := posts g @ [id]\<rparr>)), interruptAll = None,
     forceTerminateWorker = None, waitForWorkerToCleanBuffer = None, restartWorker = None, isHealthy = (\<lambda>g. True), hasProxy = True,
     runningCount = (\<lambda>g. 0)\<rparr>"

text \<open>The supervisor's bookkeeping for a sequence of ended processes.\<close>

fun handle_ends ::
  "('p, 'w) pool_ops \<Rightarrow> SupervisorEvent list \<Rightarrow> 'p Supervisor \<Rightarrow> 'w world \<Rightarrow> ('p Supervisor \<times> 'w world) outcome" where
  "handle_ends P [] s g = Ret (s, g)"
| "handle_ends P (e # es) s g =
     obind (handleProcessTerminationDuringShutdown P e s g) (\<lambda>(s1, g1). handle_ends P es s1 g1)"

lemma noting_mock_fields [simp]:
  "hasProxy noting_mock" "interruptWorker noting_mock = Some (\<lambda>id g. Ret (g\<lparr>posts := posts g @ [id]\<rparr>))"
  by (simp_all add: noting_mock_def)

lemma pool_info_keep: "pi_pool i = p \<Longrightarrow> i\<lparr>runningProcesses := r, pi_pool := p\<rparr> = i\<lparr>runningProcesses := r\<rparr>"
  by (cases i) simp

lemma mock_end:
  assumes "map_of (pools s) n = Some i" and "ev_Pool e = n" and "pi_pool i = noting_mock"
  shows "handleProcessTerminationDuringShutdown mock_ops e s g =
    Ret (s\<lparr>pools := AList.update n (i\<lparr>runningProcesses := runningProcesses i - 1\<rparr>) (pools s)\<rparr>,
         if runningProcesses i = totalProcesses i then g\<lparr>posts := posts g @ [ProxyId]\<rparr> else g)"
  using assms by (simp add: handleProcessTerminationDuringShutdown_def mock_ops_def Let_def pool_info_keep)

lemma mock_ends:
  assumes "map_of (pools s) n = Some i" and "pi_pool i = noting_mock" and "runningProcesses i \<le> totalProcesses i"
    and "\<forall>e\<in>set es. ev_Pool e = n"
  shows "\<exists>s'. handle_ends mock_ops es s g =
      Ret (s', if es \<noteq> [] \<and> runningProcesses i = totalProcesses i then g\<lparr>posts := posts g @ [ProxyId]\<rparr> else g) \<and>
    map_of (pools s') n = Some (i\<lparr>runningProcesses := runningProcesses i - int (length es)\<rparr>)"
  using assms
proof (induction es arbitrary: s i g)
  case (Cons e es)
  let ?i = "i\<lparr>runningProcesses := runningProcesses i - 1\<rparr>"
  let ?s = "s\<lparr>pools := AList.update n ?i (pools s)\<rparr>"
  let ?g = "if runningProcesses i = totalProcesses i then g\<lparr>posts := posts g @ [ProxyId]\<rparr> else g"
  from Cons.IH [of ?s ?i ?g] Cons.prems obtain s' where "handle_ends mock_ops es ?s ?g = Ret (s', ?g)"
    "map_of (pools s') n = Some (?i\<lparr>runningProcesses := runningProcesses ?i - int (length es)\<rparr>)" by auto
  with mock_end [OF Cons.prems(1) _ Cons.prems(2), of e g] Cons.prems(4) show ?case
    by (intro exI [of _ s']) (simp add: diff_diff_eq)
qed simp


definition mock_supervisor :: "'w mockWorkerPool Supervisor" where
  "mock_supervisor = \<lparr>terminating = True, pools = [(''p'', \<lparr>pi_pool = noting_mock, runningProcesses = 4, totalProcesses = 4\<rparr>)],
     sconfig = \<lparr>Workers = []\<rparr>, cmdOpts = \<lparr>Buffered = False, Streaming = True\<rparr>\<rparr>"


end
