(* ===== verification/System_Stop.thy ===== *)
theory System_Stop
  imports System_Flow System_Properties System_Liveness
begin

text \<open>
  No worker is forgotten on shutdown. \<open>sig\<close> says of a go-cmd command that \<open>Stop\<close> has reached the
  started process; a command that is not started yet makes \<open>Terminate\<close> send an event to itself to try
  again. From the interrupt of the pools on, every worker but the proxies has finished, has been reached, or
  has that event on its way.
\<close>

definition gocmd_stops :: "'c setting \<Rightarrow> ('c \<Rightarrow> bool) \<Rightarrow> bool" where
  "gocmd_stops S sig \<longleftrightarrow>
     (\<forall>c. fst (cmdStop (s_cmd S) c) \<noteq> StopErrNotStarted \<longrightarrow> sig (snd (cmdStop (s_cmd S) c))) \<and>
     (\<forall>c. sig c \<longrightarrow> sig (snd (cmdStop (s_cmd S) c))) \<and>
     (\<forall>c c'. s_step S c c' \<longrightarrow> sig c \<longrightarrow> sig c') \<and>
     (\<forall>c msg c'. cmdRecv (s_cmd S) c = Some (msg, c') \<longrightarrow> sig c \<longrightarrow> sig c')"

definition try_again :: "string \<Rightarrow> string \<Rightarrow> SupervisorEvent" where
  "try_again k n = mk_event ProcessNeedsInterrupt ProcessHasNotStartedYet k n None"

definition told :: "'c gocmd \<Rightarrow> ('c \<Rightarrow> bool) \<Rightarrow> 'c sys_world \<Rightarrow> addr \<Rightarrow> bool" where
  "told G sig g a \<longleftrightarrow> (\<exists>w. heap g a = Some w \<and>
     (cmd_done G (rw_cmd w) \<or>
      rw_cancelled w \<and> (sig (rw_cmd w) \<or> SendEvent (try_again (rw_name w) (rw_poolName w)) \<in> set (gos g))))"

text \<open>One worker changes and goroutines are added: what was told stays told.\<close>

lemma told_upd:
  assumes "told G sig g b" and "heap g a = Some w" and "heap g' = (heap g)(a \<mapsto> w')"
    and "\<And>e. SendEvent e \<in> set (gos g) \<Longrightarrow> SendEvent e \<in> set (gos g')"
    and "rw_name w' = rw_name w" "rw_poolName w' = rw_poolName w" "rw_cancelled w \<Longrightarrow> rw_cancelled w'"
    and "cmd_done G (rw_cmd w) \<Longrightarrow> cmd_done G (rw_cmd w')" "sig (rw_cmd w) \<Longrightarrow> sig (rw_cmd w')"
  shows "told G sig g' b"
  using assms unfolding told_def by (cases "b = a") auto

lemma Terminate_r_frame:
  "rw_name (fst (Terminate_r G d a w)) = rw_name w" "rw_poolName (fst (Terminate_r G d a w)) = rw_poolName w"
  "rw_cancelled w \<Longrightarrow> rw_cancelled (fst (Terminate_r G d a w))"
  by (simp_all add: Terminate_r_def Let_def)

lemma terminate_told:
  assumes laws: "gocmd_laws S" "gocmd_stops S sig" and o: "on_worker (Terminate_r (s_cmd S) d) a g = Ret g'"
  shows "told (s_cmd S) sig g' a" and "told (s_cmd S) sig g b \<Longrightarrow> told (s_cmd S) sig g' b"
proof -
  from o obtain w where w: "heap g a = Some w"
    and g': "g' = apply_effects (snd (Terminate_r (s_cmd S) d a w)) (g\<lparr>heap := (heap g)(a \<mapsto> fst (Terminate_r (s_cmd S) d a w))\<rparr>)"
    by (auto simp: on_worker_eq_Ret)
  show "told (s_cmd S) sig g' a"
    using laws(2) by (auto simp: told_def g' Terminate_r_def Let_def Status_r_Terminated try_again_def gocmd_stops_def)
  show "told (s_cmd S) sig g' b" if "told (s_cmd S) sig g b"
  proof (rule told_upd [OF that w])
    show "cmd_done (s_cmd S) (rw_cmd (fst (Terminate_r (s_cmd S) d a w)))" if "cmd_done (s_cmd S) (rw_cmd w)"
      using that by (simp add: Terminate_r_def Status_r_Terminated)
    show "sig (rw_cmd (fst (Terminate_r (s_cmd S) d a w)))" if "sig (rw_cmd w)"
      using that laws(2) by (simp add: Terminate_r_def Let_def gocmd_stops_def)
  qed (auto simp: g' Terminate_r_frame)
qed

text \<open>A set of allocated workers that have been told, as an invariant of the world.\<close>

definition all_told :: "'c gocmd \<Rightarrow> ('c \<Rightarrow> bool) \<Rightarrow> addr set \<Rightarrow> 'c sys_world \<Rightarrow> bool" where
  "all_told G sig A g \<longleftrightarrow> (\<forall>a\<in>A. a < nextAddr g \<and> told G sig g a)"

lemma all_told_frame:
  "all_told G sig A g \<Longrightarrow> heap g' = heap g \<Longrightarrow> nextAddr g' = nextAddr g \<Longrightarrow> gos g' = gos g \<Longrightarrow> all_told G sig A g'"
  by (simp add: all_told_def told_def)

lemma terminate_all_told:
  assumes "gocmd_laws S" "gocmd_stops S sig" and o: "on_worker (Terminate_r (s_cmd S) d) a g = Ret g'"
    and "all_told (s_cmd S) sig A g"
  shows "all_told (s_cmd S) sig A g'"
proof -
  from o have "nextAddr g' = nextAddr g" by (auto simp: on_worker_eq_Ret)
  with terminate_told(2) [OF assms(1-3)] assms(4) show ?thesis by (simp add: all_told_def)
qed

lemma run_told:
  assumes "gocmd_new_law (s_cmd S)" and "all_told (s_cmd S) sig A g" and w: "heap g a = Some w"
    and c: "NewProdWorker (s_cmd S) E R c = Ret w" and o: "on_worker (Run_r (s_cmd S)) a g = Ret g'"
  shows "all_told (s_cmd S) sig A g'"
proof -
  from o w have g': "g' = apply_effects (snd (Run_r (s_cmd S) a w)) (g\<lparr>heap := (heap g)(a \<mapsto> fst (Run_r (s_cmd S) a w))\<rparr>)"
    by (auto simp: on_worker_eq_Ret)
  have "\<not> told (s_cmd S) sig g a"
    using assms(1) w newWorkerInstance_Ret [OF c [unfolded NewProdWorker_def]] by (auto simp: told_def gocmd_new_law_def)
  with assms(2) have "a \<notin> A" by (auto simp: all_told_def)
  then have "heap g' b = heap g b \<and> (\<forall>x\<in>set (gos g). x \<in> set (gos g'))" if "b \<in> A" for b
    using that by (auto simp: g')
  moreover have "nextAddr g' = nextAddr g" by (simp add: g')
  ultimately show ?thesis using assms(2) unfolding all_told_def told_def by metis
qed

lemma install_told:
  assumes "all_told G sig A g" and "installs W wid wpool k n w sw g sw' g'"
  shows "all_told G sig A g'"
  using assms by (fastforce simp: all_told_def told_def installs_def)

interpretation telling: world_invariant "sys_ops S" rw_name rw_poolName
    "\<lambda>g. gocmd_laws S \<and> gocmd_stops S sig \<and> gocmd_new_law (s_cmd S) \<longrightarrow> all_told (s_cmd S) sig A g"
  for S sig A
proof unfold_locales
  fix g :: "'a sys_world" and a g'
  assume "gocmd_laws S \<and> gocmd_stops S sig \<and> gocmd_new_law (s_cmd S) \<longrightarrow> all_told (s_cmd S) sig A g"
    and "on_worker (w_ForceTerminateWorker (sys_ops S)) a g = Ret g'"
  then show "gocmd_laws S \<and> gocmd_stops S sig \<and> gocmd_new_law (s_cmd S) \<longrightarrow> all_told (s_cmd S) sig A g'"
    by (auto simp: on_worker_eq_Ret ForceTerminateWorker_r_def fun_upd_idem elim!: all_told_frame)
qed (auto intro: run_told install_told terminate_all_told all_told_frame)

subsection \<open>The interrupt of the pools\<close>

lemma terminate_loop_told:
  assumes laws: "gocmd_laws S" "gocmd_stops S sig" "gocmd_new_law (s_cmd S)"
    and l: "terminate_loop (sys_ops S) sw ks g = Ret g'" and k: "k \<in> set ks" "k \<noteq> ProxyId" "map_of (workers sw) k = Some a"
    and a: "a < nextAddr g"
  shows "told (s_cmd S) sig g' a"
  using l k(1) a
proof (induction ks arbitrary: g)
  case (Cons j ks)
  show ?case
  proof (cases "j = k")
    case True
    with Cons.prems k obtain g1 where o: "on_worker (Terminate_r (s_cmd S) (signalTimeout (startup sw))) a g = Ret g1"
      and l: "terminate_loop (sys_ops S) sw ks g1 = Ret g'" by auto
    from o have "nextAddr g1 = nextAddr g" by (auto simp: on_worker_eq_Ret)
    with terminate_told(1) [OF laws(1,2) o] Cons.prems(3) have "all_told (s_cmd S) sig {a} g1" by (simp add: all_told_def)
    with telling.terminate_loop_I [OF l, of sig "{a}"] laws show ?thesis by (simp add: all_told_def)
  next
    case False
    from Cons.prems False obtain g1 where "terminate_loop (sys_ops S) sw ks g1 = Ret g'" "nextAddr g1 = nextAddr g"
      by (cases "j = ProxyId") (auto simp: on_worker_eq_Ret)
    with Cons.IH [of g1] Cons.prems False show ?thesis by auto
  qed
qed simp

lemma InterruptAll_told:
  assumes laws: "gocmd_laws S" "gocmd_stops S sig" "gocmd_new_law (s_cmd S)"
    and i: "InterruptAll lib (sys_ops S) ks sw g = Ret (sw', g')" and ks: "range_order (workers sw) ks"
    and k: "map_of (workers sw) k = Some a" "k \<noteq> ProxyId" "a < nextAddr g"
  shows "told (s_cmd S) sig g' a" and "workers sw' = workers sw"
proof -
  let ?g = "case sInfo sw of None \<Rightarrow> g | Some si \<Rightarrow> snd (proxyDrain lib si g)"
  have l: "terminate_loop (sys_ops S) (sw\<lparr>pstate := Draining\<rparr>) ks ?g = Ret g'" and sw': "sw' = sw\<lparr>pstate := Draining\<rparr>"
    using i by (auto simp: InterruptAll_def Let_def)
  have "nextAddr ?g = nextAddr g" by (simp add: proxyDrain_def split: option.split)
  with terminate_loop_told [OF laws l _ k(2), of a] k(1,3) map_of_in_keys [OF k(1)] range_order_set [OF ks]
  show "told (s_cmd S) sig g' a" by simp
  show "workers sw' = workers sw" by (simp add: sw')
qed

lemma for_pools_told:
  assumes laws: "gocmd_laws S" "gocmd_stops S sig" "gocmd_new_law (s_cmd S)"
  shows "for_pools (p_InterruptAll (sys_pools S)) ns s g = Ret (s', g') \<Longrightarrow> n \<in> set ns \<Longrightarrow>
    cur (shape_of s) n k a \<Longrightarrow> k \<noteq> ProxyId \<Longrightarrow> a < nextAddr g \<Longrightarrow> told (s_cmd S) sig g' a"
proof (induction ns arbitrary: s g)
  case (Cons m ns)
  from Cons.prems(1) obtain s1 g1 where o: "for_pools (p_InterruptAll (sys_pools S)) [m] s g = Ret (s1, g1)"
    and l: "for_pools (p_InterruptAll (sys_pools S)) ns s1 g1 = Ret (s', g')" by fastforce
  have sh: "shape_of s1 = shape_of s" and c: "nextAddr g1 = nextAddr g"
    using for_pools_InterruptAll [OF laws(1) o] by (auto simp: calm_def)
  show ?case
  proof (cases "n = m")
    case True
    with Cons.prems(3) obtain i where i: "map_of (pools s) m = Some i" "map_of (workers (pi_pool i)) k = Some a"
      by (auto simp: cur_def shape_of_def)
    with o obtain p1 where
      r: "InterruptAll (s_lib S) (sys_ops S) (arrange (s_ordI S (pi_pool i)) (workers (pi_pool i))) (pi_pool i) g = Ret (p1, g1)"
      by (auto simp: on_pool_def)
    from InterruptAll_told(1) [OF laws r range_order_arrange i(2) Cons.prems(4,5)] c Cons.prems(5)
    have g1: "all_told (s_cmd S) sig {a} g1" by (simp add: all_told_def)
    have "gocmd_laws S \<and> gocmd_stops S sig \<and> gocmd_new_law (s_cmd S) \<longrightarrow> all_told (s_cmd S) sig {a} g'"
      by (rule telling.for_pools_I [OF telling.InterruptAll_I l]) (use g1 in auto)
    with laws show ?thesis by (simp add: all_told_def)
  next
    case False
    with Cons.IH [OF l] Cons.prems sh c show ?thesis by simp
  qed
qed simp

subsection \<open>The shutdown loop\<close>

definition stop_set :: "WorkerPool Supervisor \<Rightarrow> addr set" where
  "stop_set s = {a. \<exists>n k. cur (shape_of s) n k a \<and> k \<noteq> ProxyId}"

lemma stop_set_cong: "map_option fst \<circ> shape_of s' = map_option fst \<circ> shape_of s \<Longrightarrow> stop_set s' = stop_set s"
  using cur_fst [of "shape_of s'" "shape_of s"] by (simp add: stop_set_def)

lemma cur_worker:
  assumes "sys_sup_inv S st" and "cur (shape_of (sup st)) n k a"
  shows "a < nextAddr (wld st) \<and> (\<exists>w. heap (wld st) a = Some w \<and> rw_name w = k \<and> rw_poolName w = n)"
proof -
  from assms(2) obtain i where i: "map_of (pools (sup st)) n = Some i" "map_of (workers (pi_pool i)) k = Some a"
    by (auto simp: cur_def shape_of_def)
  from sup_inv_row [OF assms(1) i(1)] have "pool_inv (sys_ops S) rw_name rw_poolName (pi_pool i) (wld st)"
    "poolName (pi_pool i) = n" by (simp_all add: prepared_inv_def)
  with i(2) show ?thesis unfolding pool_inv_def by (fastforce simp: entry_ok_def)
qed

lemma ctx_done_told:
  assumes laws: "gocmd_laws S" "gocmd_stops S sig" "gocmd_new_law (s_cmd S)" and sup: "sys_sup_inv S st"
    and ns: "range_order (pools (sup st)) ns" and ret: "ctx_done (sys_pools S) ns st = Ret st'"
  shows "all_told (s_cmd S) sig (stop_set (sup st')) (wld st')"
proof -
  let ?s = "(sup st)\<lparr>terminating := True\<rparr>"
  from ret have f: "for_pools (p_InterruptAll (sys_pools S)) ns ?s (upd_mets SetSigtermGauge (wld st)) = Ret (sup st', wld st')"
    by (auto simp: ctx_done_def)
  have sh: "shape_of ?s = shape_of (sup st)" by (simp add: shape_of_def fun_eq_iff)
  with for_pools_InterruptAll [OF laws(1) f] have sh': "shape_of (sup st') = shape_of (sup st)"
    and n: "nextAddr (wld st') = nextAddr (wld st)" by (simp_all add: calm_def)
  have "a < nextAddr (wld st') \<and> told (s_cmd S) sig (wld st') a" if c: "cur (shape_of (sup st)) m k a" "k \<noteq> ProxyId" for m k a
  proof -
    have "m \<in> set ns" using c(1) range_order_set [OF ns] by (auto simp: cur_def shape_of_def dest: map_of_in_keys)
    with for_pools_told [OF laws f] c cur_worker [OF sup c(1)] n sh show ?thesis by simp
  qed
  then show ?thesis by (auto simp: all_told_def stop_set_def sh')
qed

text \<open>Receiving an event takes at most one worker's request to try again away, and handles it.\<close>

lemma try_again_handled:
  assumes laws: "gocmd_laws S" "gocmd_stops S sig" and c: "cur (shape_of (sup st)) n k a"
    and ret: "shutdown_event (sys_pools S) (try_again k n) st = Ret st'"
  shows "told (s_cmd S) sig (wld st') a"
proof -
  from c obtain i where i: "map_of (pools (sup st)) n = Some i" "map_of (workers (pi_pool i)) k = Some a"
    by (auto simp: cur_def shape_of_def)
  have "other_event True (sys_pools S) (try_again k n) (sup st) (wld st) = Ret (sup st', wld st')"
    by (rule shutdown_event_other [OF _ ret]) (simp add: try_again_def)
  with i have "on_worker (Terminate_r (s_cmd S) (signalTimeout (startup (pi_pool i)))) a (wld st) = Ret (wld st')"
    by (auto simp: other_event_def try_again_def handleProcessNeedsInterrupt_def on_pool_def InterruptWorker_def)
  then show ?thesis by (rule terminate_told(1) [OF laws])
qed

lemma told_receive:
  assumes "told G sig g a" and "gos g = xs @ x # ys" and "heap g a = Some w" and "x \<noteq> SendEvent (try_again (rw_name w) (rw_poolName w))"
  shows "told G sig (received x (g\<lparr>gos := xs @ ys\<rparr>)) a"
  using assms by (auto simp: told_def received_sel)

lemma shutdown_event_told:
  assumes laws: "gocmd_laws S" "gocmd_stops S sig" "gocmd_new_law (s_cmd S)" and sup: "sys_sup_inv S st"
    and t: "terminating (sup st)" and x: "gos (wld st) = xs @ x # ys" "sends x = Some e"
    and ret: "shutdown_event (sys_pools S) e (st\<lparr>wld := received x ((wld st)\<lparr>gos := xs @ ys\<rparr>)\<rparr>) = Ret st'"
    and told: "all_told (s_cmd S) sig (stop_set (sup st)) (wld st)"
  shows "all_told (s_cmd S) sig (stop_set (sup st')) (wld st')"
proof -
  let ?st = "st\<lparr>wld := received x ((wld st)\<lparr>gos := xs @ ys\<rparr>)\<rparr>"
  have "terminating (sup ?st)" using t by simp
  note fr = shutdown_step_frame [OF laws(1) this ret]
  have n: "nextAddr (wld st') = nextAddr (wld st)" using fr by (simp add: received_sel)
  have "map_option fst \<circ> shape_of (sup st') = map_option fst \<circ> shape_of (sup st)" using fr by simp
  then have sh: "stop_set (sup st') = stop_set (sup st)" by (rule stop_set_cong)
  have "told (s_cmd S) sig (wld st') a" if a: "a \<in> stop_set (sup st)" for a
  proof -
    from a obtain m k where c: "cur (shape_of (sup st)) m k a" by (auto simp: stop_set_def)
    from cur_worker [OF sup c] obtain w where w: "heap (wld st) a = Some w" "rw_name w = k" "rw_poolName w = m" by blast
    show ?thesis
    proof (cases "x = SendEvent (try_again k m)")
      case True
      with x(2) try_again_handled [OF laws(1,2), of ?st m k a st'] c ret show ?thesis by simp
    next
      case False
      with told_receive [OF _ x(1) w(1)] w told a have "all_told (s_cmd S) sig {a} (wld ?st)"
        by (auto simp: all_told_def received_sel)
      with telling.shutdown_event_I [OF ret [unfolded sys_pools_ops], of sig "{a}"] laws show ?thesis
        by (simp add: all_told_def)
    qed
  qed
  with told n sh show ?thesis by (simp add: all_told_def)
qed

text \<open>Goroutines and processes.\<close>

lemma go_step_told:
  assumes laws: "gocmd_laws S" "gocmd_stops S sig" and x: "gos g = xs @ x # ys" and a: "go_addr x = Some a"
    and w: "heap g a = Some w" and st: "go_step (s_cmd S) x w w' zs" and b: "told (s_cmd S) sig g b"
  shows "told (s_cmd S) sig (g\<lparr>heap := (heap g)(a \<mapsto> w'), gos := xs @ zs @ ys\<rparr>) b"
proof (rule told_upd [OF b w, of _ w'])
  have flags: "rw_name (set_limiter l t v) = rw_name v" "rw_poolName (set_limiter l t v) = rw_poolName v"
    "rw_cancelled (set_limiter l t v) = rw_cancelled v" "rw_cmd (set_limiter l t v) = rw_cmd v"
    for l t and v :: "'c realProcessWorker" by (cases l; simp)+
  show "rw_name w' = rw_name w" "rw_poolName w' = rw_poolName w" "rw_cancelled w \<Longrightarrow> rw_cancelled w'"
    using st by (auto elim!: go_step.cases simp: sendUpdatesToAggrChannel_def flags split: option.splits)
  have recv: "sig c'" if "cmdRecv (s_cmd S) c = Some (msg, c')" "sig c" for c msg c'
    using laws(2) that unfolding gocmd_stops_def by blast
  show "sig (rw_cmd w')" if "sig (rw_cmd w)"
    using st that by (auto elim!: go_step.cases simp: sendUpdatesToAggrChannel_def flags split: option.splits) (rule recv)
  show "SendEvent e \<in> set (gos (g\<lparr>heap := (heap g)(a \<mapsto> w'), gos := xs @ zs @ ys\<rparr>))" if "SendEvent e \<in> set (gos g)" for e
    using that x a by auto
qed (use go_step_done [OF laws(1) st] in auto)

lemma process_told:
  assumes laws: "gocmd_laws S" "gocmd_stops S sig" and w: "heap g a = Some w" and c: "s_step S (rw_cmd w) c"
    and b: "told (s_cmd S) sig g b"
  shows "told (s_cmd S) sig (g\<lparr>heap := (heap g)(a \<mapsto> w\<lparr>rw_cmd := c\<rparr>)\<rparr>) b"
  by (rule told_upd [OF b w, of _ "w\<lparr>rw_cmd := c\<rparr>"]) (use laws c in \<open>auto simp: gocmd_laws_def gocmd_stops_def\<close>)

lemma reachable_told:
  assumes laws: "gocmd_laws S" "gocmd_stops S sig" "gocmd_new_law (s_cmd S)"
  shows "reachable S config st \<Longrightarrow> loc st = ShutdownLoop \<Longrightarrow> all_told (s_cmd S) sig (stop_set (sup st)) (wld st)"
proof (induction rule: reachable.induct)
  case (init st)
  then show ?case by (simp add: sys_init_def)
next
  case (step st st')
  have sup: "sys_sup_inv S st" using reachable_inv [OF laws(1) step(1)] by (simp add: sys_inv_def)
  from step(2) show ?case
  proof cases
    case (recv_main xs x ys e)
    then have "loc st' = MainLoop" by (auto simp: main_event_def split: if_splits)
    with step.prems show ?thesis by simp
  next
    case (recv_shutdown xs x ys e)
    then have "terminating (sup st)" using sup by (simp add: sup_inv_def)
    from shutdown_event_told [OF laws sup this recv_shutdown(2-4)] step.IH recv_shutdown(1) show ?thesis by simp
  next
    case (context_done ns)
    from ctx_done_told [OF laws sup context_done(3,4)] show ?thesis .
  next
    case (goroutine xs x ys a w w' zs)
    with go_step_told [OF laws(1,2) goroutine(2-5)] step.IH step.prems show ?thesis by (simp add: all_told_def)
  next
    case (process a w c)
    with process_told [OF laws(1,2) process(2,3)] step.IH step.prems show ?thesis by (simp add: all_told_def)
  qed (use step in simp)
qed

subsection \<open>Properties\<close>

text \<open>C8: Shutdown forgets no worker: in every reachable state of the shutdown loop each worker of each
  pool, other than the proxy, has terminated, or its context is cancelled and it has been stopped, or it had
  no process yet and the event that asks for another interrupt is on its way to the supervisor.\<close>

theorem shutdown_tells_every_worker:
  assumes "gocmd_laws S" and "gocmd_stops S sig" and "gocmd_new_law (s_cmd S)" and "reachable S config st"
    and "loc st = ShutdownLoop" and "map_of (pools (sup st)) n = Some i" and "map_of (workers (pi_pool i)) k = Some a"
    and "k \<noteq> ProxyId"
  shows "\<exists>w. heap (wld st) a = Some w \<and>
     (Status_r (s_cmd S) w = Terminated \<or>
      rw_cancelled w \<and>
        (sig (rw_cmd w) \<or>
         SendEvent (mk_event ProcessNeedsInterrupt ProcessHasNotStartedYet k n None) \<in> set (gos (wld st))))"
proof -
  have sup: "sys_sup_inv S st" using reachable_inv [OF assms(1,4)] by (simp add: sys_inv_def)
  have c: "cur (shape_of (sup st)) n k a" using assms(6,7) by (simp add: cur_def shape_of_def)
  with reachable_told [OF assms(1-5)] assms(8) have "told (s_cmd S) sig (wld st) a" by (auto simp: all_told_def stop_set_def)
  with cur_worker [OF sup c] show ?thesis by (auto simp: told_def Status_r_Terminated try_again_def)
qed

lemma sample_stops: "gocmd_stops sample pc_stopped" "gocmd_new_law (s_cmd sample)"
  by (auto simp: gocmd_stops_def gocmd_new_law_def sample_def sample_cmd_def sample_step_def cmd_done_def pcmd_status_def
      split: if_splits)

theorem shutdown_tells_every_worker_witness:
  "\<exists>st w. exec_run sample sample_config reporting_run = Some st \<and> loc st = ShutdownLoop \<and> heap (wld st) 0 = Some w \<and>
     (Status_r (s_cmd sample) w = Terminated \<or> rw_cancelled w)"
proof -
  from exec_view [OF reporting_view] obtain st where st: "exec_run sample sample_config reporting_run = Some st"
    and v: "view st = (ShutdownLoop, True, [(''p'', [(''p-0'', 0)])], [SendEvent sample_end, TermTimer 0])" by blast
  from view_pool(1) [OF v] obtain i where i: "map_of (pools (sup st)) ''p'' = Some i" "map_of (workers (pi_pool i)) ''p-0'' = Some 0"
    by auto
  have "''p-0'' \<noteq> ProxyId" by (simp add: ProxyId_def)
  from shutdown_tells_every_worker [OF sample_laws sample_stops exec_run_sound [OF st sample_config_in64] view_pool(2) [OF v] i this]
  show ?thesis using st view_pool(2) [OF v] by blast
qed

end
