(* ===== verification/Proxy_Missed.thy ===== *)
theory Proxy_Missed
  imports System_Stop System_Traces Envoy_Properties
begin

text \<open>
  A shutdown that waits for ever. The proxy of a pool is interrupted when the first process of the pool
  has ended, and not with the workers. When a worker is given up in the main loop, that interrupt happens
  at once; if the end of the proxy is received before the cancelled context, the proxy is started again,
  and no later end of a process is left to interrupt it.
\<close>

subsection \<open>The steps, for any state of that form\<close>

definition just_started :: "'c gocmd \<Rightarrow> cmdOptions \<Rightarrow> 'c realProcessWorker \<Rightarrow> bool" where
  "just_started G opts w \<longleftrightarrow> \<not> rw_cancelled w \<and> rw_isStreamingLogs w = Streaming opts \<and>
     (\<exists>name args env. rw_cmd w = cmdStart G (NewCmdOptions G opts name args env))"

lemma restart_proxy:
  fixes S :: "'c setting"
  assumes fs: "fs_ok lib" and si: "sInfo sw = Some si" "eg_wr (envoyGen si) = None" and p: "pstate sw = Prepared"
    and a: "map_of (workers sw) ProxyId = Some a" "heap g a = Some w0"
  shows "\<exists>w g'. RestartWorker lib (sys_ops S) opts ProxyId sw g =
       Ret (None, sw\<lparr>workers := AList.update ProxyId (nextAddr g) (workers sw)\<rparr>, g') \<and>
     heap g' = (heap g)(nextAddr g \<mapsto> w) \<and> gos g' = gos g @ [StreamLogsLoop (nextAddr g), WatchExit (nextAddr g)] \<and>
     just_started (s_cmd S) opts w"
proof -
  let ?c = "\<lparr>PortRange = portRange sw si, co_LoadBalanceAlgorithm = loadBalanceAlgorithm si,
              co_HealthCheckPath = healthCheckPath si\<rparr>"
  obtain g1 where g1: "RenderClustersToWriter lib (envoyGen si) ?c g = (None, g1)"
    unfolding render_ops using render_writes [OF fs si(2)] by blast
  obtain g2 where g2: "RenderListenersToWriter lib (envoyGen si) \<lparr>lo_Port = proxyListenerPort si\<rparr> g1 = (None, g2)"
    unfolding render_ops using render_writes [OF fs si(2)] by blast
  obtain g3 where g3: "RenderBootstrapConfig lib (envoyGen si) \<lparr>bo_Port = proxyAdminPort si\<rparr> g2 = (None, g3)"
    unfolding render_ops using render_writes [OF fs si(2)] by blast
  note fr = render_frame [OF g1 [unfolded render_ops]] render_frame [OF g2 [unfolded render_ops]]
    render_frame [OF g3 [unfolded render_ops]]
  have fr: "nextAddr g3 = nextAddr g" "heap g3 = heap g" "gos g3 = gos g" using fr by metis+
  obtain w where w: "factory (sys_ops S) (proxy_config opts sw si) = Ret w" "\<not> rw_cancelled w" "rw_lifespan w = None" "rw_memory w = None"
    "rw_isStreamingLogs w = Streaming opts"
    "\<exists>name args env. rw_cmd w = NewCmdOptions (s_cmd S) opts name args env"
    by (auto simp: NewProdWorker_def newWorkerInstance_def proxy_config_def)
  have pp: "prepareProxy lib (sys_ops S) opts sw g = Ret (None, sw\<lparr>workers := AList.update ProxyId (nextAddr g) (workers sw)\<rparr>,
      spawn (StreamLogsLoop (nextAddr g)) (snd (alloc w g3)))"
    using si g1 g2 g3 w(1) by (simp add: prepareProxy_def alloc_def fr)
  define g4 where "g4 = upd_mets (count_restart (poolName sw) ''proxy'') (spawn (StreamLogsLoop (nextAddr g)) (snd (alloc w g3)))"
  have g4: "heap g4 = (heap g)(nextAddr g \<mapsto> w)" "gos g4 = gos g @ [StreamLogsLoop (nextAddr g)]"
    by (simp_all add: g4_def alloc_def fr)
  then obtain g' where o: "on_worker (Run_r (s_cmd S)) (nextAddr g) g4 = Ret g'"
    and g': "heap g' = (heap g)(nextAddr g \<mapsto> fst (Run_r (s_cmd S) (nextAddr g) w))"
      "gos g' = gos g @ [StreamLogsLoop (nextAddr g), WatchExit (nextAddr g)]"
    using w(3,4) by (simp add: on_worker_def Run_r_def)
  have "RestartWorker lib (sys_ops S) opts ProxyId sw g =
      Ret (None, sw\<lparr>workers := AList.update ProxyId (nextAddr g) (workers sw)\<rparr>, g')"
    using a p o by (simp add: RestartWorker_def pp g4_def)
  moreover have "rw_cmd (fst (Run_r (s_cmd S) (nextAddr g) w)) = cmdStart (s_cmd S) (rw_cmd w)" by (simp add: Run_r_def)
  then have "just_started (s_cmd S) opts (fst (Run_r (s_cmd S) (nextAddr g) w))"
    using w(2,5,6) unfolding just_started_def by (intro conjI) (simp add: Run_r_def, simp add: Run_r_def, metis)
  ultimately show ?thesis using g' by blast
qed

text \<open>The end of the proxy in the main loop: the proxy is started again, and counted as running.\<close>

lemma proxy_end_main:
  assumes fs: "fs_ok (s_lib S)" and l: "\<not> terminating (sup st)" and ps: "pools (sup st) = [(n, i)]"
    and si: "sInfo (pi_pool i) = Some si" "eg_wr (envoyGen si) = None" and p: "pstate (pi_pool i) = Prepared"
    and a: "map_of (workers (pi_pool i)) ProxyId = Some a" "heap (wld st) a = Some w0"
    and w0: "cmd_done (s_cmd S) (rw_cmd w0)" "rw_stdStreamClosed w0"
    and e: "e = mk_event ProcessEnd ProcessExited ProxyId n (Some c)"
  shows "\<exists>w g'. main_event (sys_pools S) e st =
      Ret (st\<lparr>sup := (sup st)\<lparr>pools := [(n, i\<lparr>pi_pool := (pi_pool i)\<lparr>workers :=
             AList.update ProxyId (nextAddr (wld st)) (workers (pi_pool i))\<rparr>\<rparr>)]\<rparr>, wld := g'\<rparr>) \<and>
     heap g' = (heap (wld st))(nextAddr (wld st) \<mapsto> w) \<and>
     gos g' = gos (wld st) @ [StreamLogsLoop (nextAddr (wld st)), WatchExit (nextAddr (wld st))] \<and>
     just_started (s_cmd S) (cmdOpts (sup st)) w"
proof -
  let ?g = "upd_mets (DecrementRunningIncrementTerminated n) (wld st)"
  from restart_proxy [OF fs si p a(1), of ?g w0 S "cmdOpts (sup st)"] a(2) obtain w g' where
    r: "RestartWorker (s_lib S) (sys_ops S) (cmdOpts (sup st)) ProxyId (pi_pool i) ?g =
       Ret (None, (pi_pool i)\<lparr>workers := AList.update ProxyId (nextAddr (wld st)) (workers (pi_pool i))\<rparr>, g')"
    and g': "heap g' = (heap (wld st))(nextAddr (wld st) \<mapsto> w)"
      "gos g' = gos (wld st) @ [StreamLogsLoop (nextAddr (wld st)), WatchExit (nextAddr (wld st))]"
    and w: "just_started (s_cmd S) (cmdOpts (sup st)) w"
    by auto
  have "WaitForWorkerToCleanBuffer (sys_ops S) ProxyId (pi_pool i) (wld st) = Ret None"
    using a w0 by (simp add: WaitForWorkerToCleanBuffer_def WaitForWorkerToCleanBuffer_r_def Status_r_Terminated)
  then have "main_event (sys_pools S) e st =
      Ret (st\<lparr>sup := (sup st)\<lparr>pools := [(n, i\<lparr>pi_pool := (pi_pool i)\<lparr>workers :=
             AList.update ProxyId (nextAddr (wld st)) (workers (pi_pool i))\<rparr>\<rparr>)]\<rparr>,
        wld := upd_mets (IncrementRunningDecrementTerminated n) g'\<rparr>)"
    using l r by (simp add: main_event_def handleProcessEnd_def ps e set_pool_def)
  with g' w show ?thesis by (intro exI [of _ w] exI) auto
qed

text \<open>The cancelled context: a worker that has finished is left alone, and so is the proxy.\<close>

lemma ctx_done_spares:
  assumes ps: "pools (sup st) = [(n, i)]" and ws: "workers (pi_pool i) = [(k, a), (ProxyId, b)]" and k: "k \<noteq> ProxyId"
    and a: "heap (wld st) a = Some w" "cmd_done (s_cmd S) (rw_cmd w)" and c: "terminatedProcesses st \<noteq> allProcesses st"
  shows "\<exists>p' g'. ctx_done (sys_pools S) [n] st = Ret (st\<lparr>sup := (sup st)\<lparr>terminating := True, pools := [(n, i\<lparr>pi_pool := p'\<rparr>)]\<rparr>,
       wld := g', loc := ShutdownLoop\<rparr>) \<and> workers p' = workers (pi_pool i) \<and> heap g' = heap (wld st) \<and> gos g' = gos (wld st)"
proof -
  let ?p = "(pi_pool i)\<lparr>pstate := Draining\<rparr>"
  have t: "Terminate_r (s_cmd S) d a w = (w, [])" for d using a(2) by (simp add: Terminate_r_def Status_r_Terminated)
  have o: "on_worker (Terminate_r (s_cmd S) d) a g = Ret g" if "heap g = heap (wld st)" for d g
    using that a(1) t by (cases g) (simp add: on_worker_def fun_upd_idem apply_effects_def)
  have "terminate_loop (sys_ops S) ?p ks g = Ret g" if "set ks \<subseteq> {k, ProxyId}" "heap g = heap (wld st)" for ks g
    using that
  proof (induction ks)
    case (Cons j ks)
    with ws k o show ?case by auto
  qed simp
  moreover have "set (arrange (s_ordI S (pi_pool i)) (workers (pi_pool i))) \<subseteq> {k, ProxyId}"
    using range_order_set [OF range_order_arrange [of "workers (pi_pool i)" "s_ordI S (pi_pool i)"]] ws by auto
  ultimately have "\<exists>g'. InterruptAll (s_lib S) (sys_ops S) (arrange (s_ordI S (pi_pool i)) (workers (pi_pool i))) (pi_pool i)
      (upd_mets SetSigtermGauge (wld st)) = Ret (?p, g') \<and> heap g' = heap (wld st) \<and> gos g' = gos (wld st)"
    by (simp add: InterruptAll_def proxyDrain_def Let_def split: option.split)
  then obtain g' where "InterruptAll (s_lib S) (sys_ops S) (arrange (s_ordI S (pi_pool i)) (workers (pi_pool i))) (pi_pool i)
      (upd_mets SetSigtermGauge (wld st)) = Ret (?p, g')" "heap g' = heap (wld st)" "gos g' = gos (wld st)" by blast
  then show ?thesis using c
    by (intro exI [of _ ?p] exI [of _ g']) (simp add: ctx_done_def on_pool_def ps set_pool_def)
qed

text \<open>A process that runs on blocks both of its goroutines.\<close>

lemma waits_for_process:
  assumes "loc st = ShutdownLoop" and "gos (wld st) = [StreamLogsLoop b, WatchExit b]" and "heap (wld st) b = Some w"
    and "rw_isStreamingLogs w" and "\<not> cmd_done (s_cmd S) (rw_cmd w)" and "cmdRecv (s_cmd S) (rw_cmd w) = None"
  shows "\<not> int_step S st st'"
proof
  assume "int_step S st st'"
  then show False
  proof cases
    case (recv_shutdown xs x ys e)
    then have "x \<in> {StreamLogsLoop b, WatchExit b}" using assms(2) by (metis in_set_conv_decomp list.set(1,2))
    with recv_shutdown(3) show False by auto
  next
    case (goroutine xs x ys a w' w'' zs)
    then have "x \<in> {StreamLogsLoop b, WatchExit b}" using assms(2) by (metis in_set_conv_decomp list.set(1,2))
    with goroutine assms show False by (auto elim!: go_step.cases simp: sendUpdatesToAggrChannel_def)
  qed (use assms in auto)
qed

subsection \<open>A run that gets there\<close>

definition fragile_config :: SupervisorConfig where
  "fragile_config = \<lparr>Workers = [(sample_worker 1)\<lparr>wc_MaxRestarts := 0, wc_Server := Some sample_server\<rparr>]\<rparr>"

text \<open>The worker exits and is given up, the proxy is interrupted and exits.\<close>

definition fragile_run :: "pcmd label list" where
  "fragile_run = [Process 0 (pcmd_at False False), Process 1 (pcmd_at False False), GoRun 1 True, Process 0 (pcmd_at True False),
     GoRun 1 True, GoRun 0 True, Receive 0, Process 1 (pcmd_at True True), GoRun 0 True, GoRun 1 True]"

definition proxy_end :: SupervisorEvent where
  "proxy_end = mk_event ProcessEnd ProcessExited ProxyId ''p''
     (Some \<lparr>cs_Cmd = ''cmd'', PID = 7, Complete = False, Exit = 0, StopTs = 1\<rparr>)"

definition run_view :: "pcmd sys_state \<Rightarrow> run_loc \<times> bool \<times> bool \<times> bool \<times> goroutine list \<times> addr \<times> bool" where
  "run_view st = (loc st, ctxDone st, terminating (sup st), Streaming (cmdOpts (sup st)), gos (wld st), nextAddr (wld st),
     terminatedProcesses st = allProcesses st)"

definition pool_view ::
  "pcmd sys_state \<Rightarrow> (string \<times> (string \<times> addr) list \<times> poolState \<times> string option option) list \<times> (bool \<times> bool) option list" where
  "pool_view st = (map (\<lambda>(n, i). (n, workers (pi_pool i), pstate (pi_pool i), map_option (\<lambda>si. eg_wr (envoyGen si)) (sInfo (pi_pool i))))
       (pools (sup st)),
     map (\<lambda>a. map_option (\<lambda>w. (cmd_done sample_cmd (rw_cmd w), rw_stdStreamClosed w)) (heap (wld st) a)) [0, 1])"

lemma fragile_end:
  "map_option (\<lambda>st. (run_view st, pool_view st)) (exec_run sample fragile_config fragile_run) =
     Some ((MainLoop, True, False, True, [SendEvent proxy_end], 2, False),
       [(''p'', [(''p-0'', 0), (ProxyId, 1)], Prepared, Some None)], [Some (True, True), Some (True, True)])"
  by code_simp

lemma fragile_state:
  obtains st i si w0 w1 where "reachable sample fragile_config st" "loc st = MainLoop" "ctxDone st" "\<not> terminating (sup st)"
    "Streaming (cmdOpts (sup st))" "gos (wld st) = [] @ SendEvent proxy_end # []" "nextAddr (wld st) = 2"
    "terminatedProcesses st \<noteq> allProcesses st" "pools (sup st) = [(''p'', i)]" "workers (pi_pool i) = [(''p-0'', 0), (ProxyId, 1)]"
    "pstate (pi_pool i) = Prepared" "sInfo (pi_pool i) = Some si" "eg_wr (envoyGen si) = None"
    "heap (wld st) 0 = Some w0" "cmd_done sample_cmd (rw_cmd w0)"
    "heap (wld st) 1 = Some w1" "cmd_done sample_cmd (rw_cmd w1)" "rw_stdStreamClosed w1"
proof -
  from exec_view [OF fragile_end] obtain st where st: "exec_run sample fragile_config fragile_run = Some st"
    and r: "run_view st = (MainLoop, True, False, True, [SendEvent proxy_end], 2, False)"
    and p: "pool_view st = ([(''p'', [(''p-0'', 0), (ProxyId, 1)], Prepared, Some None)], [Some (True, True), Some (True, True)])"
    by blast
  have "\<forall>w\<in>set (Workers fragile_config). in64 (wc_MaxRestarts w)" by (simp add: fragile_config_def in64_def)
  with st have re: "reachable sample fragile_config st" by (rule exec_run_sound)
  from p obtain i where i: "pools (sup st) = [(''p'', i)]" "workers (pi_pool i) = [(''p-0'', 0), (ProxyId, 1)]"
    "pstate (pi_pool i) = Prepared" "map_option (\<lambda>si. eg_wr (envoyGen si)) (sInfo (pi_pool i)) = Some None"
    by (auto simp: pool_view_def)
  from i(4) obtain si where si: "sInfo (pi_pool i) = Some si" "eg_wr (envoyGen si) = None" by auto
  from p obtain w0 w1 where w: "heap (wld st) 0 = Some w0" "cmd_done sample_cmd (rw_cmd w0)"
    "heap (wld st) 1 = Some w1" "cmd_done sample_cmd (rw_cmd w1)" "rw_stdStreamClosed w1" by (auto simp: pool_view_def)
  from r show ?thesis by (intro that [OF re _ _ _ _ _ _ _ i(1-3) si w]) (simp_all add: run_view_def)
qed

lemma sample_parts: "s_cmd sample = sample_cmd" "s_step sample = sample_step" "fs_ok (s_lib sample)"
  by (simp_all add: fs_ok_def sample_def sample_lib_def)

lemma worker_not_proxy: "''p-0'' \<noteq> ProxyId" "ProxyId \<noteq> ''p-0''"
  by (simp_all add: ProxyId_def)

text \<open>The end of the proxy is received first: its replacement is installed at address 2.\<close>

lemma proxy_restarted:
  obtains st i w0 w2 where "reachable sample fragile_config st" "loc st = MainLoop" "ctxDone st"
    "terminatedProcesses st \<noteq> allProcesses st" "pools (sup st) = [(''p'', i)]"
    "workers (pi_pool i) = [(''p-0'', 0), (ProxyId, 2)]" "gos (wld st) = [StreamLogsLoop 2, WatchExit 2]"
    "heap (wld st) 0 = Some w0" "cmd_done sample_cmd (rw_cmd w0)"
    "heap (wld st) 2 = Some w2" "just_started sample_cmd (cmdOpts (sup st)) w2" "Streaming (cmdOpts (sup st))"
proof -
  obtain st i si w0 w1 where re: "reachable sample fragile_config st" and l: "loc st = MainLoop" "ctxDone st" "\<not> terminating (sup st)"
    and s: "Streaming (cmdOpts (sup st))" and gs: "gos (wld st) = [] @ SendEvent proxy_end # []" "nextAddr (wld st) = 2"
    and c: "terminatedProcesses st \<noteq> allProcesses st"
    and i: "pools (sup st) = [(''p'', i)]" "workers (pi_pool i) = [(''p-0'', 0), (ProxyId, 1)]"
      "pstate (pi_pool i) = Prepared" "sInfo (pi_pool i) = Some si" "eg_wr (envoyGen si) = None"
    and w: "heap (wld st) 0 = Some w0" "cmd_done sample_cmd (rw_cmd w0)" "heap (wld st) 1 = Some w1"
      "cmd_done sample_cmd (rw_cmd w1)" "rw_stdStreamClosed w1" by (rule fragile_state)
  let ?st = "st\<lparr>wld := (wld st)\<lparr>gos := []\<rparr>\<rparr>"
  let ?i = "i\<lparr>pi_pool := (pi_pool i)\<lparr>workers := [(''p-0'', 0), (ProxyId, 2)]\<rparr>\<rparr>"
  have "\<exists>w2 g1. main_event (sys_pools sample) proxy_end ?st = Ret (st\<lparr>sup := (sup st)\<lparr>pools := [(''p'', ?i)]\<rparr>, wld := g1\<rparr>) \<and>
      heap g1 = (heap (wld st))(2 \<mapsto> w2) \<and> gos g1 = [StreamLogsLoop 2, WatchExit 2] \<and>
      just_started sample_cmd (cmdOpts (sup st)) w2"
    using proxy_end_main [OF sample_parts(3), of ?st, OF _ _ i(4,5,3) _ _ _ w(5) proxy_end_def] l(3) i(1,2) w(3,4) gs(2)
    by (simp add: sample_parts worker_not_proxy)
  then obtain w2 g1 where m: "main_event (sys_pools sample) proxy_end ?st = Ret (st\<lparr>sup := (sup st)\<lparr>pools := [(''p'', ?i)]\<rparr>, wld := g1\<rparr>)"
    and g1: "heap g1 = (heap (wld st))(2 \<mapsto> w2)" "gos g1 = [StreamLogsLoop 2, WatchExit 2]"
    and w2: "just_started sample_cmd (cmdOpts (sup st)) w2" by blast
  let ?st1 = "st\<lparr>sup := (sup st)\<lparr>pools := [(''p'', ?i)]\<rparr>, wld := g1\<rparr>"
  have "sys_step sample st ?st1" using sys_step.recv_main [OF l(1) gs(1), of proxy_end] m by simp
  with re have re1: "reachable sample fragile_config ?st1" by (rule reachable.step)
  show ?thesis by (rule that [OF re1, of ?i w0 w2]) (use w2 s in \<open>simp_all add: l c g1 w\<close>)
qed

text \<open>Then the cancelled context.\<close>

lemma proxy_missed:
  obtains st i w where "reachable sample fragile_config st" "loc st = ShutdownLoop" "pools (sup st) = [(''p'', i)]"
    "workers (pi_pool i) = [(''p-0'', 0), (ProxyId, 2)]" "gos (wld st) = [StreamLogsLoop 2, WatchExit 2]" "heap (wld st) 2 = Some w"
    "\<not> rw_cancelled w" "rw_isStreamingLogs w"
    "rw_cmd w = \<lparr>pc_started = True, pc_pid = 0, pc_exited = False, pc_stopped = False, pc_sent = False\<rparr>"
proof -
  obtain st i w0 w2 where st: "reachable sample fragile_config st" "loc st = MainLoop" "ctxDone st"
    "terminatedProcesses st \<noteq> allProcesses st" "pools (sup st) = [(''p'', i)]"
    "workers (pi_pool i) = [(''p-0'', 0), (ProxyId, 2)]" "gos (wld st) = [StreamLogsLoop 2, WatchExit 2]"
    "heap (wld st) 0 = Some w0" "cmd_done sample_cmd (rw_cmd w0)" "heap (wld st) 2 = Some w2"
    and w2: "just_started sample_cmd (cmdOpts (sup st)) w2" "Streaming (cmdOpts (sup st))" by (rule proxy_restarted)
  from ctx_done_spares [OF st(5,6) worker_not_proxy(1) st(8), of sample, unfolded sample_parts, OF st(9,4)] obtain p' g' where
    cd: "ctx_done (sys_pools sample) [''p''] st = Ret (st\<lparr>sup := (sup st)\<lparr>terminating := True, pools := [(''p'', i\<lparr>pi_pool := p'\<rparr>)]\<rparr>,
       wld := g', loc := ShutdownLoop\<rparr>)" (is "_ = Ret ?st'")
    and g': "workers p' = workers (pi_pool i)" "heap g' = heap (wld st)" "gos g' = gos (wld st)" by blast
  have "range_order (pools (sup st)) [''p'']" by (simp add: st(5) range_order_def)
  from sys_step.context_done [OF st(2,3) this cd] st(1) have "reachable sample fragile_config ?st'" by (blast intro: reachable.step)
  moreover from w2 have "\<not> rw_cancelled w2" "rw_isStreamingLogs w2"
    "rw_cmd w2 = \<lparr>pc_started = True, pc_pid = 0, pc_exited = False, pc_stopped = False, pc_sent = False\<rparr>"
    by (auto simp: just_started_def sample_cmd_def)
  ultimately show ?thesis by (intro that [of ?st' "i\<lparr>pi_pool := p'\<rparr>" w2]) (simp_all add: g' st)
qed

text \<open>C32: Shutdown can wait for ever: a state is reachable, with an environment that keeps the laws of
  go-cmd, in which \<open>Run\<close> is in its shutdown loop, the proxy is running and has not been told to stop, and
  the program can make no step by itself. It waits for a process nobody will interrupt.\<close>

theorem proxy_missed_on_shutdown:
  "\<exists>st i a w. reachable sample fragile_config st \<and> gocmd_laws sample \<and> loc st = ShutdownLoop \<and>
     map_of (pools (sup st)) ''p'' = Some i \<and> map_of (workers (pi_pool i)) ProxyId = Some a \<and> heap (wld st) a = Some w \<and>
     Status_r (s_cmd sample) w = Running \<and> \<not> rw_cancelled w \<and> \<not> pc_stopped (rw_cmd w) \<and> (\<forall>st'. \<not> int_step sample st st')"
proof -
  obtain st i w where st: "reachable sample fragile_config st" "loc st = ShutdownLoop" "pools (sup st) = [(''p'', i)]"
    "workers (pi_pool i) = [(''p-0'', 0), (ProxyId, 2)]" "gos (wld st) = [StreamLogsLoop 2, WatchExit 2]" "heap (wld st) 2 = Some w"
    and w: "\<not> rw_cancelled w" "rw_isStreamingLogs w"
      "rw_cmd w = \<lparr>pc_started = True, pc_pid = 0, pc_exited = False, pc_stopped = False, pc_sent = False\<rparr>" by (rule proxy_missed)
  let ?w = "w\<lparr>rw_cmd := (rw_cmd w)\<lparr>pc_pid := 7\<rparr>\<rparr>"
  let ?st = "st\<lparr>wld := (wld st)\<lparr>heap := (heap (wld st))(2 \<mapsto> ?w)\<rparr>\<rparr>"
  have "sys_step sample st ?st"
    using sys_step.process [OF st(6), of sample "(rw_cmd w)\<lparr>pc_pid := 7\<rparr>"] by (simp add: sample_parts sample_step_def w(3))
  with st(1) have "reachable sample fragile_config ?st" by (rule reachable.step)
  moreover have "\<not> int_step sample ?st st'" for st'
    by (rule waits_for_process [of _ 2 ?w])
      (simp_all add: st w sample_parts cmd_done_def sample_cmd_def pcmd_status_def)
  ultimately show ?thesis using sample_laws
    by (intro exI [of _ ?st] exI [of _ i] exI [of _ 2] exI [of _ ?w])
      (simp add: st w worker_not_proxy sample_parts Status_r_def sample_cmd_def pcmd_status_def)
qed

end
