(* ===== verification/System_Progress.thy ===== *)
theory System_Progress
  imports System_Stop
begin

text \<open>
  From every state of the shutdown loop \<open>Run\<close> can return, without a process that exits on its own
  account: the steps are those of the program, a command that gets its process, and a process that
  exits after \<open>Stop\<close> has reached it. The pools have no proxy, or their proxies have finished.
\<close>

inductive stop_step :: "'c setting \<Rightarrow> ('c \<Rightarrow> bool) \<Rightarrow> 'c sys_state \<Rightarrow> 'c sys_state \<Rightarrow> bool" for S sig where
  program: "int_step S st st' \<Longrightarrow> stop_step S sig st st'"
| starts: "heap (wld st) a = Some w \<Longrightarrow> s_step S (rw_cmd w) c \<Longrightarrow> \<not> cmd_done (s_cmd S) c \<Longrightarrow>
     stop_step S sig st (st\<lparr>wld := (wld st)\<lparr>heap := (heap (wld st))(a \<mapsto> w\<lparr>rw_cmd := c\<rparr>)\<rparr>\<rparr>)"
| exits: "heap (wld st) a = Some w \<Longrightarrow> sig (rw_cmd w) \<Longrightarrow> s_step S (rw_cmd w) c \<Longrightarrow>
     stop_step S sig st (st\<lparr>wld := (wld st)\<lparr>heap := (heap (wld st))(a \<mapsto> w\<lparr>rw_cmd := c\<rparr>)\<rparr>\<rparr>)"

text \<open>What the operating system promises: a started command gets its process, and a process that has been
  stopped can exit.\<close>

definition gocmd_obeys :: "'c setting \<Rightarrow> ('c \<Rightarrow> bool) \<Rightarrow> ('c \<Rightarrow> bool) \<Rightarrow> bool" where
  "gocmd_obeys S pend sig \<longleftrightarrow>
     (\<forall>c. pend c \<longrightarrow> \<not> cmd_done (s_cmd S) c \<longrightarrow> fst (cmdStop (s_cmd S) c) = StopErrNotStarted \<longrightarrow>
        (\<exists>c'. s_step S c c' \<and> \<not> cmd_done (s_cmd S) c' \<and> fst (cmdStop (s_cmd S) c') \<noteq> StopErrNotStarted)) \<and>
     (\<forall>c. sig c \<longrightarrow> \<not> cmd_done (s_cmd S) c \<longrightarrow> (\<exists>c'. s_step S c c' \<and> cmd_done (s_cmd S) c'))"

lemma stop_step_sys: "stop_step S sig st st' \<Longrightarrow> sys_step S st st'"
  by (induction rule: stop_step.induct) (blast intro: int_step_sys sys_step.process)+

lemma stop_steps_reachable: "(stop_step S sig)\<^sup>*\<^sup>* st st' \<Longrightarrow> reachable S config st \<Longrightarrow> reachable S config st'"
  by (induction rule: rtranclp_induct) (blast intro: reachable.step stop_step_sys)+

text \<open>The workers that have not finished.\<close>

definition unfinished :: "'c setting \<Rightarrow> 'c sys_state \<Rightarrow> addr set" where
  "unfinished S st = {a. (\<exists>n k. cur (shape_of (sup st)) n k a) \<and> \<not> finished (s_cmd S) (wld st) a}"

lemma finite_unfinished: "finite (unfinished S st)"
proof (rule finite_subset)
  show "unfinished S st \<subseteq> (\<Union>ni\<in>set (pools (sup st)). snd ` set (workers (pi_pool (snd ni))))"
    by (force simp: unfinished_def cur_def shape_of_def dest: map_of_SomeD)
qed simp

text \<open>A state of the shutdown loop of the program that only waits for workers.\<close>

definition stopping :: "'c setting \<Rightarrow> SupervisorConfig \<Rightarrow> 'c sys_state \<Rightarrow> bool" where
  "stopping S config st \<longleftrightarrow> reachable S config st \<and> loc st = ShutdownLoop \<and>
     (\<forall>n a. cur (shape_of (sup st)) n ProxyId a \<longrightarrow> finished (s_cmd S) (wld st) a)"

text \<open>One process moves on.\<close>

lemma process_unfinished:
  assumes laws: "gocmd_laws S" and w: "heap (wld st) a = Some w" and c: "s_step S (rw_cmd w) c"
  shows "unfinished S (st\<lparr>wld := (wld st)\<lparr>heap := (heap (wld st))(a \<mapsto> w\<lparr>rw_cmd := c\<rparr>)\<rparr>\<rparr>) =
     (if cmd_done (s_cmd S) c then unfinished S st - {a} else unfinished S st)"
proof -
  have "cmd_done (s_cmd S) (rw_cmd w) \<longrightarrow> cmd_done (s_cmd S) c" using laws c by (simp add: gocmd_laws_def)
  then show ?thesis using w by (auto simp: unfinished_def finished_def)
qed

lemma process_stopping:
  assumes laws: "gocmd_laws S" and st: "stopping S config st" and w: "heap (wld st) a = Some w" and c: "s_step S (rw_cmd w) c"
  shows "stopping S config (st\<lparr>wld := (wld st)\<lparr>heap := (heap (wld st))(a \<mapsto> w\<lparr>rw_cmd := c\<rparr>)\<rparr>\<rparr>)"
proof -
  let ?st = "st\<lparr>wld := (wld st)\<lparr>heap := (heap (wld st))(a \<mapsto> w\<lparr>rw_cmd := c\<rparr>)\<rparr>\<rparr>"
  have "cmd_done (s_cmd S) (rw_cmd w) \<longrightarrow> cmd_done (s_cmd S) c" using laws c by (simp add: gocmd_laws_def)
  then have "finished (s_cmd S) (wld ?st) b" if "finished (s_cmd S) (wld st) b" for b
    using that w by (auto simp: finished_def)
  moreover have "reachable S config ?st" using st reachable.step [OF _ sys_step.process [OF w c]] by (simp add: stopping_def)
  ultimately show ?thesis using st by (simp add: stopping_def)
qed

lemma stopped_exits:
  assumes laws: "gocmd_laws S" and ob: "gocmd_obeys S pend sig" and st: "stopping S config st"
    and a: "a \<in> unfinished S st" and w: "heap (wld st) a = Some w" "sig (rw_cmd w)"
  shows "\<exists>st'. stop_step S sig st st' \<and> stopping S config st' \<and> unfinished S st' = unfinished S st - {a}"
proof -
  have "\<not> cmd_done (s_cmd S) (rw_cmd w)" using a w(1) by (auto simp: unfinished_def finished_def)
  with ob w(2) obtain c where c: "s_step S (rw_cmd w) c" "cmd_done (s_cmd S) c" unfolding gocmd_obeys_def by blast
  from stop_step.exits [of st a w sig S c] process_unfinished [OF laws w(1) c(1)] process_stopping [OF laws st w(1) c(1)] w c
  show ?thesis by auto
qed

text \<open>A request to try again is received.\<close>

lemma try_again_received:
  assumes laws: "gocmd_laws S" "gocmd_stops S sig" and st: "stopping S config st"
    and c: "cur (shape_of (sup st)) n k a" and x: "SendEvent (try_again k n) \<in> set (gos (wld st))"
    and w: "heap (wld st) a = Some w" "\<not> cmd_done (s_cmd S) (rw_cmd w)" "fst (cmdStop (s_cmd S) (rw_cmd w)) \<noteq> StopErrNotStarted"
  shows "\<exists>st' w'. stop_step S sig st st' \<and> stopping S config st' \<and> unfinished S st' \<subseteq> unfinished S st \<and>
     heap (wld st') a = Some w' \<and> sig (rw_cmd w')"
proof -
  from st have re: "reachable S config st" and l: "loc st = ShutdownLoop" by (simp_all add: stopping_def)
  have inv: "sys_sup_inv S st" using reachable_inv [OF laws(1) re] by (simp add: sys_inv_def)
  have t: "terminating (sup st)" using inv l by (simp add: sup_inv_def)
  from x obtain xs ys where x: "gos (wld st) = xs @ SendEvent (try_again k n) # ys" by (auto simp: in_set_conv_decomp)
  let ?g = "(wld st)\<lparr>gos := xs @ ys\<rparr>"
  have ev: "ev_Type (try_again k n) = ProcessNeedsInterrupt" "ev_Pool (try_again k n) = n" "ev_Id (try_again k n) = k"
    by (simp_all add: try_again_def)
  from c obtain i where i: "map_of (pools (sup st)) n = Some i" "map_of (workers (pi_pool i)) k = Some a"
    by (auto simp: cur_def shape_of_def)
  obtain g' where o: "on_worker (Terminate_r (s_cmd S) (signalTimeout (startup (pi_pool i)))) a ?g = Ret g'"
    and g': "heap g' a = Some (fst (Terminate_r (s_cmd S) (signalTimeout (startup (pi_pool i))) a w))"
    using w(1) by (simp add: on_worker_def)
  let ?st = "st\<lparr>wld := g'\<rparr>"
  have h: "other_event True (sys_pools S) (try_again k n) (sup st) ?g = Ret (sup st, g')"
    using i o by (simp add: other_event_def ev handleProcessNeedsInterrupt_def on_pool_def InterruptWorker_def set_pool_same)
  then have r: "shutdown_event (sys_pools S) (try_again k n) (st\<lparr>wld := received (SendEvent (try_again k n)) ?g\<rparr>) = Ret ?st"
    using shutdown_waits [OF re l] by (simp add: shutdown_event_def ev)
  have s: "stop_step S sig st ?st" by (rule stop_step.program, rule int_step.recv_shutdown [OF l x _ r]) simp
  have fin: "finished (s_cmd S) g' b" if "finished (s_cmd S) (wld st) b" for b
    using that o by (auto simp: on_worker_eq_Ret finished_def Terminate_r_def Status_r_Terminated)
  have "sig (rw_cmd (fst (Terminate_r (s_cmd S) (signalTimeout (startup (pi_pool i))) a w)))"
    using w(2,3) laws(2) by (simp add: Terminate_r_def Status_r_Terminated Let_def gocmd_stops_def)
  moreover have "stopping S config ?st"
    using st fin reachable.step [OF re stop_step_sys [OF s]] by (auto simp: stopping_def)
  moreover have "unfinished S ?st \<subseteq> unfinished S st" using fin by (auto simp: unfinished_def)
  ultimately show ?thesis using s g' by auto
qed

lemma gets_process:
  assumes laws: "gocmd_laws S" and ob: "gocmd_obeys S pend sig" and st: "stopping S config st"
    and w: "heap (wld st) a = Some w" "\<not> cmd_done (s_cmd S) (rw_cmd w)" "pend (rw_cmd w)" and c: "cur (shape_of (sup st)) n k a"
  shows "\<exists>st1 w1. (stop_step S sig)\<^sup>*\<^sup>* st st1 \<and> stopping S config st1 \<and> unfinished S st1 = unfinished S st \<and>
     cur (shape_of (sup st1)) n k a \<and> gos (wld st1) = gos (wld st) \<and> heap (wld st1) a = Some w1 \<and>
     \<not> cmd_done (s_cmd S) (rw_cmd w1) \<and> fst (cmdStop (s_cmd S) (rw_cmd w1)) \<noteq> StopErrNotStarted"
proof (cases "fst (cmdStop (s_cmd S) (rw_cmd w)) = StopErrNotStarted")
  case True
  with ob w(2,3) obtain c' where c': "s_step S (rw_cmd w) c'" "\<not> cmd_done (s_cmd S) c'"
    "fst (cmdStop (s_cmd S) c') \<noteq> StopErrNotStarted" unfolding gocmd_obeys_def by blast
  let ?st = "st\<lparr>wld := (wld st)\<lparr>heap := (heap (wld st))(a \<mapsto> w\<lparr>rw_cmd := c'\<rparr>)\<rparr>\<rparr>"
  have "stop_step S sig st ?st" by (rule stop_step.starts [OF w(1) c'(1,2)])
  with process_unfinished [OF laws w(1) c'(1)] process_stopping [OF laws st w(1) c'(1)] c c'(2,3) show ?thesis
    by (intro exI [of _ ?st]) auto
qed (use st w c in auto)

text \<open>One worker after the other is brought to its end.\<close>

lemma one_finishes:
  assumes laws: "gocmd_laws S" "gocmd_stops S sig" "gocmd_new_law (s_cmd S)" and d: "gocmd_delivers S pend"
    and ob: "gocmd_obeys S pend sig" and st: "stopping S config st" and a: "a \<in> unfinished S st"
  shows "\<exists>st'. (stop_step S sig)\<^sup>*\<^sup>* st st' \<and> stopping S config st' \<and> unfinished S st' \<subset> unfinished S st"
proof -
  from st have re: "reachable S config st" and l: "loc st = ShutdownLoop" by (simp_all add: stopping_def)
  have inv: "sys_sup_inv S st" and core: "core (s_cmd S) {} (\<lambda>_. 0) (shape_of (sup st)) (wld st)"
    using reachable_inv [OF laws(1) re] by (simp_all add: sys_inv_def)
  from a obtain n k where c: "cur (shape_of (sup st)) n k a" by (auto simp: unfinished_def)
  from a have uf: "\<not> finished (s_cmd S) (wld st) a" by (simp add: unfinished_def)
  from cur_worker [OF inv c] obtain w where w: "heap (wld st) a = Some w" "rw_name w = k" "rw_poolName w = n" by blast
  have nd: "\<not> cmd_done (s_cmd S) (rw_cmd w)" using uf w(1) by (auto simp: finished_def)
  have "k \<noteq> ProxyId" using st c uf by (auto simp: stopping_def)
  with reachable_told [OF laws re l] c have "told (s_cmd S) sig (wld st) a" by (auto simp: all_told_def stop_set_def)
  with w nd consider (stopped) "sig (rw_cmd w)" | (pending) "SendEvent (try_again k n) \<in> set (gos (wld st))"
    by (auto simp: told_def)
  then show ?thesis
  proof cases
    case stopped
    from stopped_exits [OF laws(1) ob st a w(1) stopped] a show ?thesis by auto
  next
    case pending
    have "WatchExit a \<in> set (gos (wld st))" using coreD(4) [OF core c] uf by (auto simp: watch_ok_def)
    with flowD(2) [OF reachable_flow [OF laws(1) d re]] w(1) have pe: "pend (rw_cmd w)" by force
    from gets_process [OF laws(1) ob st w(1) nd pe c]
    obtain st1 w1 where s1: "(stop_step S sig)\<^sup>*\<^sup>* st st1" "stopping S config st1" "unfinished S st1 = unfinished S st"
      and w1: "cur (shape_of (sup st1)) n k a" "gos (wld st1) = gos (wld st)" "heap (wld st1) a = Some w1"
        "\<not> cmd_done (s_cmd S) (rw_cmd w1)" "fst (cmdStop (s_cmd S) (rw_cmd w1)) \<noteq> StopErrNotStarted" by blast
    from try_again_received [OF laws(1,2) s1(2) w1(1) _ w1(3-5)] pending w1(2) obtain st2 w2 where
      s2: "stop_step S sig st1 st2" "stopping S config st2" "unfinished S st2 \<subseteq> unfinished S st"
      and w2: "heap (wld st2) a = Some w2" "sig (rw_cmd w2)" unfolding s1(3) by auto
    show ?thesis
    proof (cases "a \<in> unfinished S st2")
      case True
      from stopped_exits [OF laws(1) ob s2(2) True w2] obtain st3 where
        "stop_step S sig st2 st3" "stopping S config st3" "unfinished S st3 = unfinished S st2 - {a}" by blast
      with s1(1) s2 a show ?thesis by (intro exI [of _ st3]) (auto intro: rtranclp.rtrancl_into_rtrancl)
    next
      case False
      with s1(1) s2 a show ?thesis by (intro exI [of _ st2]) (auto intro: rtranclp.rtrancl_into_rtrancl)
    qed
  qed
qed

lemma all_finish:
  assumes laws: "gocmd_laws S" "gocmd_stops S sig" "gocmd_new_law (s_cmd S)" and d: "gocmd_delivers S pend"
    and ob: "gocmd_obeys S pend sig"
  shows "stopping S config st \<Longrightarrow> \<exists>st'. (stop_step S sig)\<^sup>*\<^sup>* st st' \<and> stopping S config st' \<and> unfinished S st' = {}"
proof (induction "card (unfinished S st)" arbitrary: st rule: less_induct)
  case less
  show ?case
  proof (cases "unfinished S st = {}")
    case False
    then obtain a where "a \<in> unfinished S st" by blast
    from one_finishes [OF laws d ob less.prems this] obtain st1 where
      st1: "(stop_step S sig)\<^sup>*\<^sup>* st st1" "stopping S config st1" "unfinished S st1 \<subset> unfinished S st" by blast
    from less.hyps [OF psubset_card_mono [OF finite_unfinished st1(3)] st1(2)] st1(1) show ?thesis
      by (blast intro: rtranclp_trans)
  qed (use less.prems in blast)
qed

lemma must_return_reaches: "must_return S st \<Longrightarrow> \<exists>st' err. (stop_step S sig)\<^sup>*\<^sup>* st st' \<and> loc st' = Returned err"
proof (induction rule: must_return.induct)
  case (moves st st1)
  then obtain st' err where "(stop_step S sig)\<^sup>*\<^sup>* st1 st'" "loc st' = Returned err" by blast
  with stop_step.program [OF moves(1), of sig] show ?case by (blast intro: converse_rtranclp_into_rtranclp)
qed blast

text \<open>C9: Shutdown can always complete when no pool has a proxy: from every reachable state of the shutdown
  loop there are steps that lead to \<open>Run\<close> returning nil, and in which a process exits only after
  \<open>Stop\<close> has reached it. Whatever state the workers are in when the shutdown begins, not yet started,
  running or gone, nothing else is needed than the program's own steps, commands that get their process, and
  stopped processes that exit.\<close>

theorem shutdown_can_complete:
  assumes laws: "gocmd_laws S" "gocmd_stops S sig" "gocmd_new_law (s_cmd S)" and d: "gocmd_delivers S pend"
    and ob: "gocmd_obeys S pend sig" and re: "reachable S config st" and l: "loc st = ShutdownLoop"
    and np: "\<forall>ni\<in>set (pools (sup st)). \<not> HasProxy (pi_pool (snd ni))"
  shows "\<exists>st'. (stop_step S sig)\<^sup>*\<^sup>* st st' \<and> loc st' = Returned None"
proof -
  have inv: "sys_sup_inv S st" using reachable_inv [OF laws(1) re] by (simp add: sys_inv_def)
  have "\<not> cur (shape_of (sup st)) n ProxyId a" for n a
  proof
    assume "cur (shape_of (sup st)) n ProxyId a"
    then obtain i where i: "map_of (pools (sup st)) n = Some i" "map_of (workers (pi_pool i)) ProxyId = Some a"
      by (auto simp: cur_def shape_of_def)
    from sup_inv_row [OF inv i(1)] have "pool_inv (sys_ops S) rw_name rw_poolName (pi_pool i) (wld st)"
      by (simp add: prepared_inv_def)
    with map_of_in_keys [OF i(2)] have "HasProxy (pi_pool i)" by (simp add: pool_inv_def)
    with np map_of_SomeD [OF i(1)] show False by force
  qed
  with re l have "stopping S config st" by (simp add: stopping_def)
  from all_finish [OF laws d ob this] obtain st1 where st1: "(stop_step S sig)\<^sup>*\<^sup>* st st1" "stopping S config st1" "unfinished S st1 = {}"
    by blast
  then have re1: "reachable S config st1" and l1: "loc st1 = ShutdownLoop" by (simp_all add: stopping_def)
  have "winding S pend st1"
    using reachable_inv [OF laws(1) re1] reachable_flow [OF laws(1) d re1] shutdown_waits [OF re1 l1] l1 st1(3)
    by (auto simp: winding_def unfinished_def)
  from must_return_reaches [OF winding_returns [OF laws(1) d this]] obtain st2 err where
    st2: "(stop_step S sig)\<^sup>*\<^sup>* st1 st2" "loc st2 = Returned err" by blast
  with returned_clean [OF laws(1) stop_steps_reachable [OF st2(1) re1]] have "loc st2 = Returned None" by simp
  with st1(1) st2(1) show ?thesis by (blast intro: rtranclp_trans)
qed

lemma sample_obeys: "gocmd_obeys sample (\<lambda>c. pc_started c \<and> \<not> pc_sent c) (\<lambda>c. pc_pid c \<noteq> 0 \<and> pc_stopped c)"
  by (auto simp: gocmd_obeys_def sample_def sample_cmd_def sample_step_def cmd_done_def pcmd_status_def split: if_splits)

theorem shutdown_can_complete_witness:
  "\<exists>st st'. exec_run sample sample_config (take 3 clean_run) = Some st \<and> loc st = ShutdownLoop \<and>
     (stop_step sample (\<lambda>c. pc_pid c \<noteq> 0 \<and> pc_stopped c))\<^sup>*\<^sup>* st st' \<and> loc st' = Returned None"
proof -
  have "map_option (\<lambda>st. (loc st, list_all (\<lambda>ni. \<not> HasProxy (pi_pool (snd ni))) (pools (sup st))))
      (exec_run sample sample_config (take 3 clean_run)) = Some (ShutdownLoop, True)" by code_simp
  from exec_view [OF this] obtain st where st: "exec_run sample sample_config (take 3 clean_run) = Some st" "loc st = ShutdownLoop"
    and np: "\<forall>ni\<in>set (pools (sup st)). \<not> HasProxy (pi_pool (snd ni))" by (auto simp: list_all_iff)
  have "gocmd_stops sample (\<lambda>c. pc_pid c \<noteq> 0 \<and> pc_stopped c)"
    by (auto simp: gocmd_stops_def sample_def sample_cmd_def sample_step_def split: if_splits)
  from shutdown_can_complete [OF sample_laws this sample_stops(2) sample_delivers sample_obeys
      exec_run_sound [OF st(1) sample_config_in64] st(2) np] st show ?thesis by blast
qed

end
