(* ===== verification/Memory_Properties.thy ===== *)
theory Memory_Properties
  imports Memory_Worker
begin

text \<open>
  The life of an emulated worker: its methods and the goroutines they start, as a sequence of actions, and
  the events that go to the supervisor. \<open>EmptyMemoryWorker\<close> is the remaining factory of
  \<open>internal/worker/test_utils.go\<close>; it gives its worker no name, so it does not keep the contract of a
  worker and no pool is built on it.
\<close>

definition EmptyMemoryWorker :: "WorkerIntConfig \<Rightarrow> InMemoryWorker" where
  "EmptyMemoryWorker wconf =
     \<lparr>im_Name = [], im_PoolName = [], im_cancelled = False, im_status = PrepareWorkers, RestartsCounter = 0, ExitAfter = 0,
      ExitCode = 0, LogText = [], LogInterval = 0, LogError = False, IgnoreTerm = False, im_Memory = None, im_Lifespan = None\<rparr>"

datatype mem_action = DoRun | DoTerminate duration | DoForce | ExitTimerFires | TermTimerFires

fun sent_by :: "effect \<Rightarrow> SupervisorEvent list" where
  "sent_by (Go (SendEvent e)) = [e]"
| "sent_by _ = []"

fun mem_do :: "addr \<Rightarrow> mem_action \<Rightarrow> InMemoryWorker \<Rightarrow> InMemoryWorker \<times> SupervisorEvent list" where
  "mem_do a DoRun w = (fst (Run_m a w), concat (map sent_by (snd (Run_m a w))))"
| "mem_do a (DoTerminate d) w = (fst (Terminate_m d a w), concat (map sent_by (snd (Terminate_m d a w))))"
| "mem_do a DoForce w = (fst (ForceTerminateWorker_m a w), concat (map sent_by (snd (ForceTerminateWorker_m a w))))"
| "mem_do a ExitTimerFires w = (fst (exit_timer_fires w), [snd (exit_timer_fires w)])"
| "mem_do a TermTimerFires w = (w, case term_timer_fires_m w of None \<Rightarrow> [] | Some e \<Rightarrow> [e])"

fun mem_life :: "addr \<Rightarrow> mem_action list \<Rightarrow> InMemoryWorker \<Rightarrow> InMemoryWorker \<times> SupervisorEvent list" where
  "mem_life a [] w = (w, [])"
| "mem_life a (x # xs) w =
     (let (w1, es) = mem_do a x w; (w2, fs) = mem_life a xs w1 in (w2, es @ fs))"

text \<open>The actions that report an end, of a worker that heeds an interrupt and of one that does not.\<close>

fun reports_end :: "bool \<Rightarrow> mem_action \<Rightarrow> bool" where
  "reports_end stubborn (DoTerminate d) = (\<not> stubborn)"
| "reports_end stubborn DoForce = True"
| "reports_end stubborn ExitTimerFires = True"
| "reports_end stubborn _ = False"

definition ends_sent :: "SupervisorEvent list \<Rightarrow> nat" where
  "ends_sent es = length (filter (\<lambda>e. ev_Type e = ProcessEnd) es)"

lemma mem_do_keeps:
  "im_Name (fst (mem_do a x w)) = im_Name w" "im_PoolName (fst (mem_do a x w)) = im_PoolName w"
  "IgnoreTerm (fst (mem_do a x w)) = IgnoreTerm w"
  by (cases x; simp add: mem_worker_defs exit_timer_fires_def Let_def)+

lemma mem_do_events:
  "ends_sent (snd (mem_do a x w)) = (if reports_end (IgnoreTerm w) x then 1 else 0)"
  "e \<in> set (snd (mem_do a x w)) \<Longrightarrow> ev_Id e = im_Name w \<and> ev_Pool e = im_PoolName w"
  by (cases x; auto simp: ends_sent_def mem_worker_defs exit_timer_fires_def term_timer_fires_m_def Let_def split: if_splits)+

lemma reports_end_terminates: "reports_end (IgnoreTerm w) x \<Longrightarrow> Status_m (fst (mem_do a x w)) = Terminated"
  by (cases x) (auto simp: mem_worker_defs exit_timer_fires_def Let_def)


end
