(* ===== verification/Metrics_Registry.thy ===== *)
theory Metrics_Registry
  imports Metrics
begin

text \<open>
  The declarations of the metrics in \<open>metrics/prometheus.go\<close> and \<open>internal/worker/prometheus.go\<close>: their
  names and labels, which \<open>promauto\<close> registers when the packages are initialised, and the labels the
  code passes to \<open>With\<close>. A name that is registered twice and a set of labels other than the declared one both make the
  library panic. \<open>BuildFQName\<close> and the registry are library code and arguments here.
\<close>

definition promNamespace :: string where "promNamespace = ''monoceros''"
definition workerPoolSubSystem :: string where "workerPoolSubSystem = ''workerpool''"
definition supervisorSubSystem :: string where "supervisorSubSystem = ''supervisor''"
definition subsystem :: string where "subsystem = ''workerpool''"
definition poolLabel :: string where "poolLabel = ''pool''"
definition stateLabel :: string where "stateLabel = ''state''"
definition typeLabel :: string where "typeLabel = ''limit_event''"
definition workerType :: string where "workerType = ''worker_type''"

record metric_opts =
  mo_Namespace :: string
  mo_Subsystem :: string
  mo_Name :: string
  mo_labels :: "string list"

definition workersStateGauge_opts :: metric_opts where
  "workersStateGauge_opts = \<lparr>mo_Namespace = promNamespace, mo_Subsystem = workerPoolSubSystem,
     mo_Name = ''worker_state'', mo_labels = [poolLabel, stateLabel]\<rparr>"

definition supervisorSigtermGauge_opts :: metric_opts where
  "supervisorSigtermGauge_opts = \<lparr>mo_Namespace = promNamespace, mo_Subsystem = supervisorSubSystem,
     mo_Name = ''sigterm_received'', mo_labels = []\<rparr>"

definition supervisorProxyMode_opts :: metric_opts where
  "supervisorProxyMode_opts = \<lparr>mo_Namespace = promNamespace, mo_Subsystem = supervisorSubSystem,
     mo_Name = ''proxy_mode'', mo_labels = []\<rparr>"

definition restartsCounter_opts :: metric_opts where
  "restartsCounter_opts = \<lparr>mo_Namespace = promNamespace, mo_Subsystem = subsystem,
     mo_Name = ''restarts_total'', mo_labels = [poolLabel, workerType]\<rparr>"

definition sigkillCounter_opts :: metric_opts where
  "sigkillCounter_opts = \<lparr>mo_Namespace = promNamespace, mo_Subsystem = subsystem,
     mo_Name = ''sigkill_total'', mo_labels = [poolLabel]\<rparr>"

definition limitCounter_opts :: metric_opts where
  "limitCounter_opts = \<lparr>mo_Namespace = promNamespace, mo_Subsystem = subsystem,
     mo_Name = ''limits_events_total'', mo_labels = [poolLabel, typeLabel]\<rparr>"

definition failedToParseLogsCounter_opts :: metric_opts where
  "failedToParseLogsCounter_opts = \<lparr>mo_Namespace = promNamespace, mo_Subsystem = subsystem,
     mo_Name = ''failed_to_parse_log_json_total'', mo_labels = []\<rparr>"

text \<open>The order of initialisation: the package \<open>metrics\<close> before \<open>worker\<close>, which imports it.\<close>

definition declared_metrics :: "metric_opts list" where
  "declared_metrics =
     [workersStateGauge_opts, supervisorSigtermGauge_opts, supervisorProxyMode_opts,
      restartsCounter_opts, sigkillCounter_opts, limitCounter_opts, failedToParseLogsCounter_opts]"

lemmas metric_opts_defs =
  workersStateGauge_opts_def supervisorSigtermGauge_opts_def supervisorProxyMode_opts_def restartsCounter_opts_def
  sigkillCounter_opts_def limitCounter_opts_def failedToParseLogsCounter_opts_def
  promNamespace_def workerPoolSubSystem_def supervisorSubSystem_def subsystem_def
  poolLabel_def stateLabel_def typeLabel_def workerType_def

definition fq_name :: "(string \<Rightarrow> string \<Rightarrow> string \<Rightarrow> string) \<Rightarrow> metric_opts \<Rightarrow> string" where
  "fq_name BuildFQName m = BuildFQName (mo_Namespace m) (mo_Subsystem m) (mo_Name m)"

text \<open>What the library documents: three components that are not empty are joined with underscores, and a
  collector whose name is new is registered.\<close>

definition fq_law :: "(string \<Rightarrow> string \<Rightarrow> string \<Rightarrow> string) \<Rightarrow> bool" where
  "fq_law BuildFQName \<longleftrightarrow>
     (\<forall>a b c. a \<noteq> [] \<longrightarrow> b \<noteq> [] \<longrightarrow> c \<noteq> [] \<longrightarrow> BuildFQName a b c = a @ ''_'' @ b @ ''_'' @ c)"

definition registry_law ::
  "(string \<Rightarrow> string \<Rightarrow> string \<Rightarrow> string) \<Rightarrow> (metric_opts \<Rightarrow> string list \<Rightarrow> string list outcome) \<Rightarrow> bool" where
  "registry_law BuildFQName MustRegister \<longleftrightarrow>
     (\<forall>m reg. fq_name BuildFQName m \<notin> set reg \<longrightarrow> MustRegister m reg = Ret (reg @ [fq_name BuildFQName m]))"

fun promauto_all ::
  "(metric_opts \<Rightarrow> string list \<Rightarrow> string list outcome) \<Rightarrow> metric_opts list \<Rightarrow> string list \<Rightarrow> string list outcome" where
  "promauto_all MustRegister [] reg = Ret reg"
| "promauto_all MustRegister (m # ms) reg = obind (MustRegister m reg) (promauto_all MustRegister ms)"

text \<open>The label sets the code passes to \<open>With\<close>, with the vector each is passed to, and the key of the
  child in the state of \<open>Metrics\<close>.\<close>

definition stats_with :: "string \<Rightarrow> string \<Rightarrow> metric_opts \<times> (string \<times> string) list \<times> string list" where
  "stats_with pool state = (workersStateGauge_opts, [(poolLabel, pool), (stateLabel, state)],
     [fst (statsLabels pool state), snd (statsLabels pool state)])"

definition restarts_with :: "string \<Rightarrow> string \<Rightarrow> metric_opts \<times> (string \<times> string) list \<times> string list" where
  "restarts_with pool wType = (restartsCounter_opts, [(poolLabel, pool), (workerType, wType)], [pool, wType])"

definition sigkill_with :: "string \<Rightarrow> metric_opts \<times> (string \<times> string) list \<times> string list" where
  "sigkill_with pool = (sigkillCounter_opts, [(poolLabel, pool)], [pool])"

definition limit_with :: "string \<Rightarrow> metric_opts \<times> (string \<times> string) list \<times> string list" where
  "limit_with pool = (limitCounter_opts, [(poolLabel, pool), (typeLabel, ''time'')], [pool, ''time''])"

definition with_ok :: "metric_opts \<times> (string \<times> string) list \<times> string list \<Rightarrow> bool" where
  "with_ok = (\<lambda>(m, ls, key). distinct (keys ls) \<and> mset (keys ls) = mset (mo_labels m) \<and>
     map (map_of ls) (mo_labels m) = map Some key)"

text \<open>The check of \<open>metrics/test_utils.go\<close> for the signal: it counts the series of the gauge, and a gauge without
  labels always has one.\<close>

definition ValidateSupervisorSigtermStats :: "metrics \<Rightarrow> bool" where
  "ValidateSupervisorSigtermStats m \<longleftrightarrow> length [supervisorSigtermGauge m] = 1"

lemma sigterm_check_vacuous: "ValidateSupervisorSigtermStats m"
  by (simp add: ValidateSupervisorSigtermStats_def)

subsection \<open>Properties\<close>

lemma promauto_all_names:
  "registry_law B R \<Longrightarrow> distinct (map (fq_name B) ms) \<Longrightarrow> set (map (fq_name B) ms) \<inter> set reg = {} \<Longrightarrow>
     promauto_all R ms reg = Ret (reg @ map (fq_name B) ms)"
  by (induction ms arbitrary: reg) (auto simp: registry_law_def)

lemma declared_names_distinct: "fq_law B \<Longrightarrow> distinct (map (fq_name B) declared_metrics)"
  by (simp add: declared_metrics_def fq_name_def fq_law_def metric_opts_defs)


definition joined :: "string \<Rightarrow> string \<Rightarrow> string \<Rightarrow> string" where
  "joined a b c = a @ ''_'' @ b @ ''_'' @ c"

definition sample_registry :: "metric_opts \<Rightarrow> string list \<Rightarrow> string list outcome" where
  "sample_registry m reg =
     (if fq_name joined m \<in> set reg then Panic ''duplicate metrics collector registration attempted''
      else Ret (reg @ [fq_name joined m]))"


end
