(* ===== verification/Processbin_Http.thy ===== *)
theory Processbin_Http
  imports Processbin
begin

text \<open>
  The HTTP side of \<open>cmd/processbin/main.go\<close>, and \<open>validateProcessbinResponse\<close> of
  \<open>internal/supervisor/test_utils.go\<close>, the check the tests make on its answer. Listening and
  transport are library code: what \<open>ListenAndServe\<close>, \<open>WriteString\<close> and \<open>ReadAll\<close> return are arguments.
\<close>

definition ReadTimeout :: duration where "ReadTimeout = 5 * Second"

record http_Server =
  srv_Addr :: string
  srv_ReadTimeout :: duration

definition startHttpServer :: "int \<Rightarrow> http_Server" where
  "startHttpServer port = \<lparr>srv_Addr = '':'' @ showInt port, srv_ReadTimeout = ReadTimeout\<rparr>"

text \<open>The handler of every path.\<close>

definition hello_handler :: "error option \<Rightarrow> string \<Rightarrow> string outcome" where
  "hello_handler writeErr body =
     (case writeErr of
        None \<Rightarrow> Ret (body @ ''hello from processbin'' @ [newline])
      | Some err \<Rightarrow> Panic ''write'')"

text \<open>The goroutine that serves: \<open>ListenAndServe\<close> never returns nil.\<close>

datatype serve_error = ErrServerClosed | ServeFailed string

definition serve_goroutine :: "serve_error \<Rightarrow> unit outcome" where
  "serve_goroutine err = (case err of ErrServerClosed \<Rightarrow> Ret () | ServeFailed msg \<Rightarrow> Panic msg)"

text \<open>\<open>Shutdown\<close> is called on a signal and on the timeout, before anything else is looked at.\<close>

definition calls_shutdown :: "pb_event \<Rightarrow> pb_state \<Rightarrow> bool" where
  "calls_shutdown e g \<longleftrightarrow> pb_server g \<and> (case e of PbSignal s \<Rightarrow> True | PbTimeout \<Rightarrow> True | PbLog \<Rightarrow> False)"

subsection \<open>The check of the tests\<close>

text \<open>\<open>strings.Contains\<close>.\<close>

fun str_contains :: "string \<Rightarrow> string \<Rightarrow> bool" where
  "str_contains sub [] \<longleftrightarrow> sub = []"
| "str_contains sub (c # s) \<longleftrightarrow> take (length sub) (c # s) = sub \<or> str_contains sub s"

text \<open>The errors reported to the test; \<open>ReadAll\<close> returns what it has read also when it fails.\<close>

definition validateProcessbinResponse :: "string \<Rightarrow> string \<times> error option \<Rightarrow> string list" where
  "validateProcessbinResponse name read =
     (if snd read \<noteq> None then [name @ '': validateProcessbinResponse''] else []) @
     (let wantString = ''hello from processbin''
      in if \<not> str_contains wantString (fst read)
         then [name @ '': worker response did not contain '' @ [CHR 0x27] @ wantString @ [CHR 0x27]] else [])"

subsection \<open>Properties\<close>

lemma str_contains_iff: "str_contains sub s \<longleftrightarrow> (\<exists>us vs. s = us @ sub @ vs)"
proof (induction s)
  case (Cons c s)
  have "take (length sub) (c # s) = sub \<longleftrightarrow> (\<exists>vs. c # s = sub @ vs)"
    by (metis append_eq_conv_conj append_take_drop_id)
  with Cons show ?case by (auto simp: Cons_eq_append_conv)
qed auto


text \<open>An ignored signal closes the HTTP server all the same: processbin goes on without it.\<close>

lemma ignored_signal_closes_server:
  assumes "ignore_signals c" and "pb_server g"
  shows "pb_step c None (PbSignal s) g = PbGoesOn g \<and> calls_shutdown (PbSignal s) g"
  using assms by (simp add: pb_step_def calls_shutdown_def)

end
