(* ===== verification/Spec2Isabelle.thy ===== *)
theory Spec2Isabelle
  imports Config_Properties Envoy_Properties System_Properties System_Refinement System_Liveness System_Traces Log_Properties Admin_Properties
    Main_Properties Start_Up Processbin Mock_Pool Proxy_Missed System_Progress Memory_Properties Metrics_Registry Processbin_Http
begin

text \<open>
  Monoceros is a controller that starts a configured number of replicas of server programs, restarts the
  ones that end, and on a signal stops them all and waits for the last one. In proxy mode it also runs an
  Envoy process in front of the replicas of a pool. This development models the program of
  \<open>cmd/\<close>, \<open>internal/\<close> and \<open>metrics/\<close> and proves what its parts promise.

  \<^bold>\<open>The parts and how they interact.\<close> \<open>cmd/monoceros\<close> loads the configuration
  (\<open>internal/config\<close>) and runs two goroutines, the admin interface (\<open>internal/admin\<close>, health and
  metrics over HTTP) and the supervisor (\<open>internal/supervisor\<close>), next to one that waits for a signal.
  The supervisor creates one worker pool per section of the configuration, keeps the number of running
  processes per pool, and serves a channel of events. A pool (\<open>internal/worker/worker_pool.go\<close>) owns
  workers by name, gives them ports, writes the configuration of the proxy
  (\<open>envoy_config.go\<close>) and replaces a worker that ended until the restart budget is used up. A worker is
  an operating-system process behind go-cmd (\<open>worker_real.go\<close>) or an emulated one
  (\<open>worker_memory.go\<close>). Its goroutines report the end of the process, an expired lifespan
  (\<open>limiter_time.go\<close>) and an expired signal timeout as events on the channel of the supervisor, and
  copy its output line by line (\<open>worker_log_streamer.go\<close>).

  \<^bold>\<open>What models what.\<close> Definitions keep the names of the code; a suffix separates methods of the
  same name: \<open>_r\<close> the operating-system worker, \<open>_m\<close> the emulated one, \<open>_w\<close>, \<open>_s\<close>, \<open>_a\<close> and
  \<open>_sup\<close> the worker, server, admin and supervisor configuration or object.

  \<^item> \<open>Prelude\<close>: \<open>outcome\<close> (a value or a panic), 64-bit integers with their wrap-around, association
    lists as Go maps; \<open>Go_Errors\<close>: sentinels, wrapping and \<open>errors.Is\<close> (the three
    \<open>defaults.go\<close>); \<open>Go_Float\<close>: rounding to \<open>float32\<close> and \<open>float64\<close>; \<open>Go_Lib\<close>: paths,
    durations, and the record \<open>golib\<close> of calls into the outside; \<open>Go_Utf8\<close>, \<open>Go_Json\<close>:
    \<open>unicode/utf8\<close> and \<open>encoding/json\<close>.
  \<^item> \<open>Metrics\<close>: \<open>metrics/prometheus.go\<close>, \<open>internal/worker/prometheus.go\<close> as a record of gauges and
    counters, and \<open>Metrics_Registry\<close>: their declarations and labels. \<open>Server_Config\<close>, \<open>Worker_Config\<close>, \<open>Worker_Types\<close>: \<open>internal/server/config.go\<close>,
    \<open>internal/worker/config.go\<close> and \<open>types.go\<close>.
  \<^item> \<open>Time_Limiter\<close>: the limiters. \<open>Worker_Interface\<close>: the interface \<open>Worker\<close> as a record of
    operations, and the \<open>world\<close> they act on: the heap of workers, the running goroutines, the metrics,
    the signals sent, the requests posted and the files written. \<open>Real_Worker\<close>, \<open>Memory_Worker\<close>: its two
    implementations.
  \<^item> \<open>Envoy_Config\<close>: the three templates and their rendering. \<open>Worker_Pool\<close>: every operation of a pool.
    \<open>Supervisor\<close>: creation of the pools, the handlers, and \<open>Run\<close> as a state machine whose states are
    the places where it blocks. \<open>Mock_Pool\<close>: the pool the tests plug into the supervisor.
  \<^item> \<open>System\<close>: supervisor, pools, workers, their goroutines and their processes together, as the
    interleaving step relation \<open>sys_step\<close>. \<open>System_Exec\<close>: the same steps as a function of a label.
  \<^item> \<open>Log_Streamer\<close>: \<open>logJson\<close>, \<open>logRawString\<close>, \<open>LogStdOut\<close>, \<open>LogStdErr\<close> and both
    \<open>StreamLogs\<close>. \<open>Admin\<close>: the admin interface and \<open>LoadConf\<close>. \<open>Main_Program\<close>:
    \<open>mainCore\<close> as the step relation \<open>main_step\<close> around the system, the command's action and exit code.
    \<open>Processbin\<close>, \<open>Processbin_Http\<close>: the program the tests run as a worker, and the tests' check of its
    answers.
  \<^item> \<open>Samples\<close>: a concrete go-cmd, file system and configurations, on which witnesses evaluate.

  \<^bold>\<open>Interfaces.\<close> Each is a locale whose laws are discharged on the definitions above.
  \<open>worker_contract\<close> is what a pool relies on of a worker: interpreted for the operating-system worker and
  for the four emulated ones. Inside it \<open>Pool_Invariant\<close>, \<open>Pool_Prepare\<close>, \<open>Pool_Total\<close> and
  \<open>Pool_Health\<close> prove the pool once for every worker. \<open>pool_contract\<close> is what the supervisor relies on of a
  pool: \<open>Supervisor_Invariant\<close> proves the accounting of the supervisor inside it, \<open>Pool_Contract\<close>
  interprets it. \<open>world_invariant\<close> asks a predicate on the world to survive the four things a pool can do to
  it; \<open>System_Flow\<close> and \<open>System_Stop\<close> interpret it. \<open>stream_loggers\<close> is what reading two streams in any order relies
  on, interpreted for the written texts and for the log entries.

  \<^bold>\<open>What is shown.\<close>

  \<^item> \<open>System_Properties\<close>: in every reachable state each live process has exactly one goroutine that will
    report its end, the gauges equal the number of processes not yet counted as ended, restart counts stay
    within the budget, no handler panics except through restarting, nothing is restarted during shutdown,
    and \<open>Run\<close> returns only when every process has terminated. These rest on one invariant by rule
    induction (\<open>System_Invariant\<close>, \<open>System_Steps\<close>, \<open>System_Safety\<close>, \<open>World_Invariant\<close>).
  \<^item> \<open>System_Refinement\<close>: every step of the program is a step of a machine that keeps a phase and a
    number of live processes per pool. \<open>System_Liveness\<close>: once the processes have terminated, \<open>Run\<close>
    returns after finitely many steps under every schedule. \<open>System_Stop\<close>: from the interrupt of the
    pools on, every worker but the proxies has finished, has been stopped, or will be interrupted again.
    \<open>System_Progress\<close>: without a proxy, shutdown can complete from each of its states, with processes that
    exit only once they have been stopped.
  \<^item> \<open>Pool_Properties\<close>, \<open>Time_Limiter\<close>, \<open>Config_Properties\<close>, \<open>Envoy_Properties\<close>: names, ports and
    budget of a pool, that every operation keeps it well-formed, what stopping it touches, the bounds of
    the jitter, the accuracy of the health percentage, what validation accepts, and that the endpoints can be
    read back from the rendered file.
  \<^item> \<open>Json_Roundtrip\<close>, \<open>Json_Laws\<close>, \<open>Log_Properties\<close>: encoded text decodes to the same value, a
    logged object comes out with the worker's id added, every line is logged once and in order, and
    \<open>StreamLogs\<close> returns.
  \<^item> \<open>Main_Properties\<close>, \<open>Admin_Properties\<close>, \<open>Start_Up\<close>: the supervisor inside \<open>mainCore\<close> moves exactly by
    the steps of the system, \<open>mainCore\<close> returns only after both goroutines have, signals are not lost, what
    the health endpoint says about the processes, and that an accepted configuration file is served.
  \<^item> \<open>Metrics_Registry\<close>, \<open>Memory_Properties\<close>, \<open>Processbin_Http\<close>: metrics are declared once and used with
    their labels, what emulated workers report, and which answers the tests accept.
  \<^item> \<open>System_Traces\<close>, \<open>Proxy_Missed\<close>, \<open>Mock_Pool\<close> and some of the above show behaviour that differs from
    what is intended: a kill sent to the controller's own process group, a proxy that is never told to stop,
    an error of the supervisor that is lost, a line \<open>null\<close> that panics, a jitter below a millisecond that panics, a percentage that is truncated, an
    interrupt of the proxy at the first end.

  \<^bold>\<open>Parameters.\<close> Code outside the repository is an argument. go-cmd: \<open>gocmd\<close>, with the laws
  \<open>gocmd_laws\<close> (a finished command stays finished, its status is delivered only when it has finished) and, for
  liveness, \<open>gocmd_delivers\<close> (a finished command's status is delivered), for stopping, \<open>gocmd_stops\<close> and
  \<open>gocmd_new_law\<close> (\<open>Stop\<close> reaches a started command, a new command is neither started nor finished), and for
  completing a shutdown \<open>gocmd_obeys\<close> (a started command gets its process, a stopped process can exit);
  \<open>Samples\<close> satisfies them. The record \<open>golib\<close>: \<open>LookPath\<close>, \<open>text/template\<close> on the user's port template, \<open>rand.Intn\<close>, the file system
  and the HTTP client. \<open>strconv\<close>'s conversion of numbers, with \<open>num_law\<close> (printing a float and reading it
  gives the same float). The Prometheus registry, with \<open>fq_law\<close> and \<open>registry_law\<close> (names are joined with
  underscores, a new name can be registered), the decoding of YAML and reading a file, the order
  in which a map is visited, the choices of \<open>select\<close> and what \<open>http.Server\<close> reports.

  \<^bold>\<open>Bounds.\<close> The JSON scanner recurses with the bound \<open>scan_fuel\<close>, twice the length of the text and two;
  \<open>scan_fuel_enough\<close> proves that it is never reached, so it does not show in any result; the limit of
  10000 on nesting is the library's own. The loops of \<open>StreamLogs\<close> and of processbin consume a list of
  choices or events. No other definition has a bound; process counts are exact integers.

  \<^bold>\<open>Not modelled.\<close> The texts of log messages that carry no state; parsing of command-line flags and
  construction of the logger (library calls); serving HTTP itself, of the admin interface, of Prometheus, of
  pprof and of processbin; help texts of the metrics; waiting times, which only delay a step.
\<close>

end
